(* ===== verification/Prelude.thy ===== *)
theory Prelude
  imports Main "HOL-Library.Word" "HOL-Library.Char_ord" "HOL-Library.List_Lexorder"
begin

text \<open>
  The vocabulary every component theory shares.

  \<^item> Machine types: \<open>u8\<close>, \<open>u64\<close>, \<open>u128\<close> are words of that width. A Rust \<open>str\<close> is a
    \<open>string\<close>, the list of its UTF-8 bytes; its order is the bytewise lexicographic one.
  \<^item> Fallible code returns \<open>'e + 'a\<close>, with \<open>Inl\<close> for \<open>Err\<close> and \<open>Inr\<close> for \<open>Ok\<close>.
  \<^item> \<open>split_on\<close> and \<open>join_with\<close> are \<open>str::split\<close> on one character and \<open>[str]::join\<close>.
  \<^item> A \<open>BTreeMap\<close> is a list of pairs sorted by key, so that iteration has the order of the
    source; the locale \<open>ordered_map\<close> is the contract its clients use.
\<close>

named_theorems vfs_defs \<open>definitions a proof about a filesystem operation unfolds\<close>

type_synonym u8 = "8 word"
type_synonym u16 = "16 word"
type_synonym u32 = "32 word"
type_synonym u64 = "64 word"
type_synonym u128 = "128 word"
type_synonym bytes = "u8 list"

text \<open>An \<open>f32\<close> a component only carries (never computes with) is its bit pattern.\<close>

type_synonym f32_bits = "32 word"

subsection \<open>Splitting and joining strings\<close>

fun split_on :: "'a \<Rightarrow> 'a list \<Rightarrow> 'a list list" where
  "split_on c [] = [[]]"
| "split_on c (x # xs) =
     (if x = c then [] # split_on c xs
      else (case split_on c xs of [] \<Rightarrow> [[x]] | y # ys \<Rightarrow> (x # y) # ys))"

fun join_with :: "'a list \<Rightarrow> 'a list list \<Rightarrow> 'a list" where
  "join_with sep [] = []"
| "join_with sep [x] = x"
| "join_with sep (x # y # zs) = x @ sep @ join_with sep (y # zs)"

lemma split_on_not_Nil [simp]: "split_on c xs \<noteq> []"
  by (induction xs) (auto split: list.splits)

lemma split_on_no_sep: "p \<in> set (split_on c xs) \<Longrightarrow> c \<notin> set p"
proof (induction xs arbitrary: p)
  case Nil
  then show ?case by simp
next
  case (Cons x xs)
  then show ?case by (cases "split_on c xs") (auto split: if_splits)
qed

lemma split_on_absent: "c \<notin> set xs \<Longrightarrow> split_on c xs = [xs]"
  by (induction xs) auto

lemma split_on_append_sep:
  "c \<notin> set xs \<Longrightarrow> split_on c (xs @ c # ys) = xs # split_on c ys"
  by (induction xs) auto

lemma split_on_join:
  "\<lbrakk>ps \<noteq> []; \<And>p. p \<in> set ps \<Longrightarrow> c \<notin> set p\<rbrakk> \<Longrightarrow> split_on c (join_with [c] ps) = ps"
proof (induction "[c]" ps rule: join_with.induct)
  case 1
  then show ?case by simp
next
  case (2 x)
  then show ?case by (simp add: split_on_absent)
next
  case (3 x y zs)
  then show ?case by (simp add: split_on_append_sep)
qed

lemma join_split_on: "join_with [c] (split_on c xs) = xs"
proof (induction xs)
  case Nil
  then show ?case by simp
next
  case (Cons x xs)
  obtain y ys where split: "split_on c xs = y # ys" by (cases "split_on c xs") auto
  with Cons.IH show ?case by (cases ys) auto
qed

text \<open>\<open>str::starts_with\<close> on one character, \<open>strip_prefix\<close> and \<open>split_last\<close> on a slice.\<close>

fun starts_with_char :: "char \<Rightarrow> string \<Rightarrow> bool" where
  "starts_with_char c [] = False"
| "starts_with_char c (x # xs) = (x = c)"

fun strip_prefix :: "'a list \<Rightarrow> 'a list \<Rightarrow> 'a list option" where
  "strip_prefix [] xs = Some xs"
| "strip_prefix (p # ps) [] = None"
| "strip_prefix (p # ps) (x # xs) = (if p = x then strip_prefix ps xs else None)"

lemma strip_prefix_Some: "strip_prefix p xs = Some ys \<longleftrightarrow> xs = p @ ys"
  by (induction p xs rule: strip_prefix.induct) auto

definition split_last :: "'a list \<Rightarrow> ('a \<times> 'a list) option" where
  "split_last xs = (if xs = [] then None else Some (last xs, butlast xs))"

lemma split_last_Some [simp]: "split_last xs = Some (x, ys) \<longleftrightarrow> xs = ys @ [x]"
  by (auto simp: split_last_def)

lemma split_last_None [simp]: "split_last xs = None \<longleftrightarrow> xs = []"
  by (simp add: split_last_def)

lemma split_last_snoc [simp]: "split_last (ys @ [x]) = Some (x, ys)"
  by simp

subsection \<open>BTreeMap as a sorted association list\<close>

fun bt_insert :: "'k::linorder \<Rightarrow> 'v \<Rightarrow> ('k \<times> 'v) list \<Rightarrow> ('k \<times> 'v) list" where
  "bt_insert k v [] = [(k, v)]"
| "bt_insert k v ((a, b) # m) =
     (if k < a then (k, v) # (a, b) # m
      else if k = a then (k, v) # m
      else (a, b) # bt_insert k v m)"

fun bt_remove :: "'k \<Rightarrow> ('k \<times> 'v) list \<Rightarrow> ('k \<times> 'v) list" where
  "bt_remove k [] = []"
| "bt_remove k ((a, b) # m) = (if k = a then bt_remove k m else (a, b) # bt_remove k m)"

definition bt_sorted :: "('k::linorder \<times> 'v) list \<Rightarrow> bool" where
  "bt_sorted m \<longleftrightarrow> sorted_wrt (<) (map fst m)"

lemma bt_sorted_Nil [simp]: "bt_sorted []"
  by (simp add: bt_sorted_def)

lemma bt_sorted_Cons: "bt_sorted ((a, b) # m) \<longleftrightarrow> (\<forall>k \<in> fst ` set m. a < k) \<and> bt_sorted m"
  by (simp add: bt_sorted_def)

lemma map_of_bt_insert [simp]: "map_of (bt_insert k v m) = (map_of m)(k \<mapsto> v)"
  by (induction m) (auto simp: fun_eq_iff)

lemma map_of_bt_remove [simp]: "map_of (bt_remove k m) = (map_of m)(k := None)"
  by (induction m) (auto simp: fun_eq_iff)

lemma keys_bt_insert [simp]: "fst ` set (bt_insert k v m) = insert k (fst ` set m)"
  by (induction k v m rule: bt_insert.induct) auto

lemma keys_bt_remove [simp]: "fst ` set (bt_remove k m) = fst ` set m - {k}"
  by (induction k m rule: bt_remove.induct) auto

lemma set_bt_insert: "set (bt_insert k v m) \<subseteq> insert (k, v) (set m)"
  by (induction k v m rule: bt_insert.induct) auto

lemma bt_remove_filter: "bt_remove k m = filter (\<lambda>p. fst p \<noteq> k) m"
  by (induction m) auto

lemma set_bt_remove: "set (bt_remove k m) = {p \<in> set m. fst p \<noteq> k}"
  by (simp add: bt_remove_filter)

lemma bt_sorted_insert [simp]: "bt_sorted m \<Longrightarrow> bt_sorted (bt_insert k v m)"
  by (induction k v m rule: bt_insert.induct) (auto simp: bt_sorted_Cons)

lemma bt_sorted_remove [simp]: "bt_sorted m \<Longrightarrow> bt_sorted (bt_remove k m)"
  by (induction k m rule: bt_remove.induct) (auto simp: bt_sorted_Cons set_bt_remove)

lemma bt_sorted_distinct: "bt_sorted m \<Longrightarrow> distinct (map fst m)"
  by (auto simp: bt_sorted_def strict_sorted_iff)

lemma bt_sorted_set_map_of: "bt_sorted m \<Longrightarrow> (k, v) \<in> set m \<longleftrightarrow> map_of m k = Some v"
  by (simp add: bt_sorted_distinct)

lemma length_bt_insert:
  "bt_sorted m \<Longrightarrow>
     length (bt_insert k v m) = (if map_of m k = None then Suc (length m) else length m)"
proof (induction m)
  case Nil
  then show ?case by simp
next
  case (Cons p m)
  obtain a b where p: "p = (a, b)" by (cases p)
  have "k < a \<Longrightarrow> map_of m k = None"
    using Cons.prems p by (force simp: bt_sorted_Cons map_of_eq_None_iff)
  with Cons p show ?case by (auto simp: bt_sorted_Cons)
qed

lemma length_bt_remove_le: "length (bt_remove k m) \<le> length m"
  by (induction m) auto

lemma length_bt_remove_less: "map_of m k \<noteq> None \<Longrightarrow> length (bt_remove k m) < length m"
proof (induction m)
  case Nil
  then show ?case by simp
next
  case (Cons p m)
  then show ?case
    using length_bt_remove_le [of k m] by (cases p) (auto simp: less_Suc_eq_le)
qed

text \<open>Two sorted maps with the same entries are the same list: the order is canonical.\<close>

lemma bt_ext:
  assumes "bt_sorted m" and "bt_sorted n" and "map_of m = map_of n"
  shows "m = n"
proof -
  have "set m = set n"
    using assms by (auto simp: bt_sorted_set_map_of)
  moreover have "sorted_wrt (\<lambda>p q. fst p < fst q) m" "sorted_wrt (\<lambda>p q. fst p < fst q) n"
    using assms(1,2) by (simp_all add: bt_sorted_def sorted_wrt_map)
  ultimately show ?thesis
  proof (induction m arbitrary: n)
    case Nil
    then show ?case by simp
  next
    case (Cons p m)
    then obtain q n' where n: "n = q # n'" by (cases n) auto
    have "p = q"
      using Cons.prems n by (metis insert_iff list.set(2) not_less_iff_gr_or_eq sorted_wrt.simps(2))
    moreover have "p \<notin> set m" "q \<notin> set n'"
      using Cons.prems n by auto
    ultimately have "set m = set n'"
      using Cons.prems(1) n by auto
    with Cons n \<open>p = q\<close> show ?case by simp
  qed
qed

subsection \<open>The contract of an ordered map\<close>

text \<open>
  What the filesystem and the document rely on: a lookup after an insert or a removal, and
  that the representation invariant is kept. The laws of two consecutive operations follow
  once for every implementation.
\<close>

locale ordered_map =
  fixes emp :: "'m"
    and ins :: "'k \<Rightarrow> 'v \<Rightarrow> 'm \<Rightarrow> 'm"
    and del :: "'k \<Rightarrow> 'm \<Rightarrow> 'm"
    and lkp :: "'m \<Rightarrow> 'k \<Rightarrow> 'v option"
    and ok :: "'m \<Rightarrow> bool"
  assumes emp_ok: "ok emp"
    and ins_ok: "ok m \<Longrightarrow> ok (ins k v m)"
    and del_ok: "ok m \<Longrightarrow> ok (del k m)"
    and lkp_emp: "lkp emp k = None"
    and lkp_ins: "lkp (ins k v m) = (lkp m)(k \<mapsto> v)"
    and lkp_del: "lkp (del k m) = (lkp m)(k := None)"
    and ext: "ok m \<Longrightarrow> ok n \<Longrightarrow> lkp m = lkp n \<Longrightarrow> m = n"
begin

lemma ins_ins_same: "ok m \<Longrightarrow> ins k v (ins k w m) = ins k v m"
  by (rule ext) (auto simp: ins_ok lkp_ins)

lemma ins_comm: "ok m \<Longrightarrow> k \<noteq> l \<Longrightarrow> ins k v (ins l w m) = ins l w (ins k v m)"
  by (rule ext) (auto simp: ins_ok lkp_ins fun_upd_twist)

lemma del_ins_same: "ok m \<Longrightarrow> lkp m k = None \<Longrightarrow> del k (ins k v m) = m"
  by (rule ext) (auto simp: ins_ok del_ok lkp_ins lkp_del)

lemma ins_del_restore: "ok m \<Longrightarrow> lkp m k = Some v \<Longrightarrow> ins k v (del k m) = m"
  by (rule ext) (auto simp: ins_ok del_ok lkp_ins lkp_del)

end

interpretation bt: ordered_map "[]" bt_insert bt_remove map_of bt_sorted
  by unfold_locales (auto intro: bt_ext)

subsection \<open>Results\<close>

definition is_ok :: "'e + 'a \<Rightarrow> bool" where
  "is_ok r = (case r of Inl _ \<Rightarrow> False | Inr _ \<Rightarrow> True)"

lemma is_ok_simps [simp]: "\<not> is_ok (Inl e)" "is_ok (Inr x)"
  by (simp_all add: is_ok_def)

definition list_get :: "'a list \<Rightarrow> nat \<Rightarrow> 'a option" where
  "list_get xs i = (if i < length xs then Some (xs ! i) else None)"

subsection \<open>The two halves of a byte\<close>

lemma low_nibble_only:
  assumes "c \<le> (15 :: u8)"
  shows "and c 0x0F = c" "and c 0xF0 = 0"
proof -
  have "unat (take_bit 4 c) = unat c"
    using assms by (simp add: unsigned_take_bit_eq take_bit_nat_eq_self word_le_nat_alt)
  then have "take_bit 4 c = c" by (rule unsigned_word_eqI)
  then show c: "and c 0x0F = c" by (simp add: take_bit_eq_mask mask_eq_exp_minus_1)
  have "and c 0xF0 = and c (and 0x0F 0xF0)" by (subst c [symmetric]) (simp only: and.assoc)
  then show "and c 0xF0 = 0" by simp
qed

lemma low_nibble_le: "and c 0x0F \<le> (15 :: u8)"
  using word_and_le1 [of c "0x0F"] by simp

end
