(* ===== verification/Protocol.thy ===== *)
theory Protocol
  imports Prelude
begin

text \<open>
  The client--server contract (\<open>crates/wk-protocol/src/lib.rs\<close>): the wires, the connection
  kinds, the resources and actions authority is expressed in, the commands, and the
  \<open>right(resource, action)\<close> each command requires of a token.

  Constructors carry a prefix where two enums of the source share a name: \<open>W\<close> for
  \<open>Wire\<close>, \<open>Pk\<close> for \<open>PortKind\<close>, \<open>Rk\<close> for \<open>ResourceKind\<close>, \<open>Act\<close> for \<open>Action\<close>, \<open>Nk\<close> for
  \<open>NodeKind\<close>, \<open>Rr\<close> for \<open>ResourceRef\<close>.
\<close>

type_synonym node_id = u128

subsection \<open>Wires and connection kinds\<close>

datatype wire =
    WBind node_id node_id
  | WMidi node_id node_id
  | WServe node_id node_id
  | WNet node_id node_id
  | WCapture node_id node_id
  | WApi node_id node_id
  | WClipboard node_id node_id

datatype port_kind = PkBind | PkMidi | PkServe | PkNet | PkCapture | PkClipboard | PkApi

fun port_kind_as_str :: "port_kind \<Rightarrow> string" where
  "port_kind_as_str PkBind = ''bind''"
| "port_kind_as_str PkMidi = ''midi''"
| "port_kind_as_str PkServe = ''serve''"
| "port_kind_as_str PkNet = ''net''"
| "port_kind_as_str PkCapture = ''capture''"
| "port_kind_as_str PkClipboard = ''clipboard''"
| "port_kind_as_str PkApi = ''api''"

definition port_kind_all :: "port_kind list" where
  "port_kind_all = [PkBind, PkMidi, PkServe, PkNet, PkCapture, PkClipboard, PkApi]"

definition port_kind_parse :: "string \<Rightarrow> port_kind option" where
  "port_kind_parse s = find (\<lambda>k. port_kind_as_str k = s) port_kind_all"

definition port_kind_words :: string where
  "port_kind_words = join_with '', '' (map port_kind_as_str port_kind_all)"

datatype port_dir = In | Out

fun opposite :: "port_dir \<Rightarrow> port_dir" where
  "opposite In = Out"
| "opposite Out = In"

subsection \<open>Resources and actions\<close>

datatype resource_kind = RkWorkspace | RkNode | RkWire | RkDocument

fun resource_kind_as_str :: "resource_kind \<Rightarrow> string" where
  "resource_kind_as_str RkWorkspace = ''workspace''"
| "resource_kind_as_str RkNode = ''node''"
| "resource_kind_as_str RkWire = ''wire''"
| "resource_kind_as_str RkDocument = ''document''"

definition resource_kind_all :: "resource_kind list" where
  "resource_kind_all = [RkWorkspace, RkNode, RkWire, RkDocument]"

datatype action = ActCreate | ActRead | ActUpdate | ActDelete | ActArrange | ActRun

fun action_as_str :: "action \<Rightarrow> string" where
  "action_as_str ActCreate = ''create''"
| "action_as_str ActRead = ''read''"
| "action_as_str ActUpdate = ''update''"
| "action_as_str ActDelete = ''delete''"
| "action_as_str ActArrange = ''arrange''"
| "action_as_str ActRun = ''run''"

definition action_all :: "action list" where
  "action_all = [ActCreate, ActRead, ActUpdate, ActDelete, ActArrange, ActRun]"

datatype node_kind =
    NkApp nat
  | NkVolume | NkBindMount | NkPort | NkNetwork | NkGateway | NkRouter | NkIroh | NkVeilid
  | NkNote | NkCapture | NkApi | NkMidiIn | NkClipboard | NkHostService | NkMidiOut | NkMulticast

record boundary_wire_ref =
  bw_group :: node_id
  bw_dir :: port_dir
  bw_port :: string
  bw_node :: node_id

datatype resource =
    ResNode node_kind "f32_bits \<times> f32_bits" node_id
  | ResHostMount string "f32_bits \<times> f32_bits" node_id
  | ResWire node_id node_id
  | ResWorkspace node_id
  | ResBoundary boundary_wire_ref

datatype resource_ref =
    RrNode node_id
  | RrWire wire
  | RrWorkspace node_id
  | RrBoundary boundary_wire_ref

record node_patch =
  np_pos :: "(f32_bits \<times> f32_bits) option"
  np_pos3d :: "(f32_bits \<times> f32_bits \<times> f32_bits \<times> f32_bits) option"
  np_panel3d :: "bool option"
  np_size :: "(f32_bits \<times> f32_bits) option"
  np_args :: "string option"
  np_port_delta :: "32 word option"
  np_port_set :: "u16 option"
  np_text :: "string option"
  np_host_path :: "string option"
  np_midi_device :: "string option"
  np_persist :: "bool option"
  np_service_name :: "string option"
  np_service_target :: "string option"

text \<open>\<open>#[derive(Default)]\<close>: a patch that changes nothing.\<close>

definition node_patch_default :: node_patch where
  "node_patch_default =
     \<lparr>np_pos = None, np_pos3d = None, np_panel3d = None, np_size = None, np_args = None,
      np_port_delta = None, np_port_set = None, np_text = None, np_host_path = None,
      np_midi_device = None, np_persist = None, np_service_name = None,
      np_service_target = None\<rparr>"

datatype view_mode = Flat | World | Toggle

datatype command =
    CmdCreate resource
  | CmdUpdate node_id node_patch
  | CmdDelete resource_ref
  | CmdSetMount node_id node_id string
  | CmdSetMidiChannel node_id node_id u8
  | CmdSetServePort node_id node_id u16
  | CmdSetMulticast node_id "string option" "string list"
  | CmdSetToken node_id bytes
  | CmdRun node_id
  | CmdStop node_id
  | CmdDuplicate node_id
  | CmdUndo
  | CmdSetView view_mode

subsection \<open>The view\<close>

definition ascii_lower :: "char \<Rightarrow> char" where
  "ascii_lower c =
     (if 65 \<le> (of_char c :: nat) \<and> (of_char c :: nat) \<le> 90 then char_of ((of_char c :: nat) + 32) else c)"

definition view_mode_parse :: "string \<Rightarrow> view_mode option" where
  "view_mode_parse s =
     (let w = map ascii_lower s in
      if w = ''2d'' \<or> w = ''flat'' \<or> w = ''canvas'' then Some Flat
      else if w = ''3d'' \<or> w = ''world'' then Some World
      else if w = ''toggle'' then Some Toggle
      else None)"

fun wants_3d :: "view_mode \<Rightarrow> bool \<Rightarrow> bool" where
  "wants_3d Flat is_3d = False"
| "wants_3d World is_3d = True"
| "wants_3d Toggle is_3d = (\<not> is_3d)"

subsection \<open>What a command requires\<close>

fun required :: "command \<Rightarrow> resource_kind \<times> action" where
  "required (CmdCreate r) =
     (case r of
        ResNode _ _ _ \<Rightarrow> (RkNode, ActCreate)
      | ResHostMount _ _ _ \<Rightarrow> (RkNode, ActCreate)
      | ResWire _ _ \<Rightarrow> (RkWire, ActCreate)
      | ResBoundary _ \<Rightarrow> (RkWire, ActCreate)
      | ResWorkspace _ \<Rightarrow> (RkWorkspace, ActCreate))"
| "required (CmdUpdate _ patch) =
     (if np_args patch \<noteq> None \<or> np_port_delta patch \<noteq> None \<or> np_port_set patch \<noteq> None
         \<or> np_host_path patch \<noteq> None \<or> np_persist patch \<noteq> None
      then (RkNode, ActUpdate) else (RkNode, ActArrange))"
| "required (CmdDelete r) =
     (case r of
        RrNode _ \<Rightarrow> (RkNode, ActDelete)
      | RrWire _ \<Rightarrow> (RkWire, ActDelete)
      | RrBoundary _ \<Rightarrow> (RkWire, ActDelete)
      | RrWorkspace _ \<Rightarrow> (RkWorkspace, ActDelete))"
| "required (CmdSetMount _ _ _) = (RkWire, ActUpdate)"
| "required (CmdSetServePort _ _ _) = (RkWire, ActUpdate)"
| "required (CmdSetMidiChannel _ _ _) = (RkWire, ActUpdate)"
| "required (CmdSetToken _ _) = (RkNode, ActUpdate)"
| "required (CmdSetMulticast _ _ _) = (RkNode, ActUpdate)"
| "required (CmdRun _) = (RkNode, ActRun)"
| "required (CmdStop _) = (RkNode, ActRun)"
| "required (CmdDuplicate _) = (RkNode, ActCreate)"
| "required CmdUndo = (RkDocument, ActUpdate)"
| "required (CmdSetView _) = (RkDocument, ActArrange)"

subsection \<open>A vocabulary of words\<close>

text \<open>
  The connection kinds, resources and actions are all written as words (in a \<open>.wk\<close> file
  or in a token's Datalog facts) and read back by searching the list of all of them. The
  contract of such a vocabulary, and what its users rely on.
\<close>

locale vocabulary =
  fixes all :: "'k list"
    and as_word :: "'k \<Rightarrow> string"
  assumes complete: "k \<in> set all"
    and distinct_words: "distinct (map as_word all)"
begin

lemma inj_words: "inj as_word"
  using complete distinct_words by (auto simp: distinct_map inj_def inj_on_def)

lemma read_back: "find (\<lambda>k. as_word k = s) all = Some k \<longleftrightarrow> s = as_word k"
proof
  assume "find (\<lambda>k. as_word k = s) all = Some k"
  then show "s = as_word k" by (auto simp: find_Some_iff)
next
  assume s: "s = as_word k"
  have "find (\<lambda>k. as_word k = s) all \<noteq> None"
    using complete [of k] s by (auto simp: find_None_iff)
  then obtain k' where k': "find (\<lambda>k. as_word k = s) all = Some k'" by blast
  then have "as_word k' = as_word k" using s by (auto simp: find_Some_iff)
  with inj_words k' show "find (\<lambda>k. as_word k = s) all = Some k" by (auto dest: injD)
qed

end

interpretation port_words: vocabulary port_kind_all port_kind_as_str
proof
  show "k \<in> set port_kind_all" for k by (cases k) (simp_all add: port_kind_all_def)
  show "distinct (map port_kind_as_str port_kind_all)" by (simp add: port_kind_all_def)
qed

interpretation resource_words: vocabulary resource_kind_all resource_kind_as_str
proof
  show "k \<in> set resource_kind_all" for k by (cases k) (simp_all add: resource_kind_all_def)
  show "distinct (map resource_kind_as_str resource_kind_all)" by (simp add: resource_kind_all_def)
qed

interpretation action_words: vocabulary action_all action_as_str
proof
  show "k \<in> set action_all" for k by (cases k) (simp_all add: action_all_def)
  show "distinct (map action_as_str action_all)" by (simp add: action_all_def)
qed

lemma opposite_opposite [simp]: "opposite (opposite d) = d"
  by (cases d) simp_all

lemma opposite_neq [simp]: "opposite d \<noteq> d" "d \<noteq> opposite d"
  by (cases d; simp)+

subsection \<open>Properties\<close>

text \<open>
  A \<open>.wk\<close> file's word for a connection kind reads back as exactly that kind, and no
  other word reads as any kind.
\<close>

theorem port_kind_parse_iff: "port_kind_parse s = Some k \<longleftrightarrow> s = port_kind_as_str k"
  unfolding port_kind_parse_def by (rule port_words.read_back)

text \<open>
  The \<open>right(resource, action)\<close> fact a command requires, as the two words written into a
  token, identifies the pair: a token that grants one pair never grants another by spelling.
\<close>

theorem required_words_injective:
  "(resource_kind_as_str (fst (required c)), action_as_str (snd (required c))) =
     (resource_kind_as_str r, action_as_str a)
   \<longleftrightarrow> required c = (r, a)"
  using resource_words.inj_words action_words.inj_words
  by (cases "required c") (auto dest: injD)

text \<open>
  Which commands a token granting only layout rights (\<open>arrange\<close>) can issue: exactly a
  change of view, and an update whose patch sets none of the launch arguments, the port, the
  host path and the persistence. Everything else needs a stronger right.
\<close>

theorem required_arrange_iff:
  "snd (required c) = ActArrange \<longleftrightarrow>
     (\<exists>v. c = CmdSetView v) \<or>
     (\<exists>i p. c = CmdUpdate i p \<and> np_args p = None \<and> np_port_delta p = None \<and>
        np_port_set p = None \<and> np_host_path p = None \<and> np_persist p = None)"
  by (cases c) (auto split: resource.splits resource_ref.splits)

text \<open>
  The patch fields documented as requiring \<open>Update\<close> include the note text, the MIDI device
  and the name and target of a host service; a patch that sets only those is classified as
  layout. Retargeting a \<open>HostService\<close> at another host address needs only \<open>arrange\<close>.
\<close>

theorem retarget_service_needs_only_arrange:
  "required (CmdUpdate i (node_patch_default\<lparr>np_service_target := Some addr\<rparr>)) =
     (RkNode, ActArrange)"
  by (simp add: node_patch_default_def)

lemma wants_3d_idempotent: "v \<noteq> Toggle \<Longrightarrow> wants_3d v (wants_3d v b) = wants_3d v b"
  by (cases v) simp_all

end
