(* ===== verification/Wiring.thy ===== *)
theory Wiring
  imports Protocol "HOL-Library.Multiset"
begin

text \<open>
  The wiring decisions of the server (\<open>crates/wk-server/src/wiring.rs\<close>): which wire two
  nodes form, how toggling a link updates a link list, and what must start and stop for the
  running servers and the applied links to match the wiring that is desired.

  A \<open>HashMap\<close> or \<open>HashSet\<close> is the list of its entries in iteration order, without
  duplicate keys; the statements do not depend on that order.
\<close>

subsection \<open>Node classes and wires\<close>

datatype node_class =
    NcFile | NcPort | NcNet | NcUplink | NcHostSvc | NcCapture | NcClipboard | NcApi
  | NcMidiSource | NcMidiSink
  | NcBoundary port_dir port_kind
  | NcRouter | NcInstance | NcOther

definition boundary_wire ::
  "node_id \<Rightarrow> port_dir \<Rightarrow> port_kind \<Rightarrow> node_id \<Rightarrow> node_class \<Rightarrow> wire option" where
  "boundary_wire port dir kind other oc =
     (let fits = (\<lambda>want. oc = want \<or> oc = NcBoundary (opposite dir) kind);
          then_some = (\<lambda>b w. if b then Some w else None) in
      case (dir, kind) of
        (In, PkBind) \<Rightarrow> then_some (fits NcOther) (WBind port other)
      | (In, PkMidi) \<Rightarrow> then_some (fits NcOther \<or> oc = NcMidiSink) (WMidi port other)
      | (In, PkCapture) \<Rightarrow> then_some (fits NcOther) (WCapture other port)
      | (In, PkClipboard) \<Rightarrow> then_some (fits NcOther) (WClipboard other port)
      | (In, PkApi) \<Rightarrow> then_some (fits NcOther) (WApi other port)
      | (Out, PkBind) \<Rightarrow> then_some (fits NcFile \<or> oc = NcOther) (WBind other port)
      | (Out, PkMidi) \<Rightarrow> then_some (fits NcOther \<or> oc = NcMidiSource) (WMidi other port)
      | (Out, PkCapture) \<Rightarrow> then_some (fits NcCapture) (WCapture port other)
      | (Out, PkClipboard) \<Rightarrow> then_some (fits NcClipboard) (WClipboard port other)
      | (Out, PkApi) \<Rightarrow> then_some (fits NcApi) (WApi port other)
      | (_, PkNet) \<Rightarrow> None
      | (_, PkServe) \<Rightarrow> None)"

definition classify_plain :: "node_id \<Rightarrow> node_id \<Rightarrow> node_class \<Rightarrow> node_class \<Rightarrow> wire option" where
  "classify_plain a b ca cb =
     (case (ca, cb) of
        (NcFile, NcOther) \<Rightarrow> Some (WBind a b)
      | (NcOther, NcFile) \<Rightarrow> Some (WBind b a)
      | (NcPort, NcOther) \<Rightarrow> Some (WServe b a)
      | (NcOther, NcPort) \<Rightarrow> Some (WServe a b)
      | (NcNet, NcOther) \<Rightarrow> Some (WNet b a)
      | (NcNet, NcUplink) \<Rightarrow> Some (WNet b a)
      | (NcNet, NcHostSvc) \<Rightarrow> Some (WNet b a)
      | (NcNet, NcRouter) \<Rightarrow> Some (WNet b a)
      | (NcOther, NcNet) \<Rightarrow> Some (WNet a b)
      | (NcUplink, NcNet) \<Rightarrow> Some (WNet a b)
      | (NcHostSvc, NcNet) \<Rightarrow> Some (WNet a b)
      | (NcRouter, NcNet) \<Rightarrow> Some (WNet a b)
      | (NcCapture, NcOther) \<Rightarrow> Some (WCapture b a)
      | (NcOther, NcCapture) \<Rightarrow> Some (WCapture a b)
      | (NcClipboard, NcOther) \<Rightarrow> Some (WClipboard b a)
      | (NcOther, NcClipboard) \<Rightarrow> Some (WClipboard a b)
      | (NcApi, NcOther) \<Rightarrow> Some (WApi b a)
      | (NcOther, NcApi) \<Rightarrow> Some (WApi a b)
      | (NcMidiSource, NcOther) \<Rightarrow> Some (WMidi a b)
      | (NcOther, NcMidiSource) \<Rightarrow> Some (WMidi b a)
      | (NcMidiSink, NcOther) \<Rightarrow> Some (WMidi b a)
      | (NcOther, NcMidiSink) \<Rightarrow> Some (WMidi a b)
      | (NcMidiSource, NcMidiSink) \<Rightarrow> Some (WMidi a b)
      | (NcMidiSink, NcMidiSource) \<Rightarrow> Some (WMidi b a)
      | (NcOther, NcOther) \<Rightarrow> Some (WMidi a b)
      | _ \<Rightarrow> None)"

definition classify :: "node_id \<Rightarrow> node_id \<Rightarrow> node_class \<Rightarrow> node_class \<Rightarrow> wire option" where
  "classify a b ca cb =
     (case ca of
        NcBoundary dir kind \<Rightarrow> boundary_wire a dir kind b cb
      | _ \<Rightarrow>
         (case cb of
            NcBoundary dir kind \<Rightarrow> boundary_wire b dir kind a ca
          | _ \<Rightarrow> classify_plain a b ca cb))"

subsection \<open>Toggling a link\<close>

type_synonym link = "node_id \<times> node_id"

text \<open>\<open>position\<close> followed by \<open>Vec::remove\<close> drops the first equal link.\<close>

definition toggle_pair :: "link list \<Rightarrow> node_id \<Rightarrow> node_id \<Rightarrow> link list \<times> bool" where
  "toggle_pair links a b =
     (if (a, b) \<in> set links then (remove1 (a, b) links, False) else (links @ [(a, b)], True))"

definition toggle_unique :: "link list \<Rightarrow> node_id \<Rightarrow> node_id \<Rightarrow> link list \<times> bool" where
  "toggle_unique links src dst =
     (if (src, dst) \<in> set links then (remove1 (src, dst) links, False)
      else (filter (\<lambda>(s, _). s \<noteq> src) links @ [(src, dst)], True))"

subsection \<open>Reconciling\<close>

record serve_plan =
  sp_stop :: "node_id list"
  sp_start :: "link list"

definition reconcile_serves :: "link list \<Rightarrow> (node_id \<times> node_id) list \<Rightarrow> serve_plan" where
  "reconcile_serves serve_links active =
     (let desired = (\<lambda>http. map_option snd (find (\<lambda>(h, _). h = http) serve_links));
          stop = map fst (filter (\<lambda>(http, hp). desired http \<noteq> Some hp) active);
          start = filter (\<lambda>(h, _). h \<notin> fst ` set active \<or> h \<in> set stop) serve_links
      in \<lparr>sp_stop = stop, sp_start = start\<rparr>)"

record link_plan =
  lp_add :: "link list"
  lp_remove :: "link list"

definition reconcile_links :: "link list \<Rightarrow> link list \<Rightarrow> link_plan" where
  "reconcile_links desired active =
     (let want = remdups desired
      in \<lparr>lp_add = filter (\<lambda>p. p \<notin> set active) want,
          lp_remove = filter (\<lambda>p. p \<notin> set want) active\<rparr>)"

subsection \<open>Facts about classification\<close>

fun wire_kind :: "wire \<Rightarrow> port_kind" where
  "wire_kind (WBind _ _) = PkBind"
| "wire_kind (WMidi _ _) = PkMidi"
| "wire_kind (WServe _ _) = PkServe"
| "wire_kind (WNet _ _) = PkNet"
| "wire_kind (WCapture _ _) = PkCapture"
| "wire_kind (WApi _ _) = PkApi"
| "wire_kind (WClipboard _ _) = PkClipboard"

fun wire_ends :: "wire \<Rightarrow> node_id \<times> node_id" where
  "wire_ends (WBind a b) = (a, b)"
| "wire_ends (WMidi a b) = (a, b)"
| "wire_ends (WServe a b) = (a, b)"
| "wire_ends (WNet a b) = (a, b)"
| "wire_ends (WCapture a b) = (a, b)"
| "wire_ends (WApi a b) = (a, b)"
| "wire_ends (WClipboard a b) = (a, b)"

definition is_boundary :: "node_class \<Rightarrow> bool" where
  "is_boundary c = (case c of NcBoundary _ _ \<Rightarrow> True | _ \<Rightarrow> False)"

lemma is_boundary_simps [simp]: "is_boundary (NcBoundary d k)"
  by (simp add: is_boundary_def)

lemma is_boundaryE: "is_boundary c \<Longrightarrow> (\<And>d k. c = NcBoundary d k \<Longrightarrow> P) \<Longrightarrow> P"
  by (cases c) (simp_all add: is_boundary_def)

lemma classify_not_boundary:
  "\<not> is_boundary ca \<Longrightarrow> \<not> is_boundary cb \<Longrightarrow> classify a b ca cb = classify_plain a b ca cb"
  by (cases ca; cases cb) (simp_all add: classify_def is_boundary_def)

lemma boundary_wire_kind: "boundary_wire p d k q oc = Some w \<Longrightarrow> wire_kind w = k"
  by (cases d; cases k) (auto simp: boundary_wire_def Let_def split: if_splits)

lemma boundary_wire_ends:
  "boundary_wire p d k q oc = Some w \<Longrightarrow> wire_ends w = (p, q) \<or> wire_ends w = (q, p)"
  by (cases d; cases k) (auto simp: boundary_wire_def Let_def split: if_splits)

lemma classify_plain_ends:
  "classify_plain a b ca cb = Some w \<Longrightarrow> wire_ends w = (a, b) \<or> wire_ends w = (b, a)"
  by (cases ca; cases cb) (auto simp: classify_plain_def)

text \<open>
  The pairs of inferred classes that form a wire, by the kind of wire: an app with any
  provider of a resource, a network with its members, and the two hardware MIDI ends.
\<close>

definition plain_pair :: "node_class \<Rightarrow> node_class \<Rightarrow> bool" where
  "plain_pair ca cb \<longleftrightarrow>
     (ca = NcOther \<and> cb \<in> {NcFile, NcPort, NcNet, NcCapture, NcClipboard, NcApi, NcMidiSource,
        NcMidiSink, NcOther}) \<or>
     (ca = NcNet \<and> cb \<in> {NcUplink, NcHostSvc, NcRouter}) \<or>
     (ca = NcMidiSource \<and> cb = NcMidiSink)"

lemma classify_plain_iff:
  "classify_plain a b ca cb \<noteq> None \<longleftrightarrow> plain_pair ca cb \<or> plain_pair cb ca"
  by (cases ca; cases cb) (simp_all add: plain_pair_def classify_plain_def)

text \<open>
  Two boundary ports form the wire of whichever is written first; both orders agree, since
  the ports are of one kind on opposite edges.
\<close>

lemma boundary_wire_mismatch:
  "(d', k') \<noteq> (opposite d, k) \<Longrightarrow> boundary_wire a d k b (NcBoundary d' k') = None"
  by (cases d; cases k) (auto simp: boundary_wire_def Let_def)

lemma boundary_wire_match:
  "boundary_wire a d k b (NcBoundary (opposite d) k) = boundary_wire b (opposite d) k a (NcBoundary d k)"
  by (cases d; cases k) (simp_all add: boundary_wire_def Let_def)

lemma boundary_wire_swap:
  "boundary_wire a d k b (NcBoundary d' k') = boundary_wire b d' k' a (NcBoundary d k)"
proof (cases "(d', k') = (opposite d, k)")
  case True
  then show ?thesis by (auto intro: boundary_wire_match)
next
  case False
  then have "(d, k) \<noteq> (opposite d', k')" by (cases d; cases d') auto
  with boundary_wire_mismatch [OF False] boundary_wire_mismatch [OF this] show ?thesis by simp
qed

lemma classify_plain_swap:
  "(ca, cb) \<noteq> (NcOther, NcOther) \<Longrightarrow> classify_plain a b ca cb = classify_plain b a cb ca"
  by (cases ca; cases cb) (simp_all add: classify_plain_def)

subsection \<open>Properties of classification\<close>

text \<open>
  A classified wire joins exactly the two nodes it was asked about, in one of the two
  orders: no endpoint is invented or dropped.
\<close>

theorem classify_preserves_endpoints:
  assumes "classify a b ca cb = Some w"
  shows "wire_ends w = (a, b) \<or> wire_ends w = (b, a)"
proof (cases "is_boundary ca")
  case True
  then obtain d k where "ca = NcBoundary d k" by (rule is_boundaryE)
  with assms show ?thesis by (auto simp: classify_def dest: boundary_wire_ends)
next
  case plain: False
  show ?thesis
  proof (cases "is_boundary cb")
    case True
    then obtain d k where cb: "cb = NcBoundary d k" by (rule is_boundaryE)
    with plain assms have "boundary_wire b d k a ca = Some w"
      by (cases ca) (auto simp: classify_def)
    then show ?thesis by (auto dest: boundary_wire_ends)
  next
    case False
    with plain assms show ?thesis by (auto simp: classify_not_boundary dest: classify_plain_ends)
  qed
qed

theorem classify_preserves_endpoints_witness:
  "classify 1 2 NcFile NcOther = Some (WBind 1 2) \<and>
   (wire_ends (WBind 1 2) = (1, 2) \<or> wire_ends (WBind 1 2) = (2, 1))"
  using classify_preserves_endpoints [of 1 2 NcFile NcOther "WBind 1 2"]
  by (simp add: classify_def classify_plain_def)

text \<open>
  A boundary port only ever forms a wire of the kind it declares, whichever of the two
  nodes it is: a partner of the wrong class is refused, never reclassified.
\<close>

theorem boundary_port_forms_its_kind:
  assumes "classify a b (NcBoundary d k) c = Some w \<or> classify a b c (NcBoundary d k) = Some w"
  shows "wire_kind w = k"
proof (cases "is_boundary c")
  case True
  then obtain d' k' where c: "c = NcBoundary d' k'" by (rule is_boundaryE)
  with assms show ?thesis
    by (auto simp: classify_def boundary_wire_swap [of a d' k'] dest: boundary_wire_kind)
next
  case False
  then have "classify a b c (NcBoundary d k) = boundary_wire b d k a c"
    by (cases c) (simp_all add: classify_def)
  with assms show ?thesis by (auto simp: classify_def dest: boundary_wire_kind)
qed

theorem boundary_port_forms_its_kind_witness:
  "classify 1 2 (NcBoundary In PkMidi) NcMidiSink = Some (WMidi 1 2) \<and> wire_kind (WMidi 1 2) = PkMidi"
  using boundary_port_forms_its_kind [of 1 2 In PkMidi NcMidiSink "WMidi 1 2"]
  by (simp add: classify_def boundary_wire_def)

text \<open>
  Which pairs of inferred (non-boundary) classes can be wired at all, in either order of
  the two ends: an app with a file, port, network, capture, clipboard, API or MIDI end or
  another app; a network with an uplink, a host service or a router; a hardware MIDI input
  with a hardware MIDI output. A \<open>group\<close> instance forms no wire with anything.
\<close>

theorem classify_wirable_iff:
  assumes "\<not> is_boundary ca" and "\<not> is_boundary cb"
  shows "classify a b ca cb \<noteq> None \<longleftrightarrow> plain_pair ca cb \<or> plain_pair cb ca"
  by (simp only: classify_not_boundary [OF assms] classify_plain_iff)

theorem classify_wirable_iff_witness:
  "classify 1 2 NcRouter NcNet \<noteq> None \<longleftrightarrow> plain_pair NcRouter NcNet \<or> plain_pair NcNet NcRouter"
  by (rule classify_wirable_iff) (simp_all add: is_boundary_def)

text \<open>
  The order in which the two nodes are picked on the canvas does not matter: unless both
  are apps (where it decides which one is the MIDI source), both orders give the same wire.
\<close>

theorem classify_symmetric:
  assumes "(ca, cb) \<noteq> (NcOther, NcOther)"
  shows "classify a b ca cb = classify b a cb ca"
proof (cases "is_boundary ca \<and> is_boundary cb")
  case True
  then show ?thesis
    by (auto simp: classify_def elim!: is_boundaryE intro: boundary_wire_swap)
next
  case False
  with classify_plain_swap [OF assms] show ?thesis
    by (cases ca; cases cb) (simp_all add: classify_def)
qed

theorem classify_symmetric_witness: "classify 1 2 NcFile NcOther = classify 2 1 NcOther NcFile"
  by (rule classify_symmetric) simp

subsection \<open>Link lists\<close>

text \<open>
  The two toggles share a contract: a link list that satisfies an invariant, a lookup that
  reports whether the pair is linked, and an operation that flips it and reports the result.
\<close>

locale link_toggle =
  fixes toggle :: "link list \<Rightarrow> node_id \<Rightarrow> node_id \<Rightarrow> link list \<times> bool"
    and wf :: "link list \<Rightarrow> bool"
  assumes wf_toggle: "wf ls \<Longrightarrow> wf (fst (toggle ls a b))"
    and flips: "wf ls \<Longrightarrow> (a, b) \<in> set (fst (toggle ls a b)) \<longleftrightarrow> (a, b) \<notin> set ls"
    and reports: "wf ls \<Longrightarrow> snd (toggle ls a b) \<longleftrightarrow> (a, b) \<in> set (fst (toggle ls a b))"
    and others: "wf ls \<Longrightarrow> x \<noteq> a \<Longrightarrow> (x, y) \<in> set (fst (toggle ls a b)) \<longleftrightarrow> (x, y) \<in> set ls"
begin

definition run :: "link list \<Rightarrow> link list \<Rightarrow> link list" where
  "run ls ps = fold (\<lambda>(a, b) l. fst (toggle l a b)) ps ls"

lemma run_wf: "wf ls \<Longrightarrow> wf (run ls ps)"
  unfolding run_def by (induction ps arbitrary: ls) (auto simp: wf_toggle)

lemma toggle_twice: "wf ls \<Longrightarrow>
    (a, b) \<in> set (fst (toggle (fst (toggle ls a b)) a b)) \<longleftrightarrow> (a, b) \<in> set ls"
  by (simp add: flips wf_toggle)

lemma run_untouched:
  "wf ls \<Longrightarrow> x \<notin> fst ` set ps \<Longrightarrow> (x, y) \<in> set (run ls ps) \<longleftrightarrow> (x, y) \<in> set ls"
proof (induction ps arbitrary: ls)
  case Nil
  then show ?case by (simp add: run_def)
next
  case (Cons p ps)
  obtain a b where p: "p = (a, b)" by (cases p)
  have "run ls (p # ps) = run (fst (toggle ls a b)) ps" by (simp add: run_def p)
  with Cons p show ?case by (auto simp: wf_toggle others)
qed

end

definition one_dest :: "link list \<Rightarrow> bool" where
  "one_dest ls \<longleftrightarrow> distinct (map fst ls)"

lemma one_dest_unique: "one_dest ls \<Longrightarrow> (s, d) \<in> set ls \<Longrightarrow> (s, e) \<in> set ls \<Longrightarrow> d = e"
  by (auto simp: one_dest_def intro: eq_key_imp_eq_value)

lemma one_dest_filter [simp]: "one_dest ls \<Longrightarrow> one_dest (filter P ls)"
  by (simp add: one_dest_def distinct_map_filter)

lemma one_dest_remove1 [simp]: "one_dest ls \<Longrightarrow> one_dest (remove1 p ls)"
  by (induction ls) (auto simp: one_dest_def dest: set_remove1_subset [THEN subsetD])

lemma one_dest_distinct: "one_dest ls \<Longrightarrow> distinct ls"
  by (auto simp: one_dest_def distinct_map)

interpretation pair_links: link_toggle toggle_pair distinct
  by unfold_locales (auto simp: toggle_pair_def)

interpretation unique_links: link_toggle toggle_unique one_dest
proof
  fix ls a b x y
  assume ls: "one_dest ls"
  have filt: "a \<notin> fst ` set (filter (\<lambda>(s, _). s \<noteq> a) ls)" by auto
  have "one_dest (filter (\<lambda>(s, _). s \<noteq> a) ls @ [(a, b)])"
    using one_dest_filter [OF ls, of "\<lambda>(s, _). s \<noteq> a"] filt by (auto simp: one_dest_def)
  then show "one_dest (fst (toggle_unique ls a b))"
    using one_dest_remove1 [OF ls] by (simp add: toggle_unique_def)
  show "(a, b) \<in> set (fst (toggle_unique ls a b)) \<longleftrightarrow> (a, b) \<notin> set ls"
    using one_dest_distinct [OF ls] by (auto simp: toggle_unique_def)
  show "snd (toggle_unique ls a b) \<longleftrightarrow> (a, b) \<in> set (fst (toggle_unique ls a b))"
    using one_dest_distinct [OF ls] by (auto simp: toggle_unique_def)
  show "(x, y) \<in> set (fst (toggle_unique ls a b)) \<longleftrightarrow> (x, y) \<in> set ls" if "x \<noteq> a"
    using that one_dest_distinct [OF ls] by (auto simp: toggle_unique_def)
qed

text \<open>
  Toggling a pair twice restores the link list as a multiset (the order may change), on
  a list without duplicate links, and one toggle reports whether the pair is linked afterwards.
\<close>

theorem toggle_pair_involution:
  assumes "distinct ls"
  shows "mset (fst (toggle_pair (fst (toggle_pair ls a b)) a b)) = mset ls \<and>
    (snd (toggle_pair ls a b) \<longleftrightarrow> (a, b) \<in> set (fst (toggle_pair ls a b)))"
  using assms by (auto simp: toggle_pair_def remove1_append)

theorem toggle_pair_involution_witness:
  "mset (fst (toggle_pair (fst (toggle_pair [(1, 2), (3, 4)] 1 2)) 1 2)) = mset [(1, 2), (3, 4)]"
proof -
  have "distinct [(1 :: node_id, 2 :: node_id), (3, 4)]" by simp
  from toggle_pair_involution [OF this] show ?thesis by blast
qed

text \<open>
  From a link list with one destination per source (as serve and network links have),
  any sequence of toggles keeps one destination per source, and a source that no toggle
  names keeps its links.
\<close>

theorem toggle_unique_one_dest:
  assumes "one_dest ls"
  shows "one_dest (fold (\<lambda>(a, b) l. fst (toggle_unique l a b)) ps ls) \<and>
    (\<forall>x y. x \<notin> fst ` set ps \<longrightarrow>
      (x, y) \<in> set (fold (\<lambda>(a, b) l. fst (toggle_unique l a b)) ps ls) \<longleftrightarrow> (x, y) \<in> set ls)"
  using unique_links.run_wf [OF assms] unique_links.run_untouched [OF assms]
  unfolding unique_links.run_def by blast

theorem toggle_unique_one_dest_witness:
  "one_dest (fold (\<lambda>(a, b) l. fst (toggle_unique l a b)) [(1, 3), (2, 4)] [(1, 2)])"
proof -
  have "one_dest [(1, 2)]" by (simp add: one_dest_def)
  from toggle_unique_one_dest [OF this] show ?thesis by blast
qed

subsection \<open>Reconciliation converges\<close>

text \<open>What the caller does with a plan: stop, then start, each on the running map.\<close>

definition apply_serve_plan :: "serve_plan \<Rightarrow> (node_id \<rightharpoonup> node_id) \<Rightarrow> (node_id \<rightharpoonup> node_id)" where
  "apply_serve_plan plan active =
     fold (\<lambda>(h, hp) m. m(h \<mapsto> hp)) (sp_start plan) (fold (\<lambda>h m. m(h := None)) (sp_stop plan) active)"

lemma fold_stop: "fold (\<lambda>h m. m(h := None)) hs m x = (if x \<in> set hs then None else m x)"
  by (induction hs arbitrary: m) auto

lemma fold_start_other:
  "x \<notin> fst ` set ls \<Longrightarrow> fold (\<lambda>(h, hp) m. m(h \<mapsto> hp)) ls m x = m x"
  by (induction ls arbitrary: m) auto

lemma fold_start:
  "distinct (map fst ls) \<Longrightarrow>
     fold (\<lambda>(h, hp) m. m(h \<mapsto> hp)) ls m x =
       (case map_of ls x of None \<Rightarrow> m x | Some y \<Rightarrow> Some y)"
proof (induction ls arbitrary: m)
  case Nil
  then show ?case by simp
next
  case (Cons p ls)
  obtain h hp where p: "p = (h, hp)" by (cases p)
  show ?case
  proof (cases "x = h")
    case True
    with Cons.prems p have "map_of ls x = None" by (simp add: map_of_eq_None_iff)
    with Cons True p show ?thesis by simp
  next
    case False
    with Cons p show ?thesis by simp
  qed
qed

lemma find_map_of: "map_option snd (find (\<lambda>(h, _). h = k) ls) = map_of ls k"
  by (induction ls) auto

lemma map_of_filter_key:
  "map_of (filter (\<lambda>(h, _). P h) ls) k = (if P k then map_of ls k else None)"
  by (induction ls) auto

lemma stop_set:
  "distinct (map fst active) \<Longrightarrow>
   h \<in> set (sp_stop (reconcile_serves ls active)) \<longleftrightarrow>
     (\<exists>hp. map_of active h = Some hp \<and> map_of ls h \<noteq> Some hp)"
  by (auto simp: reconcile_serves_def Let_def find_map_of image_iff)

lemma start_eq:
  "sp_start (reconcile_serves ls active) =
     filter (\<lambda>(h, _). map_of active h = None \<or> h \<in> set (sp_stop (reconcile_serves ls active))) ls"
  by (simp add: reconcile_serves_def Let_def map_of_eq_None_iff case_prod_beta)



text \<open>
  Applying a link plan (drop the removals, add the additions) makes the applied set
  exactly the desired one; a plan only adds desired links that are not applied and only
  removes applied links that are not desired, so at a fixpoint it is empty.
\<close>

theorem reconcile_links_converges:
  "(set active - set (lp_remove (reconcile_links desired active))) \<union>
     set (lp_add (reconcile_links desired active)) = set desired \<and>
   set (lp_add (reconcile_links desired active)) = set desired - set active \<and>
   set (lp_remove (reconcile_links desired active)) = set active - set desired"
  by (auto simp: reconcile_links_def Let_def)

end
