(* ===== verification/Node_Id.thy ===== *)
theory Node_Id
  imports Protocol
begin

unbundle bit_operations_syntax

text \<open>
  Node identifiers and their text form (\<open>crates/wk-protocol/src/node_id.rs\<close>): a 128-bit
  value written as 26 Crockford base32 digits, most significant first. A Rust \<open>char\<close> is its
  Unicode code point (\<open>rchar\<close>), since parsing reads characters and not bytes.
\<close>

type_synonym rchar = nat

definition crockford :: string where
  "crockford = ''0123456789ABCDEFGHJKMNPQRSTVWXYZ''"

definition node_id_nil :: node_id where
  "node_id_nil = 0"

text \<open>The loop of \<open>Display::fmt\<close>: the slots are filled from the last to the first.\<close>

fun fmt_loop :: "nat \<Rightarrow> u128 \<Rightarrow> string \<Rightarrow> string" where
  "fmt_loop 0 n buf = buf"
| "fmt_loop (Suc slots) n buf =
     fmt_loop slots (drop_bit 5 n) ((crockford ! unat (n AND 0x1f)) # buf)"

definition node_id_display :: "node_id \<Rightarrow> string" where
  "node_id_display n = fmt_loop 26 n []"

text \<open>\<open>char::is_whitespace\<close> (the Unicode \<open>White_Space\<close> property) and \<open>str::trim\<close>.\<close>

definition is_whitespace :: "rchar \<Rightarrow> bool" where
  "is_whitespace c \<longleftrightarrow>
     (9 \<le> c \<and> c \<le> 13) \<or> c = 32 \<or> c = 0x85 \<or> c = 0xA0 \<or> c = 0x1680 \<or>
     (0x2000 \<le> c \<and> c \<le> 0x200A) \<or> c = 0x2028 \<or> c = 0x2029 \<or> c = 0x202F \<or> c = 0x205F \<or>
     c = 0x3000"

definition trim_text :: "rchar list \<Rightarrow> rchar list" where
  "trim_text s = rev (dropWhile is_whitespace (rev (dropWhile is_whitespace s)))"

definition to_ascii_uppercase :: "rchar \<Rightarrow> rchar" where
  "to_ascii_uppercase c = (if 97 \<le> c \<and> c \<le> 122 then c - 32 else c)"

fun position :: "('a \<Rightarrow> bool) \<Rightarrow> 'a list \<Rightarrow> nat option" where
  "position P [] = None"
| "position P (x # xs) = (if P x then Some 0 else map_option Suc (position P xs))"

text \<open>\<open>c as u8\<close> keeps the low eight bits of the code point.\<close>

definition crockford_value :: "rchar \<Rightarrow> nat option" where
  "crockford_value c =
     (let b = to_ascii_uppercase c mod 256;
          up = (if b = of_char CHR ''O'' then of_char CHR ''0''
                else if b = of_char CHR ''I'' \<or> b = of_char CHR ''L'' then of_char CHR ''1''
                else b)
      in position (\<lambda>d. of_char d = up) crockford)"

datatype id_error = BadLength "rchar list" | BadChar rchar | OutOfRange

definition checked_mul_u128 :: "u128 \<Rightarrow> u128 \<Rightarrow> u128 option" where
  "checked_mul_u128 a b = (if unat a * unat b < 2 ^ 128 then Some (a * b) else None)"

definition checked_add_u128 :: "u128 \<Rightarrow> u128 \<Rightarrow> u128 option" where
  "checked_add_u128 a b = (if unat a + unat b < 2 ^ 128 then Some (a + b) else None)"

definition digit_step :: "u128 \<Rightarrow> rchar \<Rightarrow> id_error + u128" where
  "digit_step n c =
     (case crockford_value c of
        None \<Rightarrow> Inl (BadChar c)
      | Some v \<Rightarrow>
         (case Option.bind (checked_mul_u128 n 32) (\<lambda>m. checked_add_u128 m (of_nat v)) of
            None \<Rightarrow> Inl OutOfRange
          | Some m \<Rightarrow> Inr m))"

fun from_str_loop :: "u128 \<Rightarrow> rchar list \<Rightarrow> id_error + u128" where
  "from_str_loop n [] = Inr n"
| "from_str_loop n (c # cs) =
     (case digit_step n c of Inl e \<Rightarrow> Inl e | Inr m \<Rightarrow> from_str_loop m cs)"

definition node_id_from_str :: "rchar list \<Rightarrow> id_error + node_id" where
  "node_id_from_str text =
     (let s = trim_text text in
      if length s \<noteq> 26 then Inl (BadLength s) else from_str_loop 0 s)"

subsection \<open>Digits\<close>

lemma crockford_length [simp]: "length crockford = 32"
  by (simp add: crockford_def)

definition b32 :: "nat \<Rightarrow> char" where
  "b32 v = crockford ! v"

lemma crockford_values: "map (\<lambda>c. crockford_value (of_char c)) crockford = map Some [0..<32]"
  by (simp add: crockford_def crockford_value_def to_ascii_uppercase_def upt_rec)

lemma b32_value: "v < 32 \<Longrightarrow> crockford_value (of_char (b32 v)) = Some v"
  using arg_cong [OF crockford_values, of "\<lambda>xs. xs ! v"] by (simp add: b32_def)

lemma crockford_no_space: "list_all (\<lambda>c. \<not> is_whitespace (of_char c)) crockford"
  by (simp add: crockford_def is_whitespace_def)

lemma b32_no_space: "v < 32 \<Longrightarrow> \<not> is_whitespace (of_char (b32 v))"
  using crockford_no_space by (simp add: list_all_length b32_def)

lemma crockford_sorted: "sorted_wrt (<) crockford"
  by (simp add: crockford_def)

lemma b32_mono: "v < w \<Longrightarrow> w < 32 \<Longrightarrow> b32 v < b32 w"
  unfolding b32_def using crockford_sorted by (auto simp: sorted_wrt_iff_nth_less)

lemma low_digit: "unat (n AND 0x1f :: u128) = unat n mod 32"
proof -
  have "n AND 0x1f = take_bit 5 n"
    by (simp add: take_bit_eq_mask mask_numeral)
  then have "n AND 0x1f = n mod 32" by (simp add: take_bit_eq_mod)
  then show ?thesis by (simp add: unat_mod)
qed

lemma high_digits: "unat (drop_bit 5 n :: u128) = unat n div 32"
  by (simp add: drop_bit_eq_div unat_div)

lemma unat_u128: "unat (n :: u128) < 2 ^ 128"
proof -
  have "unat n < 2 ^ LENGTH(128)" by (rule unsigned_less)
  then show ?thesis by simp
qed

text \<open>The digits of a number as a recursion on the number of slots.\<close>

fun digits32 :: "nat \<Rightarrow> nat \<Rightarrow> string" where
  "digits32 0 n = []"
| "digits32 (Suc k) n = digits32 k (n div 32) @ [b32 (n mod 32)]"

lemma length_digits32 [simp]: "length (digits32 k n) = k"
  by (induction k arbitrary: n) auto

lemma fmt_loop_digits: "fmt_loop k n buf = digits32 k (unat n) @ buf"
  by (induction k arbitrary: n buf) (simp_all add: low_digit high_digits b32_def)

lemma display_digits: "node_id_display n = digits32 26 (unat n)"
  by (simp add: node_id_display_def fmt_loop_digits)

lemma digits32_chars: "c \<in> set (digits32 k n) \<Longrightarrow> \<exists>v < 32. c = b32 v"
proof (induction k arbitrary: n)
  case (Suc k)
  then show ?case by (auto intro: exI [of _ "n mod 32"])
qed simp

lemma trim_display: "trim_text (map of_char (node_id_display n)) = map of_char (node_id_display n)"
proof -
  have ns: "\<not> is_whitespace c" if "c \<in> set (map of_char (node_id_display n))" for c
    using that b32_no_space by (auto simp: display_digits dest!: digits32_chars)
  have keep: "dropWhile is_whitespace s = s" if "\<And>c. c \<in> set s \<Longrightarrow> \<not> is_whitespace c" for s
    using that by (cases s) auto
  have "dropWhile is_whitespace (map of_char (node_id_display n)) = map of_char (node_id_display n)"
    by (rule keep) (rule ns)
  moreover have "dropWhile is_whitespace (rev (map of_char (node_id_display n))) =
      rev (map of_char (node_id_display n))"
    by (rule keep) (rule ns, simp)
  ultimately show ?thesis unfolding trim_text_def by (simp only: rev_rev_ident)
qed

subsection \<open>Decoding what was displayed\<close>

lemma from_str_loop_snoc:
  "from_str_loop n (cs @ [c]) = (case from_str_loop n cs of Inl e \<Rightarrow> Inl e | Inr m \<Rightarrow> digit_step m c)"
  by (induction cs arbitrary: n) (auto split: sum.splits)

lemma digit_step_ok:
  assumes "v < 32" and "unat m * 32 + v < 2 ^ 128"
  shows "digit_step m (of_char (b32 v)) = Inr (m * 32 + of_nat v)"
proof -
  have v: "unat (of_nat v :: u128) = v"
    using assms(1) by (simp add: unat_of_nat)
  have m: "unat (m * 32 :: u128) = unat m * 32"
    using assms(2) by (simp add: unat_word_ariths)
  show ?thesis
    using assms by (simp add: digit_step_def b32_value checked_mul_u128_def checked_add_u128_def v m)
qed

lemma from_str_digits:
  "n < 2 ^ 128 \<Longrightarrow> from_str_loop 0 (map of_char (digits32 k n)) = Inr (of_nat (n mod 32 ^ k))"
proof (induction k arbitrary: n)
  case 0
  then show ?case by simp
next
  case (Suc k)
  have hi: "from_str_loop 0 (map of_char (digits32 k (n div 32))) = Inr (of_nat (n div 32 mod 32 ^ k))"
    using Suc by simp
  have parts: "n div 32 mod 32 ^ k * 32 + n mod 32 = n mod 32 ^ Suc k"
    by (simp add: mod_mult2_eq)
  have small: "n mod 32 ^ Suc k < 2 ^ 128"
    using Suc.prems by (meson le_less_trans mod_less_eq_dividend)
  have un: "unat (of_nat (n div 32 mod 32 ^ k) :: u128) = n div 32 mod 32 ^ k"
    using small parts by (simp add: unat_of_nat)
  have "digit_step (of_nat (n div 32 mod 32 ^ k)) (of_char (b32 (n mod 32))) =
      Inr (of_nat (n div 32 mod 32 ^ k) * 32 + of_nat (n mod 32))"
    using small by (intro digit_step_ok) (simp_all add: un parts del: power_Suc)
  moreover have "of_nat (n div 32 mod 32 ^ k) * 32 + of_nat (n mod 32) =
      (of_nat (n mod 32 ^ Suc k) :: u128)"
    unfolding parts [symmetric] by simp
  ultimately show ?case
    by (simp add: from_str_loop_snoc hi del: power_Suc)
qed

lemma from_str_display: "node_id_from_str (map of_char (node_id_display n)) = Inr n"
proof -
  have "unat n mod 32 ^ 26 = unat n"
    using unat_u128 [of n] by (simp add: mod_less)
  then show ?thesis
    using from_str_digits [of "unat n" 26] unat_u128 [of n]
    by (simp add: node_id_from_str_def trim_display) (simp add: display_digits)
qed

text \<open>
  C34: every node id, written as its 26-character text and read back, is itself: reading never
  rejects a displayed id, and displaying loses nothing of the 128 bits.
\<close>

theorem node_id_roundtrip: "node_id_from_str (map of_char (node_id_display n)) = Inr n"
  by (rule from_str_display)

subsection \<open>The text sorts as the value\<close>

lemma lex_append: "xs < ys \<Longrightarrow> length xs = length ys \<Longrightarrow> xs @ as < ys @ bs"
  for xs ys as bs :: "'a::linorder list"
  by (induction xs ys rule: list_induct2') auto

lemma lex_snoc: "a < b \<Longrightarrow> xs @ [a] < xs @ [b]"
  for a b :: "'a::linorder"
  by (induction xs) auto

lemma digits32_mono: "m < n \<Longrightarrow> n < 32 ^ k \<Longrightarrow> digits32 k m < digits32 k n"
proof (induction k arbitrary: m n)
  case 0
  then show ?case by simp
next
  case (Suc k)
  show ?case
  proof (cases "m div 32 = n div 32")
    case True
    with Suc.prems(1) have "m mod 32 < n mod 32"
      by (metis mult_div_mod_eq nat_add_left_cancel_less)
    with True show ?thesis by (simp add: lex_snoc b32_mono)
  next
    case False
    with Suc.prems(1) have lt: "m div 32 < n div 32"
      by (meson div_le_mono le_neq_implies_less less_imp_le)
    have "n div 32 < 32 ^ k"
      using Suc.prems(2) by (simp add: less_mult_imp_div_less)
    with lt Suc.IH show ?thesis by (simp add: lex_append)
  qed
qed

text \<open>
  The text form sorts like the value (so, ids being time-ordered, like their creation):
  the order of two displayed ids is the order of the ids.
\<close>

theorem node_id_text_order: "node_id_display m < node_id_display n \<longleftrightarrow> m < n"
proof -
  have mono: "a < b \<Longrightarrow> node_id_display a < node_id_display b" for a b
    using digits32_mono [of "unat a" "unat b" 26] unat_u128 [of b]
    by (simp add: display_digits word_less_nat_alt)
  show ?thesis
    using mono [of m n] mono [of n m] by (metis less_asym not_less_iff_gr_or_eq)
qed

fun spelled :: "nat \<Rightarrow> rchar list \<Rightarrow> nat option" where
  "spelled n [] = Some n"
| "spelled n (c # cs) =
     (case crockford_value c of None \<Rightarrow> None | Some v \<Rightarrow> spelled (n * 32 + v) cs)"

lemma position_less: "position P xs = Some i \<Longrightarrow> i < length xs"
  by (induction xs arbitrary: i) (auto split: if_splits)

lemma crockford_value_less: "crockford_value c = Some v \<Longrightarrow> v < 32"
  by (auto simp: crockford_value_def Let_def dest: position_less)

lemma digit_step_value:
  assumes "digit_step n c = Inr m"
  shows "\<exists>v. crockford_value c = Some v \<and> unat m = unat n * 32 + v"
proof -
  from assms obtain v where v: "crockford_value c = Some v"
    by (auto simp: digit_step_def split: option.splits)
  have uv: "unat (of_nat v :: u128) = v"
    using crockford_value_less [OF v] by (simp add: unat_of_nat)
  from assms v show ?thesis
    by (auto simp: digit_step_def checked_mul_u128_def checked_add_u128_def bind_eq_Some_conv uv
        unat_word_ariths split: option.splits if_splits)
qed

lemma from_str_loop_value: "from_str_loop n cs = Inr m \<Longrightarrow> spelled (unat n) cs = Some (unat m)"
proof (induction cs arbitrary: n)
  case Nil
  then show ?case by simp
next
  case (Cons c cs)
  from Cons.prems obtain k where k: "digit_step n c = Inr k" "from_str_loop k cs = Inr m"
    by (auto split: sum.splits)
  from digit_step_value [OF k(1)] Cons.IH [OF k(2)] show ?case by auto
qed

text \<open>
  Parsing never yields an id from a text of the wrong length, and the value it yields is
  the base-32 number its digits spell, which fits in 128 bits.
\<close>

theorem node_id_from_str_sound:
  assumes "node_id_from_str s = Inr n"
  shows "length (trim_text s) = 26 \<and> spelled 0 (trim_text s) = Some (unat n)"
  using assms from_str_loop_value [of 0 "trim_text s" n]
  by (auto simp: node_id_from_str_def Let_def split: if_splits)

theorem node_id_from_str_sound_witness:
  "length (trim_text (map of_char (node_id_display 5))) = 26 \<and>
   spelled 0 (trim_text (map of_char (node_id_display 5))) = Some 5"
  using node_id_from_str_sound [OF from_str_display [of 5]] by simp

text \<open>
  A character outside ASCII is cut to its low byte before it is looked up, so that
  \<open>U+0130\<close> reads as the digit \<open>0\<close>: twenty-six of them parse as the nil id.
\<close>

lemma non_ascii_digit: "crockford_value 0x130 = Some 0"
  by (simp add: crockford_def crockford_value_def to_ascii_uppercase_def)

lemma non_ascii_loop: "from_str_loop 0 (replicate k 0x130) = Inr 0"
  by (induction k) (simp_all add: digit_step_def non_ascii_digit checked_mul_u128_def checked_add_u128_def)

text \<open>
  A character outside ASCII is cut to its low byte before its digit is looked up, so a
  text of 26 characters none of which is a Crockford digit can be read as an id: 26 times
  U+0130 reads as the nil id.
\<close>

theorem non_ascii_id: "node_id_from_str (replicate 26 0x130) = Inr node_id_nil"
  by (simp add: node_id_from_str_def trim_text_def is_whitespace_def dropWhile_replicate
      non_ascii_loop node_id_nil_def)

end
