(* ===== verification/Provider.thy ===== *)
theory Provider
  imports Prelude
begin

text \<open>
  The conduit between a node's filesystem and a provider node that serves a mounted subtree
  (\<open>crates/wk-vfs/src/provider.rs\<close>): a queue of requests, the calls still owed a reply, and
  the serve loop's incarnation. Every method takes the lock, so one method body is one step;
  a blocked caller is a call with an unfilled reply slot. The interleavings of any number of
  callers with the serve loop are the runs of \<open>conn_step\<close>.
\<close>

subsection \<open>Operations, replies and errors\<close>

datatype fs_entry_kind = EkFile | EkDir

record fs_stat =
  st_kind :: fs_entry_kind
  st_size :: u64

record fs_dirent =
  de_name :: string
  de_kind :: fs_entry_kind

record fs_opened =
  op_handle :: u64
  op_kind :: fs_entry_kind
  op_size :: u64

datatype fs_op =
    OpGetattr string
  | OpReaddir string
  | OpOpen string bool bool bool  \<comment> \<open>path, create, truncate, exclusive\<close>
  | OpRead u64 u64 u32  \<comment> \<open>handle, offset, len\<close>
  | OpWrite u64 u64 bytes
  | OpRelease u64
  | OpSetSize u64 u64
  | OpMkdir string
  | OpUnlink string
  | OpRmdir string
  | OpRename string string

datatype fs_reply =
    ReDone
  | ReAttr fs_stat
  | ReEntries "fs_dirent list"
  | ReOpened fs_opened
  | ReData bytes bool
  | ReWritten u64

datatype fs_error =
    FeNoEntry | FeNotDir | FeIsDir | FeExist | FeNotPermitted | FeIo | FeTooLarge
  | FeUnsupported | FeDead | FeTimeout

type_synonym answer = "fs_error + fs_reply"

definition max_queue :: nat where
  "max_queue = 1024"

subsection \<open>The state\<close>

text \<open>
  \<open>Inner\<close>, with the reply slots as a store: \<open>outstanding\<close> holds the ids that still map to a
  slot (the slot of call \<open>i\<close> is \<open>slots i\<close>), and \<open>waiting\<close> the ids whose caller is blocked in
  \<open>call\<close>. The id is a \<open>u64\<close> counter that a process cannot exhaust; it is a natural here.
\<close>

record inner =
  queue :: "(nat \<times> fs_op) list"
  outstanding :: "nat list"
  next_req :: nat
  serving :: bool
  generation :: nat
  slots :: "nat \<Rightarrow> answer option"
  waiting :: "nat list"

definition conn_default :: inner where
  "conn_default =
     \<lparr>queue = [], outstanding = [], next_req = 1, serving = False, generation = 0,
      slots = (\<lambda>_. None), waiting = []\<rparr>"

subsection \<open>The methods\<close>

text \<open>
  The first critical section of \<open>call\<close>: refuse, or enqueue and leave the caller waiting on
  its slot under the returned id.
\<close>

definition call_issue :: "inner \<Rightarrow> fs_op \<Rightarrow> (fs_error + nat) \<times> inner" where
  "call_issue g op =
     (if \<not> serving g then (Inl FeDead, g)
      else if length (queue g) \<ge> max_queue then (Inl FeIo, g)
      else let i = next_req g in
        (Inr i, g\<lparr>next_req := i + 1, queue := queue g @ [(i, op)],
                  outstanding := outstanding g @ [i],
                  slots := (slots g)(i := None), waiting := waiting g @ [i]\<rparr>))"

text \<open>
  The end of \<open>call\<close>: with a filled slot the caller takes the answer; at the deadline it
  withdraws the request and fails with \<open>Timeout\<close>.
\<close>

definition call_return :: "inner \<Rightarrow> nat \<Rightarrow> (answer \<times> inner) option" where
  "call_return g i =
     (case slots g i of
        None \<Rightarrow> None
      | Some r \<Rightarrow> Some (r, g\<lparr>slots := (slots g)(i := None), waiting := removeAll i (waiting g)\<rparr>))"

definition call_timeout :: "inner \<Rightarrow> nat \<Rightarrow> answer \<times> inner" where
  "call_timeout g i =
     (Inl FeTimeout,
      g\<lparr>outstanding := removeAll i (outstanding g),
        queue := filter (\<lambda>(q, _). q \<noteq> i) (queue g),
        waiting := removeAll i (waiting g)\<rparr>)"

definition cast_op :: "inner \<Rightarrow> fs_op \<Rightarrow> inner" where
  "cast_op g op =
     (if \<not> serving g \<or> length (queue g) \<ge> max_queue then g
      else g\<lparr>next_req := next_req g + 1, queue := queue g @ [(next_req g, op)]\<rparr>)"

text \<open>\<open>next_request\<close>: each of its two \<open>pop_front\<close>s is this step (the wait between them is not).\<close>

definition next_request :: "inner \<Rightarrow> (nat \<times> fs_op) option \<times> inner" where
  "next_request g =
     (case queue g of [] \<Rightarrow> (None, g) | q # qs \<Rightarrow> (Some q, g\<lparr>queue := qs\<rparr>))"

definition reply_to :: "inner \<Rightarrow> nat \<Rightarrow> answer \<Rightarrow> inner" where
  "reply_to g i r =
     (if i \<in> set (outstanding g)
      then g\<lparr>outstanding := removeAll i (outstanding g), slots := (slots g)(i := Some r)\<rparr>
      else g)"

definition begin_serving :: "inner \<Rightarrow> inner" where
  "begin_serving g = g\<lparr>serving := True\<rparr>"

definition end_serving :: "inner \<Rightarrow> inner" where
  "end_serving g =
     g\<lparr>serving := False, generation := generation g + 1, queue := [], outstanding := [],
       slots := (\<lambda>i. if i \<in> set (outstanding g) then Some (Inl FeDead) else slots g i)\<rparr>"

subsection \<open>Interleavings\<close>

inductive conn_step :: "inner \<Rightarrow> inner \<Rightarrow> bool" where
  issue: "call_issue g op = (r, g') \<Longrightarrow> conn_step g g'"
| return: "i \<in> set (waiting g) \<Longrightarrow> call_return g i = Some (r, g') \<Longrightarrow> conn_step g g'"
| timeout: "i \<in> set (waiting g) \<Longrightarrow> slots g i = None \<Longrightarrow> call_timeout g i = (r, g') \<Longrightarrow> conn_step g g'"
| cast: "conn_step g (cast_op g op)"
| pull: "next_request g = (r, g') \<Longrightarrow> conn_step g g'"
| answer: "conn_step g (reply_to g i r)"
| attach: "conn_step g (begin_serving g)"
| detach: "conn_step g (end_serving g)"

inductive conn_reachable :: "inner \<Rightarrow> bool" where
  start: "conn_reachable conn_default"
| step: "conn_reachable g \<Longrightarrow> conn_step g g' \<Longrightarrow> conn_reachable g'"

inductive_cases conn_stepE: "conn_step g g'"

subsection \<open>The invariant\<close>

text \<open>
  Every blocked caller is owed an answer: its id is outstanding (so a reply or the serve
  loop's end will fill its slot) or its slot is already filled. Ids are fresh, queued at most
  once, and the queue is bounded.
\<close>

definition conn_inv :: "inner \<Rightarrow> bool" where
  "conn_inv g \<longleftrightarrow>
     (\<forall>i \<in> set (waiting g). i \<in> set (outstanding g) \<longleftrightarrow> slots g i = None) \<and>
     set (outstanding g) \<subseteq> set (waiting g) \<and>
     (\<forall>i. slots g i \<noteq> None \<longrightarrow> i \<in> set (waiting g)) \<and>
     distinct (map fst (queue g)) \<and> distinct (waiting g) \<and>
     (\<forall>p \<in> set (queue g). fst p < next_req g) \<and> (\<forall>i \<in> set (waiting g). i < next_req g) \<and>
     length (queue g) \<le> max_queue"

lemma conn_inv_default: "conn_inv conn_default"
  by (simp add: conn_inv_def conn_default_def)

lemma conn_inv_issue: "conn_inv g \<Longrightarrow> call_issue g op = (r, g') \<Longrightarrow> conn_inv g'"
  by (auto simp: conn_inv_def call_issue_def Let_def less_Suc_eq split: if_splits; force)

lemma conn_inv_return:
  "conn_inv g \<Longrightarrow> i \<in> set (waiting g) \<Longrightarrow> call_return g i = Some (r, g') \<Longrightarrow> conn_inv g'"
  by (auto simp: conn_inv_def call_return_def distinct_removeAll
      split: option.splits if_splits; force split: if_splits)

lemma conn_inv_timeout:
  "conn_inv g \<Longrightarrow> slots g i = None \<Longrightarrow> call_timeout g i = (r, g') \<Longrightarrow> conn_inv g'"
  by (auto simp: conn_inv_def call_timeout_def distinct_map_filter distinct_removeAll
      intro: order_trans [OF length_filter_le]; force)

lemma conn_inv_cast: "conn_inv g \<Longrightarrow> conn_inv (cast_op g op)"
  by (auto simp: conn_inv_def cast_op_def less_Suc_eq; force)

lemma conn_inv_pull: "conn_inv g \<Longrightarrow> next_request g = (r, g') \<Longrightarrow> conn_inv g'"
  by (auto simp: conn_inv_def next_request_def split: list.splits; force)

lemma conn_inv_reply: "conn_inv g \<Longrightarrow> conn_inv (reply_to g i r)"
  by (auto simp: conn_inv_def reply_to_def; force)

lemma conn_inv_attach: "conn_inv g \<Longrightarrow> conn_inv (begin_serving g)"
  by (simp add: conn_inv_def begin_serving_def)

lemma conn_inv_detach: "conn_inv g \<Longrightarrow> conn_inv (end_serving g)"
  by (auto simp: conn_inv_def end_serving_def split: if_splits)

lemmas conn_inv_methods =
  conn_inv_issue conn_inv_return conn_inv_timeout conn_inv_cast conn_inv_pull conn_inv_reply
  conn_inv_attach conn_inv_detach

lemma conn_inv_step: "conn_step g g' \<Longrightarrow> conn_inv g \<Longrightarrow> conn_inv g'"
  by (cases rule: conn_step.cases) (auto intro: conn_inv_methods)

lemma reachable_conn_inv: "conn_reachable g \<Longrightarrow> conn_inv g"
  by (induction rule: conn_reachable.induct) (auto intro: conn_inv_default conn_inv_step)

subsection \<open>Properties\<close>

text \<open>
  In every reachable state of the conduit no caller can be forgotten: each blocked call
  either has its answer waiting in its slot or is still outstanding, so that the next reply,
  or the serve loop going away, answers it; and at most 1024 requests are ever queued.
\<close>

theorem conduit_never_forgets_a_caller:
  assumes "conn_reachable g" and "i \<in> set (waiting g)"
  shows "(slots g i \<noteq> None \<or> i \<in> set (outstanding g)) \<and>
    slots (end_serving g) i \<noteq> None \<and> slots (reply_to g i r) i \<noteq> None \<and>
    length (queue g) \<le> 1024"
  using reachable_conn_inv [OF assms(1)] assms(2)
  by (auto simp: conn_inv_def end_serving_def reply_to_def max_queue_def)

lemma reachable_one_call:
  "conn_reachable (snd (call_issue (begin_serving conn_default) (OpGetattr ''x'')))"
  by (rule conn_reachable.step [OF conn_reachable.step [OF conn_reachable.start conn_step.attach]])
    (rule conn_step.issue [where r = "fst (call_issue (begin_serving conn_default) (OpGetattr ''x''))"
        and op = "OpGetattr ''x''"], simp)

lemma waiting_one_call:
  "waiting (snd (call_issue (begin_serving conn_default) (OpGetattr ''x''))) = [1]"
  by (simp add: call_issue_def begin_serving_def conn_default_def max_queue_def Let_def)

theorem conduit_never_forgets_a_caller_witness:
  "slots (end_serving (snd (call_issue (begin_serving conn_default) (OpGetattr ''x'')))) 1 \<noteq> None"
  using conduit_never_forgets_a_caller [OF reachable_one_call, of 1 "Inr ReDone"] waiting_one_call
  by simp

text \<open>
  An answer reaches only the call it is for: replying to one request leaves every other
  caller's slot as it was, a second reply to the same request changes nothing, and a reply to
  a request that was withdrawn at its deadline is dropped.
\<close>

theorem reply_reaches_only_its_caller:
  assumes "i \<noteq> j"
  shows "slots (reply_to g i r) j = slots g j \<and>
    reply_to (reply_to g i r) i r' = reply_to g i r \<and>
    reply_to (snd (call_timeout g i)) i r = snd (call_timeout g i)"
  using assms by (simp add: reply_to_def call_timeout_def)

theorem reply_reaches_only_its_caller_witness:
  "slots (reply_to conn_default 1 (Inr ReDone)) 2 = slots conn_default 2"
  using reply_reaches_only_its_caller [of 1 2 conn_default "Inr ReDone"] by simp



text \<open>
  A generation, once passed, never comes back: no step lowers it. So a handle minted under
  one generation is never presented to a later incarnation as if it were its own.
\<close>

lemma conn_step_generation: "conn_step g g' \<Longrightarrow> generation g \<le> generation g'"
  by (cases rule: conn_step.cases)
    (auto simp: call_issue_def call_return_def call_timeout_def cast_op_def next_request_def
      reply_to_def begin_serving_def end_serving_def Let_def split: if_splits option.splits list.splits)

end
