(* ===== verification/Vfs_Core.thy ===== *)
theory Vfs_Core
  imports Provider
begin

text \<open>
  The data model of a node's in-memory filesystem (\<open>crates/wk-vfs/src/lib.rs\<close>, with
  \<open>LayerBytes\<close> of \<open>layers.rs\<close>) and the operations on its node table: allocation, descriptor
  counts, copy-up, path walks, and the path-level operations of the host.

  \<^item> \<open>world\<close> is what filesystems share: the cells behind \<open>Arc<Mutex<Vec<u8>>>\<close> volumes and
    \<open>Arc<LayerBytes>\<close> layer files, by address, so that two nodes holding one address alias it;
    the files of the host disk; and the log of what was sent to provider nodes.
  \<^item> \<open>env\<close> is what the sources only call: what a provider node answers (it may depend on all
    that was sent before), its current incarnation, whether the host lets a file be opened for
    writing, how many bytes it takes there at an offset before it fails, whether it accepts a
    new length, a file's modification time, and the OS's random bytes.
  \<^item> \<open>fs\<close> is the struct \<open>Fs\<close>. A node id is a \<open>u64\<close> counter that is never reused and that a
    process cannot exhaust; it is a natural number here, as are lengths.
\<close>

subsection \<open>The shared world\<close>

record tar_slice =
  ts_tar :: string
  ts_offset :: nat

record layer_bytes =
  lb_len :: nat
  lb_cell :: "bytes option"
  lb_src :: "tar_slice option"

record world =
  shared_cells :: "nat \<Rightarrow> bytes"
  layer_cells :: "nat \<Rightarrow> layer_bytes"
  disk :: "string \<Rightarrow> bytes option"
  sent :: "(nat \<times> fs_op) list"

record env =
  env_call :: "(nat \<times> fs_op) list \<Rightarrow> nat \<Rightarrow> fs_op \<Rightarrow> answer"
  env_gen :: "nat \<Rightarrow> nat"
  env_host_ok :: "string \<Rightarrow> bool"
  env_host_room :: "string \<Rightarrow> u64 \<Rightarrow> nat"
  env_host_len_ok :: "string \<Rightarrow> nat \<Rightarrow> bool"
  env_mtime :: "string \<Rightarrow> (nat \<times> nat) option"
  env_rand :: "nat \<Rightarrow> u8"

definition provider_call :: "env \<Rightarrow> world \<Rightarrow> nat \<Rightarrow> fs_op \<Rightarrow> answer \<times> world" where
  "provider_call e w conn op =
     (env_call e (sent w) conn op, w\<lparr>sent := sent w @ [(conn, op)]\<rparr>)"

definition provider_cast :: "world \<Rightarrow> nat \<Rightarrow> fs_op \<Rightarrow> world" where
  "provider_cast w conn op = w\<lparr>sent := sent w @ [(conn, op)]\<rparr>"

subsection \<open>Layer bytes\<close>

definition tar_read :: "world \<Rightarrow> tar_slice \<Rightarrow> nat \<Rightarrow> bytes option" where
  "tar_read w ts len =
     (case disk w (ts_tar ts) of
        None \<Rightarrow> None
      | Some d \<Rightarrow>
         if len = 0 \<or> ts_offset ts + len \<le> length d then Some (take len (drop (ts_offset ts) d))
         else None)"

definition lb_eager :: "bytes \<Rightarrow> layer_bytes" where
  "lb_eager b = \<lparr>lb_len = length b, lb_cell = Some b, lb_src = None\<rparr>"

definition lb_lazy :: "string \<Rightarrow> nat \<Rightarrow> nat \<Rightarrow> layer_bytes" where
  "lb_lazy tar offset len =
     \<lparr>lb_len = len, lb_cell = None, lb_src = Some \<lparr>ts_tar = tar, ts_offset = offset\<rparr>\<rparr>"

definition is_materialized :: "layer_bytes \<Rightarrow> bool" where
  "is_materialized lb \<longleftrightarrow> lb_cell lb \<noteq> None"

text \<open>\<open>LayerBytes::bytes\<close>: the \<open>OnceLock\<close> is filled by the first call and read by every later one.\<close>

definition lb_load :: "world \<Rightarrow> layer_bytes \<Rightarrow> bytes" where
  "lb_load w lb =
     (case lb_src lb of
        None \<Rightarrow> []
      | Some src \<Rightarrow> (case tar_read w src (lb_len lb) of None \<Rightarrow> [] | Some d \<Rightarrow> d))"

definition lb_bytes :: "world \<Rightarrow> nat \<Rightarrow> bytes \<times> world" where
  "lb_bytes w a =
     (let lb = layer_cells w a in
      case lb_cell lb of
        Some d \<Rightarrow> (d, w)
      | None \<Rightarrow>
         let d = lb_load w lb in
         (d, w\<lparr>layer_cells := (layer_cells w)(a := lb\<lparr>lb_cell := Some d\<rparr>)\<rparr>))"

subsection \<open>The filesystem\<close>

type_synonym children = "(string \<times> nat) list"

datatype node =
    NFile bytes
  | NDir children
  | NShared nat
  | NHost string
  | NRoFile nat
  | NSymlink string
  | NNull
  | NZero
  | NRandom
  | NProvider nat

record fs =
  nodes :: "(nat \<times> node) list"
  next_node :: nat
  readonly :: "nat set"
  open_fds :: "(nat \<times> nat) list"

abbreviation get_node :: "fs \<Rightarrow> nat \<Rightarrow> node option" where
  "get_node f i \<equiv> map_of (nodes f) i"

abbreviation root :: nat where
  "root \<equiv> 0"

definition fs_default :: fs where
  "fs_default = \<lparr>nodes = [(root, NDir [])], next_node = 1, readonly = {}, open_fds = []\<rparr>"

definition max_fs_nodes :: nat where
  "max_fs_nodes = 100000"

definition at_capacity :: "fs \<Rightarrow> bool" where
  "at_capacity f \<longleftrightarrow> length (nodes f) \<ge> max_fs_nodes"

definition alloc :: "fs \<Rightarrow> node \<Rightarrow> nat \<times> fs" where
  "alloc f n =
     (let i = next_node f in (i, f\<lparr>next_node := i + 1, nodes := bt_insert i n (nodes f)\<rparr>))"

definition set_node :: "fs \<Rightarrow> nat \<Rightarrow> node \<Rightarrow> fs" where
  "set_node f i n = f\<lparr>nodes := bt_insert i n (nodes f)\<rparr>"

text \<open>\<open>if let Some(Node::Dir(c)) = nodes.get_mut(&p)\<close> around an insertion or a removal.\<close>

definition insert_child :: "fs \<Rightarrow> nat \<Rightarrow> string \<Rightarrow> nat \<Rightarrow> fs" where
  "insert_child f p name i =
     (case get_node f p of Some (NDir c) \<Rightarrow> set_node f p (NDir (bt_insert name i c)) | _ \<Rightarrow> f)"

definition remove_child :: "fs \<Rightarrow> nat \<Rightarrow> string \<Rightarrow> fs" where
  "remove_child f p name =
     (case get_node f p of Some (NDir c) \<Rightarrow> set_node f p (NDir (bt_remove name c)) | _ \<Rightarrow> f)"

text \<open>
  \<open>let id = alloc(node)\<close> followed by the insertion of \<open>id\<close> into the parent, as every
  creating operation does; the new id is \<open>next_node f\<close>.
\<close>

definition add_child :: "fs \<Rightarrow> nat \<Rightarrow> string \<Rightarrow> node \<Rightarrow> fs" where
  "add_child f p name n = (let (i, f1) = alloc f n in insert_child f1 p name i)"

text \<open>
  \<open>drop_subtree\<close> as a worklist: the recursion visits the children of a removed directory
  before what was pending. Every step removes a node or shortens the list.
\<close>

definition child_ids :: "node \<Rightarrow> nat list" where
  "child_ids n = (case n of NDir c \<Rightarrow> map snd c | _ \<Rightarrow> [])"

function drop_nodes :: "(nat \<times> node) list \<Rightarrow> nat list \<Rightarrow> (nat \<times> node) list" where
  "drop_nodes ns [] = ns"
| "drop_nodes ns (i # todo) =
     (case map_of ns i of
        None \<Rightarrow> drop_nodes ns todo
      | Some n \<Rightarrow> drop_nodes (bt_remove i ns) (child_ids n @ todo))"
  by pat_completeness auto
termination
  by (relation "measures [\<lambda>(ns, todo). length ns, \<lambda>(ns, todo). length todo]")
    (auto intro: length_bt_remove_less)

definition drop_subtree :: "fs \<Rightarrow> nat \<Rightarrow> fs" where
  "drop_subtree f i = f\<lparr>nodes := drop_nodes (nodes f) [i]\<rparr>"

definition node_is_referenced :: "fs \<Rightarrow> nat \<Rightarrow> bool" where
  "node_is_referenced f i \<longleftrightarrow>
     list_ex (\<lambda>(_, n). case n of NDir c \<Rightarrow> list_ex (\<lambda>(_, v). v = i) c | _ \<Rightarrow> False) (nodes f)"

definition open_ref :: "fs \<Rightarrow> nat \<Rightarrow> fs" where
  "open_ref f i =
     f\<lparr>open_fds := bt_insert i ((case map_of (open_fds f) i of None \<Rightarrow> 0 | Some c \<Rightarrow> c) + 1) (open_fds f)\<rparr>"

definition close_ref :: "fs \<Rightarrow> nat \<Rightarrow> fs" where
  "close_ref f i =
     (case map_of (open_fds f) i of
        None \<Rightarrow> f
      | Some c \<Rightarrow>
         if c - 1 = 0 then
           let f1 = f\<lparr>open_fds := bt_remove i (open_fds f)\<rparr> in
           if i \<noteq> root \<and> \<not> node_is_referenced f1 i then drop_subtree f1 i else f1
         else f\<lparr>open_fds := bt_insert i (c - 1) (open_fds f)\<rparr>)"

definition open_count :: "fs \<Rightarrow> nat \<Rightarrow> nat" where
  "open_count f i = (case map_of (open_fds f) i of None \<Rightarrow> 0 | Some c \<Rightarrow> c)"

definition copy_up :: "fs \<Rightarrow> world \<Rightarrow> nat \<Rightarrow> fs \<times> world" where
  "copy_up f w i =
     (case get_node f i of
        Some (NRoFile a) \<Rightarrow> (let (d, w') = lb_bytes w a in (set_node f i (NFile d), w'))
      | _ \<Rightarrow> (f, w))"

subsection \<open>Paths\<close>

definition components :: "string \<Rightarrow> string list" where
  "components path = filter (\<lambda>c. c \<noteq> [] \<and> c \<noteq> ''.'') (split_on CHR ''/'' path)"

definition max_symlink_hops :: nat where
  "max_symlink_hops = 32"

definition is_absolute :: "string \<Rightarrow> bool" where
  "is_absolute path = starts_with_char CHR ''/'' path"

text \<open>
  The loop of \<open>resolve_at\<close>. \<open>todo\<close> is the worklist with the next component first (the source
  keeps it reversed), \<open>anc\<close> the ancestors of \<open>cur\<close> with the nearest first. It ends: a symlink
  spends one of 32 hops, every other step shortens the worklist.
\<close>

definition look :: "fs \<Rightarrow> nat \<Rightarrow> string \<Rightarrow> (nat \<times> node) option" where
  "look f cur name =
     (case get_node f cur of
        Some (NDir c) \<Rightarrow>
         (case map_of c name of
            None \<Rightarrow> None
          | Some nx \<Rightarrow> map_option (Pair nx) (get_node f nx))
      | _ \<Rightarrow> None)"

definition link_target :: "node \<Rightarrow> string option" where
  "link_target n = (case n of NSymlink t \<Rightarrow> Some t | _ \<Rightarrow> None)"

function walk :: "fs \<Rightarrow> bool \<Rightarrow> nat \<Rightarrow> string list \<Rightarrow> nat \<Rightarrow> nat list \<Rightarrow> nat option" where
  "walk f ff hops [] cur anc = Some cur"
| "walk f ff hops (name # todo) cur anc =
     (if name = ''..'' then walk f ff hops todo (case anc of [] \<Rightarrow> root | a # _ \<Rightarrow> a) (tl anc)
      else
        (case look f cur name of
           None \<Rightarrow> None
         | Some (nx, n) \<Rightarrow>
            (case (if todo \<noteq> [] \<or> ff then link_target n else None) of
               Some target \<Rightarrow>
                if hops + 1 > max_symlink_hops then None
                else walk f ff (hops + 1) (components target @ todo)
                  (if is_absolute target then root else cur) (if is_absolute target then [] else anc)
             | None \<Rightarrow> walk f ff hops todo nx (cur # anc))))"
  by pat_completeness auto
termination
  by (relation "measures [\<lambda>(f, ff, hops, todo, cur, anc). Suc max_symlink_hops - hops,
        \<lambda>(f, ff, hops, todo, cur, anc). length todo]") auto

definition walk_start :: "nat \<Rightarrow> string \<Rightarrow> nat" where
  "walk_start start path = (if is_absolute path then root else start)"

definition resolve_at :: "fs \<Rightarrow> nat \<Rightarrow> string \<Rightarrow> bool \<Rightarrow> nat option" where
  "resolve_at f start path follow_final =
     walk f follow_final 0 (components path) (walk_start start path) []"

definition resolve :: "fs \<Rightarrow> nat \<Rightarrow> string \<Rightarrow> nat option" where
  "resolve f start path = resolve_at f start path True"

definition is_dir :: "fs \<Rightarrow> nat \<Rightarrow> bool" where
  "is_dir f i = (case get_node f i of Some (NDir _) \<Rightarrow> True | _ \<Rightarrow> False)"

definition resolve_parent :: "fs \<Rightarrow> nat \<Rightarrow> string \<Rightarrow> (nat \<times> string) option" where
  "resolve_parent f start path =
     (case split_last (components path) of
        None \<Rightarrow> None
      | Some (name, dirs) \<Rightarrow>
         (case resolve f start (join_with ''/'' dirs) of
            None \<Rightarrow> None
          | Some parent \<Rightarrow> if is_dir f parent then Some (parent, name) else None))"

datatype resolved =
    RLocal nat
  | RRemote nat string bool  \<comment> \<open>conn, residual path, readonly\<close>
  | RMissing

definition provider_of :: "node \<Rightarrow> nat option" where
  "provider_of n = (case n of NProvider conn \<Rightarrow> Some conn | _ \<Rightarrow> None)"

function walk_place :: "fs \<Rightarrow> bool \<Rightarrow> nat \<Rightarrow> string list \<Rightarrow> nat \<Rightarrow> nat list \<Rightarrow> resolved" where
  "walk_place f ff hops [] cur anc = RLocal cur"
| "walk_place f ff hops (name # todo) cur anc =
     (if name = ''..'' then walk_place f ff hops todo (case anc of [] \<Rightarrow> root | a # _ \<Rightarrow> a) (tl anc)
      else
        (case look f cur name of
           None \<Rightarrow> RMissing
         | Some (nx, n) \<Rightarrow>
            (case provider_of n of
               Some conn \<Rightarrow> RRemote conn (join_with ''/'' todo) (nx \<in> readonly f)
             | None \<Rightarrow>
                (case (if todo \<noteq> [] \<or> ff then link_target n else None) of
                   Some target \<Rightarrow>
                    if hops + 1 > max_symlink_hops then RMissing
                    else walk_place f ff (hops + 1) (components target @ todo)
                      (if is_absolute target then root else cur) (if is_absolute target then [] else anc)
                 | None \<Rightarrow> walk_place f ff hops todo nx (cur # anc)))))"
  by pat_completeness auto
termination
  by (relation "measures [\<lambda>(f, ff, hops, todo, cur, anc). Suc max_symlink_hops - hops,
        \<lambda>(f, ff, hops, todo, cur, anc). length todo]") auto

definition resolve_place :: "fs \<Rightarrow> nat \<Rightarrow> string \<Rightarrow> bool \<Rightarrow> resolved" where
  "resolve_place f start path follow_final =
     (let cur = walk_start start path in
      case Option.bind (get_node f cur) provider_of of
        Some conn \<Rightarrow> RRemote conn (join_with ''/'' (components path)) (cur \<in> readonly f)
      | None \<Rightarrow> walk_place f follow_final 0 (components path) cur [])"

subsection \<open>Path-level operations of the host\<close>

fun ensure_dirs :: "fs \<Rightarrow> nat \<Rightarrow> string list \<Rightarrow> fs \<times> nat option" where
  "ensure_dirs f cur [] = (f, Some cur)"
| "ensure_dirs f cur (name # comps) =
     (case get_node f cur of
        Some (NDir c) \<Rightarrow>
         (case map_of c name of
            Some i \<Rightarrow> if is_dir f i then ensure_dirs f i comps else (f, None)
          | None \<Rightarrow>
             if at_capacity f then (f, None)
             else ensure_dirs (add_child f cur name (NDir [])) (next_node f) comps)
      | _ \<Rightarrow> (f, None))"

definition ensure_dir_path :: "fs \<Rightarrow> string \<Rightarrow> fs \<times> nat option" where
  "ensure_dir_path f path = ensure_dirs f root (components path)"

definition remove_path_in :: "fs \<Rightarrow> nat \<Rightarrow> string \<Rightarrow> fs" where
  "remove_path_in f p name =
     (case get_node f p of
        Some (NDir c) \<Rightarrow>
         (case map_of c name of
            None \<Rightarrow> f
          | Some i \<Rightarrow> drop_subtree (remove_child f p name) i)
      | _ \<Rightarrow> f)"

text \<open>
  \<open>mount_node_at\<close>; the bodies of \<open>put_ro_file_at\<close>, \<open>put_file_at\<close> and \<open>put_symlink_at\<close> are the
  same code without the read-only mark.
\<close>

definition mount_node_at :: "fs \<Rightarrow> string \<Rightarrow> node \<Rightarrow> bool \<Rightarrow> fs" where
  "mount_node_at f at n ro =
     (case split_last (components at) of
        None \<Rightarrow> f
      | Some (name, dirs) \<Rightarrow>
         (case ensure_dir_path f (join_with ''/'' dirs) of
            (f1, None) \<Rightarrow> f1
          | (f1, Some parent) \<Rightarrow>
             if at_capacity f1 then f1
             else
               let f2 = remove_path_in f1 parent name;
                   f3 = add_child f2 parent name n
               in if ro then f3\<lparr>readonly := insert (next_node f2) (readonly f3)\<rparr> else f3))"

definition put_ro_file_at :: "fs \<Rightarrow> string \<Rightarrow> nat \<Rightarrow> fs" where
  "put_ro_file_at f path a = mount_node_at f path (NRoFile a) False"

definition put_file_at :: "fs \<Rightarrow> string \<Rightarrow> bytes \<Rightarrow> fs" where
  "put_file_at f path b = mount_node_at f path (NFile b) False"

definition put_symlink_at :: "fs \<Rightarrow> string \<Rightarrow> string \<Rightarrow> fs" where
  "put_symlink_at f path target = mount_node_at f path (NSymlink target) False"

definition mount_file :: "fs \<Rightarrow> string \<Rightarrow> nat \<Rightarrow> bool \<Rightarrow> fs" where
  "mount_file f at cell writable = mount_node_at f at (NShared cell) (\<not> writable)"

definition mount_host_file :: "fs \<Rightarrow> string \<Rightarrow> string \<Rightarrow> bool \<Rightarrow> fs" where
  "mount_host_file f at path writable = mount_node_at f at (NHost path) (\<not> writable)"

definition mount_provider :: "fs \<Rightarrow> string \<Rightarrow> nat \<Rightarrow> bool \<Rightarrow> fs" where
  "mount_provider f at conn writable = mount_node_at f at (NProvider conn) (\<not> writable)"

definition remove_path :: "fs \<Rightarrow> string \<Rightarrow> fs" where
  "remove_path f path =
     (case split_last (components path) of
        None \<Rightarrow> f
      | Some (name, dirs) \<Rightarrow>
         (case resolve f root (join_with ''/'' dirs) of
            None \<Rightarrow> f
          | Some parent \<Rightarrow> remove_path_in f parent name))"

definition unmount_file :: "fs \<Rightarrow> string \<Rightarrow> fs" where
  "unmount_file f at = remove_path f at"

definition clear_dir_at :: "fs \<Rightarrow> string \<Rightarrow> fs" where
  "clear_dir_at f path =
     (case resolve f root path of
        None \<Rightarrow> f
      | Some i \<Rightarrow>
         (case get_node f i of
            Some (NDir c) \<Rightarrow> fold (\<lambda>child g. drop_subtree g child) (map snd c) (set_node f i (NDir []))
          | _ \<Rightarrow> f))"

text \<open>One iteration of \<open>ensure_standard_devices\<close>, and the whole function.\<close>

definition ensure_device :: "nat \<Rightarrow> string \<times> node \<Rightarrow> fs \<Rightarrow> fs" where
  "ensure_device dev nk f =
     (let present = (case get_node f dev of Some (NDir c) \<Rightarrow> map_of c (fst nk) \<noteq> None | _ \<Rightarrow> False) in
      if present \<or> at_capacity f then f
      else add_child f dev (fst nk) (snd nk))"

definition ensure_standard_devices :: "fs \<Rightarrow> fs" where
  "ensure_standard_devices f =
     (case ensure_dir_path f ''dev'' of
        (f1, None) \<Rightarrow> f1
      | (f1, Some dev) \<Rightarrow>
         fold (ensure_device dev)
           [(''null'', NNull), (''zero'', NZero), (''urandom'', NRandom), (''random'', NRandom)] f1)"

subsection \<open>Reading for the host\<close>

definition host_read :: "world \<Rightarrow> string \<Rightarrow> bytes" where
  "host_read w p = (case disk w p of None \<Rightarrow> [] | Some d \<Rightarrow> d)"

definition host_size :: "world \<Rightarrow> string \<Rightarrow> nat" where
  "host_size w p = (case disk w p of None \<Rightarrow> 0 | Some d \<Rightarrow> length d)"

definition file_len :: "fs \<Rightarrow> world \<Rightarrow> nat \<Rightarrow> nat" where
  "file_len f w i =
     (case get_node f i of
        Some (NFile d) \<Rightarrow> length d
      | Some (NRoFile a) \<Rightarrow> lb_len (layer_cells w a)
      | Some (NShared s) \<Rightarrow> length (shared_cells w s)
      | Some (NHost p) \<Rightarrow> host_size w p
      | _ \<Rightarrow> 0)"

definition read_file :: "fs \<Rightarrow> world \<Rightarrow> string \<Rightarrow> nat \<Rightarrow> bytes option \<times> world" where
  "read_file f w path cap =
     (case resolve f root path of
        None \<Rightarrow> (None, w)
      | Some i \<Rightarrow>
         (case get_node f i of
            None \<Rightarrow> (None, w)
          | Some (NFile d) \<Rightarrow> (Some (take cap d), w)
          | Some (NRoFile a) \<Rightarrow> (let (d, w') = lb_bytes w a in (Some (take cap d), w'))
          | Some (NShared s) \<Rightarrow> (Some (take cap (shared_cells w s)), w)
          | Some (NSymlink _) \<Rightarrow> (None, w)
          | Some (NHost p) \<Rightarrow> (map_option (take cap) (disk w p), w)
          | Some (NDir _) \<Rightarrow> (None, w)
          | Some (NProvider _) \<Rightarrow> (None, w)
          | Some _ \<Rightarrow> (Some [], w)))"

definition read_symlink :: "fs \<Rightarrow> string \<Rightarrow> string option" where
  "read_symlink f path =
     (case resolve_at f root (dropWhile (\<lambda>c. c = CHR ''/'') path) False of
        None \<Rightarrow> None
      | Some i \<Rightarrow> (case get_node f i of Some (NSymlink t) \<Rightarrow> Some t | _ \<Rightarrow> None))"

definition path_crosses_provider :: "fs \<Rightarrow> string \<Rightarrow> bool" where
  "path_crosses_provider f path =
     (case resolve_place f root path True of RRemote _ _ _ \<Rightarrow> True | _ \<Rightarrow> False)"

end
