(* ===== verification/Vfs_Inv.thy ===== *)
theory Vfs_Inv
  imports Vfs_Core
begin

text \<open>
  The invariant of a filesystem and its preservation by the node-table operations and by the
  host's path-level operations. It says that the tables are in \<open>BTreeMap\<close> order, that ids
  come from the allocator (so none is ever reused), that the root is a directory which no
  entry names, that the node cap holds, and that descriptor counts are positive.
\<close>

subsection \<open>The invariant\<close>

definition node_ok :: "nat \<Rightarrow> node \<Rightarrow> bool" where
  "node_ok b n \<longleftrightarrow>
     (case n of NDir c \<Rightarrow> bt_sorted c \<and> (\<forall>nm j. map_of c nm = Some j \<longrightarrow> 0 < j \<and> j < b) | _ \<Rightarrow> True)"

definition table_inv :: "nat \<Rightarrow> (nat \<times> node) list \<Rightarrow> bool" where
  "table_inv b ns \<longleftrightarrow>
     bt_sorted ns \<and> (\<forall>i n. map_of ns i = Some n \<longrightarrow> i < b \<and> node_ok b n) \<and>
     (\<exists>c. map_of ns root = Some (NDir c))"

definition fs_inv :: "fs \<Rightarrow> bool" where
  "fs_inv f \<longleftrightarrow>
     table_inv (next_node f) (nodes f) \<and> length (nodes f) \<le> max_fs_nodes \<and>
     (\<forall>i c. map_of (open_fds f) i = Some c \<longrightarrow> 0 < c \<and> i < next_node f) \<and>
     (\<forall>i \<in> readonly f. i < next_node f)"

lemma fs_inv_default: "fs_inv fs_default"
  by (auto simp: fs_inv_def table_inv_def node_ok_def fs_default_def bt_sorted_Cons max_fs_nodes_def
      split: node.splits if_splits)

lemma node_ok_leaf [simp]:
  "node_ok b (NFile d)" "node_ok b (NShared s)" "node_ok b (NHost p)" "node_ok b (NRoFile a)"
  "node_ok b (NSymlink t)" "node_ok b NNull" "node_ok b NZero" "node_ok b NRandom"
  "node_ok b (NProvider k)" "node_ok b (NDir [])"
  by (simp_all add: node_ok_def)

lemma node_ok_mono: "node_ok b n \<Longrightarrow> b \<le> b' \<Longrightarrow> node_ok b' n"
  by (fastforce simp: node_ok_def split: node.splits)

lemma node_ok_Suc: "node_ok b n \<Longrightarrow> node_ok (Suc b) n"
  by (erule node_ok_mono) simp

lemma node_ok_children: "node_ok b (NDir c) \<Longrightarrow> map_of c nm = Some j \<Longrightarrow> 0 < j \<and> j < b"
  by (simp add: node_ok_def)

lemma node_ok_bt_insert: "node_ok b (NDir c) \<Longrightarrow> 0 < j \<Longrightarrow> j < b \<Longrightarrow> node_ok b (NDir (bt_insert nm j c))"
  by (auto simp: node_ok_def)

lemma node_ok_bt_remove: "node_ok b (NDir c) \<Longrightarrow> node_ok b (NDir (bt_remove nm c))"
  by (auto simp: node_ok_def)

lemma node_ok_ids: "node_ok b (NDir c) \<Longrightarrow> j \<in> set (map snd c) \<Longrightarrow> 0 < j \<and> j < b"
  by (auto simp: node_ok_def bt_sorted_distinct)

lemma fs_invD:
  assumes "fs_inv f"
  shows "bt_sorted (nodes f)"
    and "get_node f i = Some n \<Longrightarrow> i < next_node f"
    and "get_node f i = Some n \<Longrightarrow> node_ok (next_node f) n"
    and "is_dir f root"
    and "0 < next_node f"
    and "length (nodes f) \<le> max_fs_nodes"
  using assms by (auto simp: fs_inv_def table_inv_def is_dir_def)

lemma fs_inv_children:
  "fs_inv f \<Longrightarrow> get_node f p = Some (NDir c) \<Longrightarrow> map_of c nm = Some j \<Longrightarrow> 0 < j \<and> j < next_node f"
  by (metis fs_invD(3) node_ok_children)

subsection \<open>Frames\<close>

lemma set_node_simps [simp]:
  "nodes (set_node f i n) = bt_insert i n (nodes f)"
  "next_node (set_node f i n) = next_node f"
  "readonly (set_node f i n) = readonly f"
  "open_fds (set_node f i n) = open_fds f"
  by (simp_all add: set_node_def)

lemma insert_child_simps [simp]:
  "next_node (insert_child f p nm i) = next_node f"
  "readonly (insert_child f p nm i) = readonly f"
  "open_fds (insert_child f p nm i) = open_fds f"
  by (simp_all add: insert_child_def split: option.splits node.splits)

lemma remove_child_simps [simp]:
  "next_node (remove_child f p nm) = next_node f"
  "readonly (remove_child f p nm) = readonly f"
  "open_fds (remove_child f p nm) = open_fds f"
  by (simp_all add: remove_child_def split: option.splits node.splits)

lemma drop_subtree_simps [simp]:
  "next_node (drop_subtree f i) = next_node f"
  "readonly (drop_subtree f i) = readonly f"
  "open_fds (drop_subtree f i) = open_fds f"
  by (simp_all add: drop_subtree_def)

lemma remove_path_in_simps [simp]:
  "next_node (remove_path_in f p nm) = next_node f"
  "readonly (remove_path_in f p nm) = readonly f"
  "open_fds (remove_path_in f p nm) = open_fds f"
  by (simp_all add: remove_path_in_def split: option.splits node.splits)

lemma alloc_simps [simp]:
  "fst (alloc f n) = next_node f"
  "nodes (snd (alloc f n)) = bt_insert (next_node f) n (nodes f)"
  "next_node (snd (alloc f n)) = Suc (next_node f)"
  "readonly (snd (alloc f n)) = readonly f"
  "open_fds (snd (alloc f n)) = open_fds f"
  by (simp_all add: alloc_def Let_def)

lemma alloc_eq: "alloc f n = (next_node f, f\<lparr>next_node := Suc (next_node f), nodes := bt_insert (next_node f) n (nodes f)\<rparr>)"
  by (simp add: alloc_def Let_def)

lemma get_insert_child:
  "get_node (insert_child f p nm i) j =
     (if j = p then (case get_node f p of Some (NDir c) \<Rightarrow> Some (NDir (bt_insert nm i c)) | x \<Rightarrow> x)
      else get_node f j)"
  by (simp add: insert_child_def split: option.splits node.splits)

lemma get_remove_child:
  "get_node (remove_child f p nm) j =
     (if j = p then (case get_node f p of Some (NDir c) \<Rightarrow> Some (NDir (bt_remove nm c)) | x \<Rightarrow> x)
      else get_node f j)"
  by (simp add: remove_child_def split: option.splits node.splits)

lemma get_set_node: "get_node (set_node f i n) j = (if j = i then Some n else get_node f j)"
  by simp

subsection \<open>Dropping a subtree\<close>

lemma drop_nodes_le: "map_of (drop_nodes ns todo) i = Some n \<Longrightarrow> map_of ns i = Some n"
  by (induction ns todo rule: drop_nodes.induct) (auto split: option.splits if_splits)

lemma drop_nodes_sorted: "bt_sorted ns \<Longrightarrow> bt_sorted (drop_nodes ns todo)"
  by (induction ns todo rule: drop_nodes.induct) (auto split: option.splits)

lemma drop_nodes_length: "length (drop_nodes ns todo) \<le> length ns"
proof (induction ns todo rule: drop_nodes.induct)
  case (2 ns i todo)
  then show ?case
    using length_bt_remove_le [of i ns] by (auto split: option.splits intro: order_trans)
qed simp

text \<open>A node that no pending id and no directory of the table names is kept.\<close>

lemma drop_nodes_keep:
  "\<lbrakk>k \<notin> set todo; \<And>i n. map_of ns i = Some n \<Longrightarrow> k \<notin> set (child_ids n)\<rbrakk> \<Longrightarrow>
     map_of (drop_nodes ns todo) k = map_of ns k"
proof (induction ns todo rule: drop_nodes.induct)
  case (2 ns i todo)
  show ?case
  proof (cases "map_of ns i")
    case None
    with 2 show ?thesis by auto
  next
    case (Some n)
    have "map_of (drop_nodes (bt_remove i ns) (child_ids n @ todo)) k = map_of (bt_remove i ns) k"
      using Some "2.prems" by (intro "2.IH"(2)) (auto split: if_splits)
    with Some "2.prems" show ?thesis by simp
  qed
qed simp

lemma node_ok_child_ids: "node_ok b n \<Longrightarrow> j \<in> set (child_ids n) \<Longrightarrow> 0 < j \<and> j < b"
  using node_ok_ids [of b _ j] by (cases n) (simp_all add: child_ids_def)

lemma table_inv_drop:
  assumes "table_inv b ns" and "0 \<notin> set todo"
  shows "table_inv b (drop_nodes ns todo)"
proof -
  have "map_of (drop_nodes ns todo) 0 = map_of ns 0"
  proof (rule drop_nodes_keep [OF assms(2)])
    show "0 \<notin> set (child_ids n)" if "map_of ns i = Some n" for i n
      using that assms(1) node_ok_child_ids by (fastforce simp: table_inv_def)
  qed
  with assms(1) show ?thesis
    by (auto simp: table_inv_def drop_nodes_sorted dest: drop_nodes_le)
qed

lemma fs_inv_drop_subtree: "fs_inv f \<Longrightarrow> i \<noteq> root \<Longrightarrow> fs_inv (drop_subtree f i)"
  using table_inv_drop [of "next_node f" "nodes f" "[i]"] drop_nodes_length [of "nodes f" "[i]"]
  by (auto simp: fs_inv_def drop_subtree_def)

subsection \<open>Node-table operations\<close>

lemma fs_inv_set_node:
  assumes "fs_inv f" and "get_node f i \<noteq> None" and "node_ok (next_node f) n"
    and "i = root \<Longrightarrow> \<exists>c. n = NDir c"
  shows "fs_inv (set_node f i n)"
proof -
  have "length (bt_insert i n (nodes f)) = length (nodes f)"
    using assms(1,2) by (auto simp: length_bt_insert fs_invD(1))
  moreover have "table_inv (next_node f) (bt_insert i n (nodes f))"
    using assms by (auto simp: fs_inv_def table_inv_def)
  ultimately show ?thesis using assms(1) by (auto simp: fs_inv_def)
qed

lemma fs_inv_insert_child: "fs_inv f \<Longrightarrow> 0 < j \<Longrightarrow> j < next_node f \<Longrightarrow> fs_inv (insert_child f p nm j)"
  by (auto simp: insert_child_def split: option.splits node.splits
      intro!: fs_inv_set_node node_ok_bt_insert dest: fs_invD(3))

lemma fs_inv_remove_child: "fs_inv f \<Longrightarrow> fs_inv (remove_child f p nm)"
  by (auto simp: remove_child_def split: option.splits node.splits
      intro!: fs_inv_set_node node_ok_bt_remove dest: fs_invD(3))

lemma next_unused: "fs_inv f \<Longrightarrow> get_node f (next_node f) = None"
  using fs_invD(2) by (metis less_irrefl option.exhaust)

lemma fs_inv_alloc:
  assumes "fs_inv f" and "\<not> at_capacity f" and "node_ok (Suc (next_node f)) n"
  shows "fs_inv (snd (alloc f n))"
proof -
  have len: "length (bt_insert (next_node f) n (nodes f)) = Suc (length (nodes f))"
    using assms(1) by (simp add: length_bt_insert fs_invD(1) next_unused)
  have "table_inv (Suc (next_node f)) (bt_insert (next_node f) n (nodes f))"
    using assms(1,3) by (auto simp: fs_inv_def table_inv_def less_SucI node_ok_Suc)
  with assms(1,2) len show ?thesis
    by (auto simp: fs_inv_def at_capacity_def less_SucI)
qed

lemma add_child_eq: "add_child f p nm n = insert_child (snd (alloc f n)) p nm (next_node f)"
  by (simp add: add_child_def alloc_def Let_def)

lemma fs_inv_add_child:
  "fs_inv f \<Longrightarrow> \<not> at_capacity f \<Longrightarrow> node_ok (Suc (next_node f)) n \<Longrightarrow> fs_inv (add_child f p nm n)"
  unfolding add_child_eq
  by (rule fs_inv_insert_child) (auto simp: fs_inv_alloc fs_invD(5))

lemma add_child_simps [simp]:
  "next_node (add_child f p nm n) = Suc (next_node f)"
  "readonly (add_child f p nm n) = readonly f"
  "open_fds (add_child f p nm n) = open_fds f"
  by (simp_all add: add_child_eq)

lemma get_add_child:
  assumes "fs_inv f" and "get_node f p = Some (NDir c)"
  shows "get_node (add_child f p nm n) j =
    (if j = p then Some (NDir (bt_insert nm (next_node f) c))
     else if j = next_node f then Some n else get_node f j)"
  using assms next_unused [OF assms(1)] by (auto simp: add_child_eq get_insert_child)

lemma fs_inv_remove_path_in: "fs_inv f \<Longrightarrow> fs_inv (remove_path_in f p nm)"
  by (auto simp: remove_path_in_def split: option.splits node.splits
      intro!: fs_inv_drop_subtree fs_inv_remove_child dest: fs_inv_children)

lemma fs_inv_open_ref: "fs_inv f \<Longrightarrow> i < next_node f \<Longrightarrow> fs_inv (open_ref f i)"
  by (auto simp: fs_inv_def open_ref_def split: option.splits if_splits)

lemma fs_inv_close_ref: "fs_inv f \<Longrightarrow> fs_inv (close_ref f i)"
proof -
  assume f: "fs_inv f"
  have "fs_inv (f\<lparr>open_fds := bt_remove i (open_fds f)\<rparr>)"
    using f by (auto simp: fs_inv_def split: if_splits)
  moreover have "fs_inv (f\<lparr>open_fds := bt_insert i (c - 1) (open_fds f)\<rparr>)"
    if "map_of (open_fds f) i = Some c" "c - 1 \<noteq> 0" for c
    using f that by (auto simp: fs_inv_def split: if_splits)
  ultimately show ?thesis
    using f by (auto simp: close_ref_def Let_def fs_inv_drop_subtree split: option.splits)
qed

lemma fs_inv_copy_up: "fs_inv f \<Longrightarrow> fs_inv (fst (copy_up f w i))"
  using fs_invD(4) [of f]
  by (auto simp: copy_up_def is_dir_def case_prod_beta split: option.splits node.splits
      intro!: fs_inv_set_node)

subsection \<open>Path-level operations of the host\<close>

lemma fs_inv_ensure_dirs: "fs_inv f \<Longrightarrow> fs_inv (fst (ensure_dirs f cur comps))"
proof (induction f cur comps rule: ensure_dirs.induct)
  case (2 f cur name comps)
  have "fs_inv (add_child f cur name (NDir []))" if "\<not> at_capacity f"
    using fs_inv_add_child [OF 2(3) that] by simp
  with 2 show ?case
    by (auto split: option.splits node.splits)
qed simp

lemma fs_inv_ensure_dir_path: "fs_inv f \<Longrightarrow> fs_inv (fst (ensure_dir_path f path))"
  by (simp add: ensure_dir_path_def fs_inv_ensure_dirs)

lemma length_remove_child: "bt_sorted (nodes f) \<Longrightarrow> length (nodes (remove_child f p nm)) = length (nodes f)"
  by (auto simp: remove_child_def length_bt_insert split: option.splits node.splits)

lemma at_capacity_remove: "fs_inv f \<Longrightarrow> \<not> at_capacity f \<Longrightarrow> \<not> at_capacity (remove_path_in f p nm)"
proof -
  assume f: "fs_inv f" and cap: "\<not> at_capacity f"
  have "length (nodes (remove_path_in f p nm)) \<le> length (nodes f)"
    using length_remove_child [OF fs_invD(1) [OF f], of p nm]
      drop_nodes_length [of "nodes (remove_child f p nm)"]
    by (auto simp: remove_path_in_def drop_subtree_def simp del: drop_nodes.simps
        split: option.splits node.splits)
  with cap show ?thesis by (simp add: at_capacity_def)
qed

lemma mount_node_at_cases:
  assumes "fs_inv f" and "node_ok (Suc (next_node (remove_path_in f1 parent nm))) n"
    and "ensure_dir_path f dirs = (f1, Some parent)" and "\<not> at_capacity f1"
  shows "fs_inv (add_child (remove_path_in f1 parent nm) parent nm n)"
  using assms fs_inv_ensure_dir_path [OF assms(1), of dirs]
  by (intro fs_inv_add_child fs_inv_remove_path_in at_capacity_remove) auto

lemma fs_inv_readonly:
  "fs_inv f \<Longrightarrow> i < next_node f \<Longrightarrow> r = readonly f \<Longrightarrow> fs_inv (f\<lparr>readonly := insert i r\<rparr>)"
  by (auto simp: fs_inv_def)

lemma fs_inv_mount_node_at:
  assumes "fs_inv f" and "\<And>b. node_ok b n"
  shows "fs_inv (mount_node_at f at n ro)"
proof -
  have "fs_inv f1" if "ensure_dir_path f d = (f1, r)" for f1 d r
    using fs_inv_ensure_dir_path [OF assms(1), of d] that by simp
  then show ?thesis
    using assms
    by (auto simp: mount_node_at_def Let_def split: option.splits prod.splits
        intro!: fs_inv_readonly mount_node_at_cases)
qed

lemma fs_inv_remove_path: "fs_inv f \<Longrightarrow> fs_inv (remove_path f path)"
  by (auto simp: remove_path_def fs_inv_remove_path_in split: option.splits)

lemma fs_inv_drop_all:
  "fs_inv f \<Longrightarrow> 0 \<notin> set ids \<Longrightarrow> fs_inv (fold (\<lambda>i g. drop_subtree g i) ids f)"
  by (induction ids arbitrary: f) (auto simp: fs_inv_drop_subtree)

lemma fs_inv_clear_dir_at: "fs_inv f \<Longrightarrow> fs_inv (clear_dir_at f path)"
  by (auto simp: clear_dir_at_def split: option.splits node.splits
      intro!: fs_inv_drop_all fs_inv_set_node dest: fs_invD(3) node_ok_ids)

lemma fs_inv_ensure_device:
  "fs_inv f \<Longrightarrow> \<forall>b. node_ok b (snd nk) \<Longrightarrow> fs_inv (ensure_device dev nk f)"
  using fs_inv_add_child [of f "snd nk" dev "fst nk"]
  by (auto simp: ensure_device_def Let_def)

lemma fs_inv_ensure_devices:
  "fs_inv f \<Longrightarrow> \<forall>nk \<in> set nks. \<forall>b. node_ok b (snd nk) \<Longrightarrow> fs_inv (fold (ensure_device dev) nks f)"
  by (induction nks arbitrary: f) (auto simp: fs_inv_ensure_device)

lemma fs_inv_ensure_standard_devices: "fs_inv f \<Longrightarrow> fs_inv (ensure_standard_devices f)"
  using fs_inv_ensure_dir_path [of f "''dev''"]
  by (auto simp: ensure_standard_devices_def split: prod.splits option.splits
      intro!: fs_inv_ensure_device)

lemmas fs_inv_host_ops =
  fs_inv_mount_node_at fs_inv_remove_path fs_inv_clear_dir_at fs_inv_ensure_standard_devices
  fs_inv_ensure_dir_path

end
