(* ===== verification/Vfs_Path.thy ===== *)
theory Vfs_Path
  imports Vfs_Inv
begin

text \<open>
  Path resolution: \<open>components\<close>, the two walks (\<open>resolve_at\<close> and \<open>resolve_place\<close>), and what
  the host's mounts make of a path. The abstract specification of a walk that crosses no
  symlink and no \<open>..\<close> is the relation \<open>path_to\<close>: a chain of directory entries.
\<close>

subsection \<open>Components\<close>

definition clean :: "string \<Rightarrow> bool" where
  "clean c \<longleftrightarrow> c \<noteq> [] \<and> c \<noteq> ''.'' \<and> CHR ''/'' \<notin> set c"

lemma components_clean: "c \<in> set (components path) \<Longrightarrow> clean c"
  by (auto simp: components_def clean_def dest: split_on_no_sep)

lemma components_join: "(\<And>c. c \<in> set cs \<Longrightarrow> clean c) \<Longrightarrow> components (join_with ''/'' cs) = cs"
proof (cases "cs = []")
  case True
  then show ?thesis by (simp add: components_def)
next
  case False
  assume clean: "\<And>c. c \<in> set cs \<Longrightarrow> clean c"
  then have "split_on CHR ''/'' (join_with [CHR ''/''] cs) = cs"
    using False by (intro split_on_join) (auto simp: clean_def)
  then show ?thesis
    using clean by (auto simp: components_def clean_def filter_id_conv)
qed

text \<open>
  Normalising a path is idempotent: the components of a path, joined with slashes and
  split again, are the same components, whatever empty, dot or repeated-slash parts it had.
\<close>

theorem components_normal_form:
  "components (join_with ''/'' (components path)) = components path"
  by (rule components_join) (rule components_clean)

lemma is_absolute_join: "(\<And>c. c \<in> set cs \<Longrightarrow> clean c) \<Longrightarrow> \<not> is_absolute (join_with ''/'' cs)"
proof (cases cs)
  case (Cons c cs')
  assume "\<And>c. c \<in> set cs \<Longrightarrow> clean c"
  with Cons obtain x xs where "c = x # xs" "x \<noteq> CHR ''/''"
    by (cases c) (fastforce simp: clean_def)+
  with Cons show ?thesis by (cases cs') (simp_all add: is_absolute_def)
qed (simp add: is_absolute_def)

subsection \<open>A walk ends at an existing node\<close>

lemma walk_exists:
  "\<lbrakk>walk f ff hops todo cur anc = Some i; get_node f root \<noteq> None; get_node f cur \<noteq> None;
    \<forall>a \<in> set anc. get_node f a \<noteq> None\<rbrakk> \<Longrightarrow> get_node f i \<noteq> None"
proof (induction f ff hops todo cur anc rule: walk.induct)
  case (2 f ff hops name todo cur anc)
  have anc': "\<forall>a \<in> set (tl anc). get_node f a \<noteq> None"
    using "2.prems"(4) by (cases anc) auto
  have up: "get_node f (case anc of [] \<Rightarrow> root | a # _ \<Rightarrow> a) \<noteq> None"
    using "2.prems"(2,4) by (cases anc) auto
  show ?case
  proof (cases "name = ''..''")
    case True
    with "2.prems" "2.IH"(1) up anc' show ?thesis by simp
  next
    case False
    then show ?thesis
      using "2.prems" "2.IH"(2-)
      by (auto simp: look_def split: option.splits node.splits if_splits)
  qed
qed simp

lemma resolve_at_exists:
  "fs_inv f \<Longrightarrow> get_node f start \<noteq> None \<Longrightarrow> resolve_at f start path ff = Some i \<Longrightarrow> get_node f i \<noteq> None"
  using fs_invD(4) [of f]
  by (auto simp: resolve_at_def walk_start_def is_dir_def split: if_splits option.splits node.splits
      dest!: walk_exists)

lemma resolve_parent_dir: "resolve_parent f start path = Some (p, nm) \<Longrightarrow> \<exists>c. get_node f p = Some (NDir c)"
  by (auto simp: resolve_parent_def is_dir_def split: option.splits if_splits node.splits)

subsection \<open>The two resolvers agree\<close>

lemma walk_place_agrees:
  "(\<forall>i. walk_place f ff hops todo cur anc = RLocal i \<longrightarrow> walk f ff hops todo cur anc = Some i) \<and>
   (walk_place f ff hops todo cur anc = RMissing \<longrightarrow> walk f ff hops todo cur anc = None)"
proof (induction f ff hops todo cur anc rule: walk_place.induct)
  case (2 f ff hops name todo cur anc)
  show ?case
  proof (cases "name = ''..''")
    case True
    with "2.IH"(1) show ?thesis by simp
  next
    case False
    then show ?thesis
      using "2.IH"(2-)
      by (auto simp: provider_of_def link_target_def split: option.splits node.splits prod.splits)
  qed
qed simp

text \<open>
  C25: the two path resolvers agree wherever no provider mount is crossed: when the boundary-
  aware walk ends at a local node, the plain walk ends at that node, and when it ends nowhere,
  so does the plain walk, symlinks, \<open>..\<close> and the hop limit included.
\<close>

theorem resolvers_agree:
  "(resolve_place f start path ff = RLocal i \<longrightarrow> resolve_at f start path ff = Some i) \<and>
   (resolve_place f start path ff = RMissing \<longrightarrow> resolve_at f start path ff = None)"
  using walk_place_agrees [of f ff 0 "components path" "walk_start start path" "[]"]
  by (cases "Option.bind (get_node f (walk_start start path)) provider_of")
    (simp_all add: resolve_place_def resolve_at_def Let_def)

theorem resolvers_agree_witness:
  "resolve_place fs_default root ''x'' True = RMissing \<and> resolve_at fs_default root ''x'' True = None"
  using resolvers_agree [of fs_default root "''x''" True 0]
  by (simp add: resolve_place_def fs_default_def components_def walk_start_def look_def provider_of_def)

text \<open>A walk depends on the node table alone.\<close>

lemma walk_cong: "nodes f = nodes g \<Longrightarrow> walk f ff hops todo cur anc = walk g ff hops todo cur anc"
proof (induction f ff hops todo cur anc rule: walk.induct)
  case (2 f ff hops name todo cur anc)
  have look: "look f cur name = look g cur name"
    unfolding look_def "2.prems" ..
  show ?case
    unfolding walk.simps look
    using "2.IH" "2.prems" look by (auto split: option.split prod.split)
qed simp

subsection \<open>Plain paths\<close>

inductive path_to :: "fs \<Rightarrow> nat \<Rightarrow> string list \<Rightarrow> nat \<Rightarrow> bool" for f where
  here: "path_to f cur [] cur"
| down: "\<lbrakk>nm \<noteq> ''..''; get_node f cur = Some (NDir c); map_of c nm = Some nx; get_node f nx = Some n;
          names \<noteq> [] \<Longrightarrow> is_dir f nx; path_to f nx names i\<rbrakk> \<Longrightarrow> path_to f cur (nm # names) i"

inductive_simps path_to_Nil [simp]: "path_to f cur [] i"
inductive_simps path_to_Cons: "path_to f cur (nm # names) i"

lemma walk_path_to:
  "path_to f cur names i \<Longrightarrow> \<not> ff \<or> (\<forall>t. get_node f i \<noteq> Some (NSymlink t)) \<Longrightarrow>
     walk f ff hops names cur anc = Some i"
proof (induction arbitrary: anc rule: path_to.induct)
  case (here cur)
  show ?case by simp
next
  case (down nm cur c nx n names i)
  have "names = [] \<Longrightarrow> i = nx" using down.hyps(6) by auto
  with down show ?case
    by (cases n; cases "names = []") (auto simp: look_def link_target_def is_dir_def split: option.splits node.splits)
qed

lemma path_to_snoc:
  "path_to f cur names p \<Longrightarrow> is_dir f p \<Longrightarrow> get_node f p = Some (NDir c) \<Longrightarrow> nm \<noteq> ''..'' \<Longrightarrow>
     map_of c nm = Some i \<Longrightarrow> get_node f i = Some n \<Longrightarrow> path_to f cur (names @ [nm]) i"
proof (induction rule: path_to.induct)
  case (here cur)
  then show ?case by (auto simp: path_to_Cons)
next
  case (down nm' cur c' nx n' names p)
  then have "is_dir f nx" by (cases "names = []") auto
  with down show ?case by (auto intro!: path_to.down)
qed

text \<open>Entries and directories that survive a change keep every plain path to a directory.\<close>

definition dir_edge :: "fs \<Rightarrow> nat \<Rightarrow> string \<Rightarrow> nat \<Rightarrow> bool" where
  "dir_edge f q nm i \<longleftrightarrow> (\<exists>c. get_node f q = Some (NDir c) \<and> map_of c nm = Some i)"

definition keeps_dirs :: "fs \<Rightarrow> fs \<Rightarrow> bool" where
  "keeps_dirs f g \<longleftrightarrow>
     (\<forall>q nm i. dir_edge f q nm i \<longrightarrow> is_dir f i \<longrightarrow> dir_edge g q nm i \<and> is_dir g i)"

lemma is_dirE: "is_dir f i \<Longrightarrow> (\<And>c. get_node f i = Some (NDir c) \<Longrightarrow> P) \<Longrightarrow> P"
  by (auto simp: is_dir_def split: option.splits node.splits)

lemma is_dirI: "get_node f i = Some (NDir c) \<Longrightarrow> is_dir f i"
  by (simp add: is_dir_def)

lemma path_to_edge:
  "dir_edge f cur nm nx \<Longrightarrow> is_dir f nx \<Longrightarrow> nm \<noteq> ''..'' \<Longrightarrow> path_to f nx names i \<Longrightarrow>
     path_to f cur (nm # names) i"
  by (auto simp: dir_edge_def elim!: is_dirE intro!: path_to.down is_dirI)

lemma keeps_dirs_refl: "keeps_dirs f f"
  by (simp add: keeps_dirs_def)

lemma keeps_dirs_trans: "keeps_dirs f g \<Longrightarrow> keeps_dirs g h \<Longrightarrow> keeps_dirs f h"
  unfolding keeps_dirs_def by blast

subsection \<open>Making directories\<close>

lemma is_dir_add_child:
  "fs_inv f \<Longrightarrow> get_node f p = Some (NDir c) \<Longrightarrow> is_dir f i \<Longrightarrow> is_dir (add_child f p nm n) i"
  using next_unused [of f]
  by (auto simp: is_dir_def get_add_child split: option.splits node.splits)

lemma keeps_dirs_add_child:
  assumes "fs_inv f" and "get_node f p = Some (NDir c)" and "map_of c nm = None"
  shows "keeps_dirs f (add_child f p nm n)"
  using assms next_unused [OF assms(1)] is_dir_add_child [OF assms(1,2)]
  by (auto simp: keeps_dirs_def dir_edge_def get_add_child)

lemma ensure_dirs_path:
  "\<lbrakk>ensure_dirs f cur names = (f', Some p); fs_inv f; is_dir f cur; ''..'' \<notin> set names\<rbrakk> \<Longrightarrow>
     path_to f' cur names p \<and> is_dir f' p \<and> keeps_dirs f f'"
proof (induction f cur names rule: ensure_dirs.induct)
  case (1 f cur)
  then show ?case by (auto simp: keeps_dirs_refl)
next
  case (2 f cur name comps)
  from "2.prems"(3) obtain c where cur: "get_node f cur = Some (NDir c)" by (rule is_dirE)
  show ?case
  proof (cases "map_of c name")
    case (Some i)
    with "2.prems"(1) cur have i: "is_dir f i" and rest: "ensure_dirs f i comps = (f', Some p)"
      by (auto split: if_splits)
    have IH: "path_to f' i comps p \<and> is_dir f' p \<and> keeps_dirs f f'"
      using "2.IH"(2) [OF cur refl Some i rest] "2.prems" i by simp
    moreover have "dir_edge f cur name i" using cur Some by (simp add: dir_edge_def)
    ultimately show ?thesis
      using i "2.prems"(4) by (auto simp: keeps_dirs_def intro: path_to_edge)
  next
    case None
    define g where "g = add_child f cur name (NDir [])"
    from "2.prems"(1) cur None have cap: "\<not> at_capacity f"
      and rest: "ensure_dirs g (next_node f) comps = (f', Some p)"
      by (auto simp: g_def split: if_splits)
    have edge: "fs_inv g" "is_dir g (next_node f)" "dir_edge g cur name (next_node f)"
      using fs_inv_add_child [OF "2.prems"(2) cap] next_unused [OF "2.prems"(2)] cur
      by (auto simp: g_def is_dir_def dir_edge_def get_add_child [OF "2.prems"(2) cur])
    have IH: "path_to f' (next_node f) comps p \<and> is_dir f' p \<and> keeps_dirs g f'"
      using "2.IH"(1) [OF cur refl None cap] rest edge "2.prems"(4) by (simp add: g_def)
    with edge have "path_to f' cur (name # comps) p"
      using "2.prems"(4) by (auto simp: keeps_dirs_def intro: path_to_edge)
    with IH keeps_dirs_add_child [OF "2.prems"(2) cur None] show ?thesis
      by (auto simp: g_def intro: keeps_dirs_trans)
  qed
qed

lemma ensure_dirs_readonly: "readonly (fst (ensure_dirs f cur names)) = readonly f"
  by (induction f cur names rule: ensure_dirs.induct) (auto split: option.splits node.splits)

subsection \<open>Mounting\<close>

text \<open>Removing an entry that is no non-empty directory drops exactly its node.\<close>

lemma drop_leaf:
  assumes "\<And>n. map_of ns i = Some n \<Longrightarrow> child_ids n = []"
  shows "drop_nodes ns [i] = bt_remove i ns"
proof (cases "map_of ns i")
  case None
  then have "bt_remove i ns = ns" by (induction ns) (auto split: if_splits)
  with None show ?thesis by simp
next
  case (Some n)
  with assms show ?thesis by simp
qed

lemma remove_path_in_leaf:
  assumes "fs_inv f" and "get_node f p = Some (NDir c)"
    and "\<forall>i n. map_of c nm = Some i \<longrightarrow> get_node f i = Some n \<longrightarrow> child_ids n = []"
    and "map_of c nm \<noteq> Some p"
  shows "get_node (remove_path_in f p nm) j =
    (if j = p then Some (NDir (bt_remove nm c))
     else if map_of c nm = Some j then None else get_node f j)"
proof (cases "map_of c nm")
  case None
  have "bt_remove nm c = c"
    using fs_invD(3) [OF assms(1,2)] None by (intro bt_ext) (auto simp: node_ok_def)
  with None assms(2) show ?thesis by (simp add: remove_path_in_def)
next
  case (Some i)
  have "get_node (remove_child f p nm) i = get_node f i"
    using assms(4) Some by (auto simp: get_remove_child)
  then have "drop_nodes (nodes (remove_child f p nm)) [i] = bt_remove i (nodes (remove_child f p nm))"
    using assms(3) Some by (intro drop_leaf) simp
  then have "nodes (remove_path_in f p nm) = bt_remove i (nodes (remove_child f p nm))"
    using assms(2) Some by (simp add: remove_path_in_def drop_subtree_def del: drop_nodes.simps)
  with Some assms(2,4) show ?thesis by (simp add: get_remove_child)
qed

text \<open>
  Replacing the entry \<open>nm\<close> of \<open>p\<close> (which is no non-empty directory) by a fresh node keeps
  the path to \<open>p\<close>: no directory on the way is the one replaced, since it has a child.
\<close>

lemma path_to_replace:
  assumes "path_to f cur names p'" and "is_dir f p'" and "p' = p"
    and leaf: "\<And>i n. dir_edge f p nm i \<Longrightarrow> get_node f i = Some n \<Longrightarrow> child_ids n = [] \<and> i \<noteq> p"
    and keep: "\<And>q x i. dir_edge f q x i \<Longrightarrow> is_dir f i \<Longrightarrow> (q, x) \<noteq> (p, nm) \<Longrightarrow>
      \<not> dir_edge f p nm q \<Longrightarrow> \<not> dir_edge f p nm i \<Longrightarrow> dir_edge g q x i \<and> is_dir g i"
  shows "path_to g cur names p'"
  using assms(1-3)
proof (induction rule: path_to.induct)
  case (down x cur c nx n names p')
  have nx: "is_dir f nx" using down by (cases "names = []") auto
  have has_child: "\<not> dir_edge f p nm q" if "get_node f q = Some (NDir d)" "map_of d y = Some z" for q d y z
    using leaf [of q "NDir d"] that by (auto simp: child_ids_def)
  have "\<not> dir_edge f p nm nx"
  proof (cases names)
    case Nil
    with down have "nx = p" by simp
    with leaf [of p] nx show ?thesis by (auto elim!: is_dirE)
  next
    case (Cons y ys)
    with down.hyps(6) have "\<exists>d z. get_node f nx = Some (NDir d) \<and> map_of d y = Some z"
      by (auto simp: path_to_Cons)
    with has_child show ?thesis by blast
  qed
  moreover have "\<not> dir_edge f p nm cur" using has_child down.hyps(2,3) .
  moreover have edge: "dir_edge f cur x nx" using down.hyps(2,3) by (auto simp: dir_edge_def)
  moreover have "(cur, x) \<noteq> (p, nm)" using calculation by auto
  ultimately have "dir_edge g cur x nx \<and> is_dir g nx" using keep nx by blast
  with down show ?case by (auto intro: path_to_edge)
qed simp

text \<open>
  A mount takes effect at its path: when the parent directories can be made and there is
  room, a mount over nothing, a file or an empty directory makes the path resolve (without
  following a final link) to a fresh node with exactly the mounted content, read-only exactly
  when asked, and no other node's read-only mark changes.
\<close>

theorem mount_takes_effect:
  assumes f: "fs_inv f" and at: "components at = dirs @ [nm]" and up: "''..'' \<notin> set (dirs @ [nm])"
    and ens: "ensure_dir_path f (join_with ''/'' dirs) = (f1, Some p)" and cap: "\<not> at_capacity f1"
    and leaf: "\<And>i m. look f1 p nm = Some (i, m) \<Longrightarrow> child_ids m = []"
  shows "resolve_at (mount_node_at f at n ro) root at False = Some (next_node f1) \<and>
    get_node (mount_node_at f at n ro) (next_node f1) = Some n \<and>
    readonly (mount_node_at f at n ro) = (if ro then insert (next_node f1) (readonly f) else readonly f)"
proof -
  have "components (join_with ''/'' dirs) = dirs"
    using components_clean [of _ at] at by (intro components_join) auto
  with ens have ens': "ensure_dirs f root dirs = (f1, Some p)"
    by (simp add: ensure_dir_path_def)
  have path: "path_to f1 root dirs p" and dirp: "is_dir f1 p"
    using ensure_dirs_path [OF ens' f] up fs_invD(4) [OF f] by auto
  from dirp obtain c where c: "get_node f1 p = Some (NDir c)" by (rule is_dirE)
  have f1: "fs_inv f1" using fs_inv_ensure_dir_path [OF f, of "join_with ''/'' dirs"] ens by simp
  have ro1: "readonly f1 = readonly f" using ensure_dirs_readonly [of f root dirs] ens' by simp
  have leaf': "child_ids m = []" if "map_of c nm = Some i" "get_node f1 i = Some m" for i m
    using leaf [of i m] that c by (simp add: look_def)
  then have leaf'': "\<forall>i m. map_of c nm = Some i \<longrightarrow> get_node f1 i = Some m \<longrightarrow> child_ids m = []"
    by blast
  have self: "map_of c nm \<noteq> Some p"
    using leaf' [of p "NDir c"] c by (auto simp: child_ids_def dest: map_of_SomeD)
  define g where "g = remove_path_in f1 p nm"
  define h where "h = add_child g p nm n"
  note rem = remove_path_in_leaf [OF f1 c leaf'' self, folded g_def]
  have g: "fs_inv g" "get_node g p = Some (NDir (bt_remove nm c))" "next_node g = next_node f1"
    using f1 rem [of p] by (auto simp: g_def fs_inv_remove_path_in)
  have h: "get_node h j = (if j = p then Some (NDir (bt_insert nm (next_node f1) (bt_remove nm c)))
      else if j = next_node f1 then Some n else if map_of c nm = Some j then None else get_node f1 j)" for j
    using get_add_child [OF g(1,2), of nm n j] g(3) rem [of j] by (simp add: h_def)
  have fresh: "next_node f1 \<noteq> p" using next_unused [OF f1] c by auto
  have "path_to h root dirs p"
  proof (rule path_to_replace [OF path dirp refl, where nm = nm])
    show "child_ids m = [] \<and> i \<noteq> p" if "dir_edge f1 p nm i" "get_node f1 i = Some m" for i m
      using that c leaf' self by (auto simp: dir_edge_def)
    show "dir_edge h q x i \<and> is_dir h i"
      if "dir_edge f1 q x i" "is_dir f1 i" "(q, x) \<noteq> (p, nm)" "\<not> dir_edge f1 p nm q" "\<not> dir_edge f1 p nm i"
      for q x i
      using that c next_unused [OF f1] by (auto simp: dir_edge_def is_dir_def h)
  qed
  then have "path_to h root (dirs @ [nm]) (next_node f1)"
    using up fresh by (intro path_to_snoc) (auto simp: h is_dir_def)
  then have "walk h False 0 (components at) root [] = Some (next_node f1)"
    unfolding at by (rule walk_path_to) simp
  moreover have "mount_node_at f at n ro =
      (if ro then h\<lparr>readonly := insert (next_node f1) (readonly h)\<rparr> else h)"
    using at ens cap by (simp add: mount_node_at_def g_def h_def Let_def)
  moreover have "readonly h = readonly f" by (simp add: h_def g_def ro1)
  ultimately show ?thesis
    using fresh h [of "next_node f1"] walk_cong [of "h\<lparr>readonly := insert (next_node f1) (readonly h)\<rparr>" h]
    by (simp add: resolve_at_def walk_start_def)
qed

theorem mount_takes_effect_witness:
  "resolve_at (mount_node_at fs_default ''/vol/a'' (NShared 7) True) root ''/vol/a'' False = Some 2 \<and>
   get_node (mount_node_at fs_default ''/vol/a'' (NShared 7) True) 2 = Some (NShared 7) \<and>
   readonly (mount_node_at fs_default ''/vol/a'' (NShared 7) True) = {2}"
proof -
  define f1 where "f1 = add_child fs_default root ''vol'' (NDir [])"
  have f1: "nodes f1 = [(0, NDir [(''vol'', 1)]), (1, NDir [])]" "next_node f1 = 2"
    by (simp_all add: f1_def add_child_def alloc_def insert_child_def set_node_def fs_default_def)
  have "ensure_dir_path fs_default (join_with ''/'' [''vol'']) = (f1, Some 1)"
    by (simp add: ensure_dir_path_def components_def f1_def at_capacity_def max_fs_nodes_def fs_default_def)
  moreover have "readonly fs_default = {}" by (simp add: fs_default_def)
  moreover have "\<not> at_capacity f1" by (simp add: at_capacity_def max_fs_nodes_def f1)
  moreover have "components ''/vol/a'' = [''vol''] @ [''a'']" by (simp add: components_def)
  ultimately show ?thesis
    using mount_takes_effect [of fs_default "''/vol/a''" "[''vol'']" "''a''" f1 1 "NShared 7" True]
    by (simp add: fs_inv_default look_def f1)
qed

end
