(* ===== verification/Vfs_Ops.thy ===== *)
theory Vfs_Ops
  imports Vfs_Path
begin

text \<open>
  The guest's side of \<open>crates/wk-vfs/src/lib.rs\<close>: descriptors and the operations of
  \<open>wasi:filesystem\<close> on them, one definition per method. A method returns its result
  (\<open>Inl\<close> the error code), the filesystem and the world, those it can change.

  Offsets and lengths that a guest passes are \<open>u64\<close> words. \<open>usize\<close> is 64 bits wide, so
  \<open>usize::try_from\<close> never fails and is \<open>unat\<close>.
\<close>

subsection \<open>Errors, descriptors, streams\<close>

datatype error_code =
    NoEntry | NotDirectory | IsDirectory | Exist | NotPermitted | FileTooLarge | Unsupported
  | Io | CrossDevice | InsufficientSpace | NotEmpty | Invalid

type_synonym 'a res = "error_code + 'a"

datatype desc_type = TDirectory | TSymbolicLink | TCharacterDevice | TRegularFile

record remote_desc =
  rd_conn :: nat
  rd_generation :: nat
  rd_path :: string
  rd_handle :: "u64 option"
  rd_kind :: fs_entry_kind
  rd_readonly :: bool

definition live :: "env \<Rightarrow> remote_desc \<Rightarrow> bool" where
  "live e r \<longleftrightarrow> env_gen e (rd_conn r) = rd_generation r"

datatype desc_place = Local nat | Remote remote_desc

record desc_stat =
  ds_type :: desc_type
  ds_size :: u64
  ds_mtime :: "(nat \<times> nat) option"

datatype kind =
    KFile | KRo bytes | KShared nat | KHost string | KDir | KNull | KZero | KRandom | KMissing

datatype in_stream =
    InProvider remote_desc u64 u64  \<comment> \<open>handle, offset\<close>
  | InZero
  | InRandom
  | InFile bytes nat  \<comment> \<open>snapshot, position\<close>

datatype out_stream =
    OutProvider remote_desc u64 u64
  | OutVfs nat u64
  | OutShared nat u64
  | OutHost string u64
  | OutNull

record open_flags =
  o_create :: bool
  o_truncate :: bool
  o_exclusive :: bool
  o_directory :: bool

fun provider_err :: "fs_error \<Rightarrow> error_code" where
  "provider_err FeNoEntry = NoEntry"
| "provider_err FeNotDir = NotDirectory"
| "provider_err FeIsDir = IsDirectory"
| "provider_err FeExist = Exist"
| "provider_err FeNotPermitted = NotPermitted"
| "provider_err FeTooLarge = FileTooLarge"
| "provider_err FeUnsupported = Unsupported"
| "provider_err FeIo = Io"
| "provider_err FeDead = Io"
| "provider_err FeTimeout = Io"

definition remote_join :: "string \<Rightarrow> string \<Rightarrow> string" where
  "remote_join base path = join_with ''/'' (components base @ components path)"

fun entry_type :: "fs_entry_kind \<Rightarrow> desc_type" where
  "entry_type EkDir = TDirectory"
| "entry_type EkFile = TRegularFile"

definition node_type :: "fs \<Rightarrow> nat \<Rightarrow> desc_type" where
  "node_type f i =
     (case get_node f i of
        Some (NDir _) \<Rightarrow> TDirectory
      | Some (NProvider _) \<Rightarrow> TDirectory
      | Some (NSymlink _) \<Rightarrow> TSymbolicLink
      | Some NNull \<Rightarrow> TCharacterDevice
      | Some NZero \<Rightarrow> TCharacterDevice
      | Some NRandom \<Rightarrow> TCharacterDevice
      | _ \<Rightarrow> TRegularFile)"

definition is_readonly :: "fs \<Rightarrow> nat \<Rightarrow> bool" where
  "is_readonly f i \<longleftrightarrow> i \<in> readonly f"

subsection \<open>Bytes\<close>

definition max_file_size :: nat where
  "max_file_size = 256 * 1024 * 1024"

definition device_read_chunk :: nat where
  "device_read_chunk = 1048576"

definition file_read_chunk :: nat where
  "file_read_chunk = 32 * 1024"

definition vec_resize :: "bytes \<Rightarrow> nat \<Rightarrow> bytes" where
  "vec_resize d n = take n d @ replicate (n - length d) 0"

definition write_at :: "bytes \<Rightarrow> u64 \<Rightarrow> bytes \<Rightarrow> bytes option" where
  "write_at d offset b =
     (let start = unat offset; end' = start + length b in
      if end' \<ge> 2 ^ 64 then None
      else if end' > max_file_size then None
      else
        let d' = (if length d < end' then vec_resize d end' else d)
        in Some (take start d' @ b @ drop end' d'))"

definition read_at :: "bytes \<Rightarrow> u64 \<Rightarrow> u64 \<Rightarrow> bytes \<times> bool" where
  "read_at d offset len =
     (let start = min (unat offset) (length d);
          end' = min (min (start + unat len) (2 ^ 64 - 1)) (length d)
      in (take (end' - start) (drop start d), end' \<ge> length d))"

definition from_offset :: "bytes \<Rightarrow> u64 \<Rightarrow> bytes" where
  "from_offset d offset = drop (min (unat offset) (length d)) d"

text \<open>
  \<open>host_write_at\<close>: open (creating), seek, \<open>write_all\<close>. A write past the end leaves a hole of
  zeros; an empty one does not extend the file; a seek past \<open>i64::MAX\<close> fails, after the file
  was created. The host may stop taking bytes, and what it
  took stays written.
\<close>

definition host_splice :: "bytes \<Rightarrow> nat \<Rightarrow> bytes \<Rightarrow> bytes" where
  "host_splice d start b =
     (if b = [] then d
      else take start d @ replicate (start - length d) 0 @ b @ drop (start + length b) d)"

definition host_write_at :: "env \<Rightarrow> world \<Rightarrow> string \<Rightarrow> u64 \<Rightarrow> bytes \<Rightarrow> bool \<times> world" where
  "host_write_at e w p offset b =
     (if \<not> env_host_ok e p then (False, w)
      else if unat offset \<ge> 2 ^ 63 then (False, w\<lparr>disk := (disk w)(p \<mapsto> host_read w p)\<rparr>)
      else
        let taken = take (env_host_room e p offset) b in
        (taken = b,
         w\<lparr>disk := (disk w)(p \<mapsto> host_splice (host_read w p) (unat offset) taken)\<rparr>))"

definition host_set_len :: "env \<Rightarrow> world \<Rightarrow> string \<Rightarrow> nat \<Rightarrow> bool \<times> world" where
  "host_set_len e w p n =
     (if \<not> env_host_ok e p then (False, w)
      else if \<not> env_host_len_ok e p n then (False, w\<lparr>disk := (disk w)(p \<mapsto> host_read w p)\<rparr>)
      else (True, w\<lparr>disk := (disk w)(p \<mapsto> vec_resize (host_read w p) n)\<rparr>))"

definition random_bytes :: "env \<Rightarrow> nat \<Rightarrow> bytes" where
  "random_bytes e n = map (env_rand e) [0..<n]"

definition remote_path_hash :: "string \<Rightarrow> u64 \<times> u64" where
  "remote_path_hash path =
     (fold (\<lambda>c h. (xor h (of_char c :: u64)) * 0x100000001b3) path 0xcbf29ce484222325, 1)"

subsection \<open>Node dispatch\<close>

definition vfs_node_kind :: "fs \<Rightarrow> world \<Rightarrow> nat \<Rightarrow> kind \<times> world" where
  "vfs_node_kind f w i =
     (case get_node f i of
        Some (NFile _) \<Rightarrow> (KFile, w)
      | Some (NRoFile a) \<Rightarrow> (let (d, w') = lb_bytes w a in (KRo d, w'))
      | Some (NShared s) \<Rightarrow> (KShared s, w)
      | Some (NHost p) \<Rightarrow> (KHost p, w)
      | Some (NDir _) \<Rightarrow> (KDir, w)
      | Some (NProvider _) \<Rightarrow> (KDir, w)
      | Some NNull \<Rightarrow> (KNull, w)
      | Some NZero \<Rightarrow> (KZero, w)
      | Some NRandom \<Rightarrow> (KRandom, w)
      | Some (NSymlink _) \<Rightarrow> (KMissing, w)
      | None \<Rightarrow> (KMissing, w))"

definition stat_node :: "env \<Rightarrow> fs \<Rightarrow> world \<Rightarrow> nat \<Rightarrow> desc_stat option" where
  "stat_node e f w i =
     (let st = (\<lambda>t n mt. Some \<lparr>ds_type = t, ds_size = of_nat n, ds_mtime = mt\<rparr>) in
      case get_node f i of
        None \<Rightarrow> None
      | Some (NFile d) \<Rightarrow> st TRegularFile (length d) None
      | Some (NRoFile a) \<Rightarrow> st TRegularFile (lb_len (layer_cells w a)) None
      | Some (NDir _) \<Rightarrow> st TDirectory 0 None
      | Some (NShared s) \<Rightarrow> st TRegularFile (length (shared_cells w s)) None
      | Some (NHost p) \<Rightarrow> st TRegularFile (host_size w p) (env_mtime e p)
      | Some (NSymlink t) \<Rightarrow> st TSymbolicLink (length t) None
      | Some (NProvider _) \<Rightarrow> st TDirectory 0 None
      | Some _ \<Rightarrow> st TCharacterDevice 0 None)"

text \<open>
  The write of \<open>bytes\<close> into a private file after copy-up, as \<open>write\<close> and the output stream
  do it: the result of \<open>write_at\<close>, or that the node is no file.
\<close>

definition private_write :: "fs \<Rightarrow> world \<Rightarrow> nat \<Rightarrow> u64 \<Rightarrow> bytes \<Rightarrow> unit res \<times> fs \<times> world" where
  "private_write f w i offset b =
     (let (f1, w1) = copy_up f w i in
      case get_node f1 i of
        Some (NFile d) \<Rightarrow>
         (case write_at d offset b of
            None \<Rightarrow> (Inl FileTooLarge, f1, w1)
          | Some d' \<Rightarrow> (Inr (), set_node f1 i (NFile d'), w1))
      | _ \<Rightarrow> (Inl NoEntry, f1, w1))"

definition shared_write :: "world \<Rightarrow> nat \<Rightarrow> u64 \<Rightarrow> bytes \<Rightarrow> unit res \<times> world" where
  "shared_write w s offset b =
     (case write_at (shared_cells w s) offset b of
        None \<Rightarrow> (Inl FileTooLarge, w)
      | Some d' \<Rightarrow> (Inr (), w\<lparr>shared_cells := (shared_cells w)(s := d')\<rparr>))"

subsection \<open>Forwarding to a provider\<close>

text \<open>The reply of a call whose success carries nothing.\<close>

definition call_unit :: "env \<Rightarrow> world \<Rightarrow> nat \<Rightarrow> fs_op \<Rightarrow> unit res \<times> world" where
  "call_unit e w conn op =
     (case provider_call e w conn op of
        (Inr _, w') \<Rightarrow> (Inr (), w')
      | (Inl er, w') \<Rightarrow> (Inl (provider_err er), w'))"

definition remote_stat :: "env \<Rightarrow> world \<Rightarrow> nat \<Rightarrow> string \<Rightarrow> desc_stat res \<times> world" where
  "remote_stat e w conn path =
     (case provider_call e w conn (OpGetattr path) of
        (Inr (ReAttr st), w') \<Rightarrow>
          (Inr \<lparr>ds_type = entry_type (st_kind st), ds_size = st_size st, ds_mtime = None\<rparr>, w')
      | (Inr _, w') \<Rightarrow> (Inl Io, w')
      | (Inl er, w') \<Rightarrow> (Inl (provider_err er), w'))"

definition remote_open ::
  "env \<Rightarrow> world \<Rightarrow> nat \<Rightarrow> bool \<Rightarrow> string \<Rightarrow> open_flags \<Rightarrow> desc_place res \<times> world" where
  "remote_open e w conn ro path fl =
     (if ro \<and> (o_create fl \<or> o_truncate fl) then (Inl NotPermitted, w)
      else
        (case provider_call e w conn (OpOpen path (o_create fl) (o_truncate fl) (o_exclusive fl)) of
           (Inr (ReOpened op), w') \<Rightarrow>
             if o_directory fl \<and> op_kind op \<noteq> EkDir then
               (Inl NotDirectory, provider_cast w' conn (OpRelease (op_handle op)))
             else
               (Inr (Remote \<lparr>rd_conn = conn, rd_generation = env_gen e conn, rd_path = path,
                             rd_handle = Some (op_handle op), rd_kind = op_kind op,
                             rd_readonly = ro\<rparr>), w')
         | (Inr _, w') \<Rightarrow> (Inl Io, w')
         | (Inl er, w') \<Rightarrow> (Inl (provider_err er), w')))"

text \<open>The guards of every operation on an opened remote file: a handle, and it is not stale.\<close>

definition live_handle :: "env \<Rightarrow> remote_desc \<Rightarrow> u64 res" where
  "live_handle e r =
     (case rd_handle r of
        None \<Rightarrow> Inl IsDirectory
      | Some h \<Rightarrow> if \<not> live e r then Inl Io else Inr h)"

definition writable_handle :: "env \<Rightarrow> remote_desc \<Rightarrow> u64 res" where
  "writable_handle e r = (if rd_readonly r then Inl NotPermitted else live_handle e r)"

subsection \<open>Streams\<close>

text \<open>\<open>Err(StreamError::Closed)\<close> is \<open>None\<close>.\<close>

definition provider_in_read ::
  "env \<Rightarrow> world \<Rightarrow> remote_desc \<Rightarrow> u64 \<Rightarrow> u64 \<Rightarrow> nat \<Rightarrow> bytes option \<times> u64 \<times> world" where
  "provider_in_read e w r h offset sz =
     (if \<not> live e r then (None, offset, w)
      else
        (case provider_call e w (rd_conn r) (OpRead h offset (of_nat (min sz file_read_chunk))) of
           (Inr (ReData b eof), w') \<Rightarrow>
             (if b = [] \<and> eof then None else Some b, offset + of_nat (length b), w')
         | (_, w') \<Rightarrow> (None, offset, w')))"

definition zero_in_read :: "nat \<Rightarrow> bytes" where
  "zero_in_read sz = replicate (min sz device_read_chunk) 0"

definition random_in_read :: "env \<Rightarrow> nat \<Rightarrow> bytes" where
  "random_in_read e sz = random_bytes e (min sz device_read_chunk)"

definition bounded_in_read :: "bytes \<Rightarrow> nat \<Rightarrow> nat \<Rightarrow> bytes option \<times> nat" where
  "bounded_in_read b pos sz =
     (if pos \<ge> length b then (None, pos)
      else
        let n = min (min sz file_read_chunk) (length b - pos)
        in (Some (take n (drop pos b)), pos + n))"

fun in_read :: "env \<Rightarrow> world \<Rightarrow> in_stream \<Rightarrow> nat \<Rightarrow> bytes option \<times> in_stream \<times> world" where
  "in_read e w (InProvider r h offset) sz =
     (let (x, offset', w') = provider_in_read e w r h offset sz in (x, InProvider r h offset', w'))"
| "in_read e w InZero sz = (Some (zero_in_read sz), InZero, w)"
| "in_read e w InRandom sz = (Some (random_in_read e sz), InRandom, w)"
| "in_read e w (InFile b pos) sz =
     (let (x, pos') = bounded_in_read b pos sz in (x, InFile b pos', w))"

definition provider_out_write ::
  "env \<Rightarrow> world \<Rightarrow> remote_desc \<Rightarrow> u64 \<Rightarrow> u64 \<Rightarrow> bytes \<Rightarrow> unit option \<times> u64 \<times> world" where
  "provider_out_write e w r h offset b =
     (if \<not> live e r then (None, offset, w)
      else
        (case provider_call e w (rd_conn r) (OpWrite h offset b) of
           (Inr (ReWritten n), w') \<Rightarrow> (Some (), offset + n, w')
         | (_, w') \<Rightarrow> (None, offset, w')))"

definition vfs_out_write ::
  "fs \<Rightarrow> world \<Rightarrow> nat \<Rightarrow> u64 \<Rightarrow> bytes \<Rightarrow> unit option \<times> u64 \<times> fs \<times> world" where
  "vfs_out_write f w i offset b =
     (case private_write f w i offset b of
        (Inr _, f', w') \<Rightarrow> (Some (), offset + of_nat (length b), f', w')
      | (Inl _, f', w') \<Rightarrow> (None, offset, f', w'))"

definition shared_out_write :: "world \<Rightarrow> nat \<Rightarrow> u64 \<Rightarrow> bytes \<Rightarrow> unit option \<times> u64 \<times> world" where
  "shared_out_write w s offset b =
     (case shared_write w s offset b of
        (Inr _, w') \<Rightarrow> (Some (), offset + of_nat (length b), w')
      | (Inl _, w') \<Rightarrow> (None, offset, w'))"

definition host_out_write ::
  "env \<Rightarrow> world \<Rightarrow> string \<Rightarrow> u64 \<Rightarrow> bytes \<Rightarrow> unit option \<times> u64 \<times> world" where
  "host_out_write e w p offset b =
     (let (ok, w') = host_write_at e w p offset b in
      if ok then (Some (), offset + of_nat (length b), w') else (None, offset, w'))"

definition null_out_write :: "bytes \<Rightarrow> unit option" where
  "null_out_write b = Some ()"

fun out_write :: "env \<Rightarrow> fs \<Rightarrow> world \<Rightarrow> out_stream \<Rightarrow> bytes \<Rightarrow> unit option \<times> out_stream \<times> fs \<times> world" where
  "out_write e f w (OutProvider r h offset) b =
     (let (x, offset', w') = provider_out_write e w r h offset b in (x, OutProvider r h offset', f, w'))"
| "out_write e f w (OutVfs i offset) b =
     (let (x, offset', f', w') = vfs_out_write f w i offset b in (x, OutVfs i offset', f', w'))"
| "out_write e f w (OutShared s offset) b =
     (let (x, offset', w') = shared_out_write w s offset b in (x, OutShared s offset', f, w'))"
| "out_write e f w (OutHost p offset) b =
     (let (x, offset', w') = host_out_write e w p offset b in (x, OutHost p offset', f, w'))"
| "out_write e f w OutNull b = (null_out_write b, OutNull, f, w)"

fun check_write :: "out_stream \<Rightarrow> nat" where
  "check_write OutNull = 2 ^ 64 - 1"
| "check_write _ = 1024 * 1024"

fun read_via_stream :: "env \<Rightarrow> fs \<Rightarrow> world \<Rightarrow> desc_place \<Rightarrow> u64 \<Rightarrow> in_stream res \<times> world" where
  "read_via_stream e f w (Remote r) offset =
     (case live_handle e r of Inl er \<Rightarrow> (Inl er, w) | Inr h \<Rightarrow> (Inr (InProvider r h offset), w))"
| "read_via_stream e f w (Local i) offset =
     (case vfs_node_kind f w i of
        (KZero, w') \<Rightarrow> (Inr InZero, w')
      | (KRandom, w') \<Rightarrow> (Inr InRandom, w')
      | (KFile, w') \<Rightarrow>
         (case get_node f i of
            Some (NFile d) \<Rightarrow> (Inr (InFile (from_offset d offset) 0), w')
          | _ \<Rightarrow> (Inl NoEntry, w'))
      | (KRo d, w') \<Rightarrow> (Inr (InFile (from_offset d offset) 0), w')
      | (KShared s, w') \<Rightarrow> (Inr (InFile (from_offset (shared_cells w' s) offset) 0), w')
      | (KHost p, w') \<Rightarrow> (Inr (InFile (from_offset (host_read w' p) offset) 0), w')
      | (KNull, w') \<Rightarrow> (Inr (InFile [] 0), w')
      | (KDir, w') \<Rightarrow> (Inl IsDirectory, w')
      | (KMissing, w') \<Rightarrow> (Inl NoEntry, w'))"

fun write_via_stream :: "env \<Rightarrow> fs \<Rightarrow> world \<Rightarrow> desc_place \<Rightarrow> u64 \<Rightarrow> out_stream res \<times> world" where
  "write_via_stream e f w (Remote r) offset =
     (case writable_handle e r of
        Inl er \<Rightarrow> (Inl er, w) | Inr h \<Rightarrow> (Inr (OutProvider r h offset), w))"
| "write_via_stream e f w (Local i) offset =
     (if is_readonly f i then (Inl NotPermitted, w)
      else
        (case vfs_node_kind f w i of
           (KFile, w') \<Rightarrow> (Inr (OutVfs i offset), w')
         | (KRo _, w') \<Rightarrow> (Inr (OutVfs i offset), w')
         | (KShared s, w') \<Rightarrow> (Inr (OutShared s offset), w')
         | (KHost p, w') \<Rightarrow> (Inr (OutHost p offset), w')
         | (KDir, w') \<Rightarrow> (Inl IsDirectory, w')
         | (KMissing, w') \<Rightarrow> (Inl IsDirectory, w')
         | (_, w') \<Rightarrow> (Inr OutNull, w')))"

definition private_len :: "fs \<Rightarrow> nat \<Rightarrow> nat" where
  "private_len f i = (case get_node f i of Some (NFile d) \<Rightarrow> length d | _ \<Rightarrow> 0)"

fun append_via_stream ::
  "env \<Rightarrow> fs \<Rightarrow> world \<Rightarrow> desc_place \<Rightarrow> out_stream res \<times> fs \<times> world" where
  "append_via_stream e f w (Remote r) =
     (case writable_handle e r of
        Inl er \<Rightarrow> (Inl er, f, w)
      | Inr h \<Rightarrow>
         (case remote_stat e w (rd_conn r) (rd_path r) of
            (Inr st, w') \<Rightarrow> (Inr (OutProvider r h (ds_size st)), f, w')
          | (Inl er, w') \<Rightarrow> (Inl er, f, w')))"
| "append_via_stream e f w (Local i) =
     (if is_readonly f i then (Inl NotPermitted, f, w)
      else
        (let (k, w1) = vfs_node_kind f w i;
             private = (let (f2, w2) = copy_up f w1 i in (Inr (OutVfs i (of_nat (private_len f2 i))), f2, w2))
         in case k of
           KFile \<Rightarrow> private
         | KRo _ \<Rightarrow> private
         | KShared s \<Rightarrow> (Inr (OutShared s (of_nat (length (shared_cells w1 s)))), f, w1)
         | KHost p \<Rightarrow> (Inr (OutHost p (of_nat (host_size w1 p))), f, w1)
         | KDir \<Rightarrow> (Inl IsDirectory, f, w1)
         | KMissing \<Rightarrow> (Inl NoEntry, f, w1)
         | _ \<Rightarrow> (Inr OutNull, f, w1)))"

subsection \<open>Reading and writing at an offset\<close>

fun fd_read :: "env \<Rightarrow> fs \<Rightarrow> world \<Rightarrow> desc_place \<Rightarrow> u64 \<Rightarrow> u64 \<Rightarrow> (bytes \<times> bool) res \<times> world" where
  "fd_read e f w (Remote r) len0 offset =
     (case live_handle e r of
        Inl er \<Rightarrow> (Inl er, w)
      | Inr h \<Rightarrow>
         (case provider_call e w (rd_conn r)
             (OpRead h offset (ucast (min len0 (of_nat file_read_chunk)))) of
            (Inr (ReData b eof), w') \<Rightarrow> (Inr (b, eof), w')
          | (Inr _, w') \<Rightarrow> (Inl Io, w')
          | (Inl er, w') \<Rightarrow> (Inl (provider_err er), w')))"
| "fd_read e f w (Local i) len0 offset =
     (let len = min len0 (of_nat file_read_chunk) in
      case vfs_node_kind f w i of
        (KFile, w') \<Rightarrow>
         (case get_node f i of
            Some (NFile d) \<Rightarrow> (Inr (read_at d offset len), w')
          | _ \<Rightarrow> (Inl NoEntry, w'))
      | (KRo d, w') \<Rightarrow> (Inr (read_at d offset len), w')
      | (KShared s, w') \<Rightarrow> (Inr (read_at (shared_cells w' s) offset len), w')
      | (KHost p, w') \<Rightarrow> (Inr (read_at (host_read w' p) offset len), w')
      | (KNull, w') \<Rightarrow> (Inr ([], True), w')
      | (KZero, w') \<Rightarrow> (Inr (replicate (min (unat len) device_read_chunk) 0, False), w')
      | (KRandom, w') \<Rightarrow> (Inr (random_bytes e (min (unat len) device_read_chunk), False), w')
      | (KDir, w') \<Rightarrow> (Inl IsDirectory, w')
      | (KMissing, w') \<Rightarrow> (Inl NoEntry, w'))"

fun fd_write :: "env \<Rightarrow> fs \<Rightarrow> world \<Rightarrow> desc_place \<Rightarrow> bytes \<Rightarrow> u64 \<Rightarrow> u64 res \<times> fs \<times> world" where
  "fd_write e f w (Remote r) buf offset =
     (case writable_handle e r of
        Inl er \<Rightarrow> (Inl er, f, w)
      | Inr h \<Rightarrow>
         (case provider_call e w (rd_conn r) (OpWrite h offset buf) of
            (Inr (ReWritten n), w') \<Rightarrow> (Inr n, f, w')
          | (Inr _, w') \<Rightarrow> (Inl Io, f, w')
          | (Inl er, w') \<Rightarrow> (Inl (provider_err er), f, w')))"
| "fd_write e f w (Local i) buf offset =
     (if is_readonly f i then (Inl NotPermitted, f, w)
      else
        (let (k, w1) = vfs_node_kind f w i;
             done = (\<lambda>(r, f', w'). (case r of Inl er \<Rightarrow> Inl er | Inr _ \<Rightarrow> Inr (of_nat (length buf)), f', w'))
         in case k of
           KFile \<Rightarrow> done (private_write f w1 i offset buf)
         | KRo _ \<Rightarrow> done (private_write f w1 i offset buf)
         | KShared s \<Rightarrow> (let (r, w2) = shared_write w1 s offset buf in done (r, f, w2))
         | KHost p \<Rightarrow>
            (let (ok, w2) = host_write_at e w1 p offset buf
             in done (if ok then Inr () else Inl Io, f, w2))
         | KDir \<Rightarrow> (Inl IsDirectory, f, w1)
         | KMissing \<Rightarrow> (Inl NoEntry, f, w1)
         | _ \<Rightarrow> done (Inr (), f, w1)))"

fun set_size :: "env \<Rightarrow> fs \<Rightarrow> world \<Rightarrow> desc_place \<Rightarrow> u64 \<Rightarrow> unit res \<times> fs \<times> world" where
  "set_size e f w (Remote r) sz =
     (case writable_handle e r of
        Inl er \<Rightarrow> (Inl er, f, w)
      | Inr h \<Rightarrow> (let (x, w') = call_unit e w (rd_conn r) (OpSetSize h sz) in (x, f, w')))"
| "set_size e f w (Local i) sz =
     (if is_readonly f i then (Inl NotPermitted, f, w)
      else if unat sz > max_file_size then (Inl FileTooLarge, f, w)
      else
        (let (k, w1) = vfs_node_kind f w i;
             private =
               (let (f2, w2) = copy_up f w1 i in
                (Inr (),
                 case get_node f2 i of
                   Some (NFile d) \<Rightarrow> set_node f2 i (NFile (vec_resize d (unat sz)))
                 | _ \<Rightarrow> f2, w2))
         in case k of
           KFile \<Rightarrow> private
         | KRo _ \<Rightarrow> private
         | KShared s \<Rightarrow>
            (Inr (), f,
             w1\<lparr>shared_cells := (shared_cells w1)(s := vec_resize (shared_cells w1 s) (unat sz))\<rparr>)
         | KHost p \<Rightarrow>
            (let (ok, w2) = host_set_len e w1 p (unat sz) in (if ok then Inr () else Inl Io, f, w2))
         | KDir \<Rightarrow> (Inl IsDirectory, f, w1)
         | KMissing \<Rightarrow> (Inl IsDirectory, f, w1)
         | _ \<Rightarrow> (Inr (), f, w1)))"

end
