(* ===== verification/Vfs_Dirs.thy ===== *)
theory Vfs_Dirs
  imports Vfs_Ops "HOL-Library.Product_Lexorder"
begin

text \<open>
  The operations of \<open>wasi:filesystem\<close> that name entries by path (\<open>crates/wk-vfs/src/lib.rs\<close>):
  opening, creating, linking, renaming and removing entries, their metadata, and directory
  listings, those of the host's file inspector included.
\<close>

subsection \<open>Where a path leads\<close>

definition place_target :: "fs \<Rightarrow> desc_place \<Rightarrow> string \<Rightarrow> bool \<Rightarrow> resolved" where
  "place_target f pl path follow =
     (case pl of
        Local start \<Rightarrow> resolve_place f start path follow
      | Remote r \<Rightarrow> RRemote (rd_conn r) (remote_join (rd_path r) path) (rd_readonly r))"

text \<open>The lookup of a child by name, with the error codes of \<open>unlink\<close> and \<open>rename_at\<close>.\<close>

definition child_of :: "fs \<Rightarrow> nat \<Rightarrow> string \<Rightarrow> nat res" where
  "child_of f p name =
     (case get_node f p of
        Some (NDir c) \<Rightarrow> (case map_of c name of None \<Rightarrow> Inl NoEntry | Some i \<Rightarrow> Inr i)
      | _ \<Rightarrow> Inl NotDirectory)"

definition has_child :: "fs \<Rightarrow> nat \<Rightarrow> string \<Rightarrow> bool" where
  "has_child f p name = (case get_node f p of Some (NDir c) \<Rightarrow> map_of c name \<noteq> None | _ \<Rightarrow> False)"

subsection \<open>Directories and metadata\<close>

definition get_directories :: "fs \<Rightarrow> (desc_place \<times> string) list \<times> fs" where
  "get_directories f = ([(Local root, ''/'')], open_ref f root)"

fun fd_drop :: "env \<Rightarrow> fs \<Rightarrow> world \<Rightarrow> desc_place \<Rightarrow> fs \<times> world" where
  "fd_drop e f w (Local i) = (close_ref f i, w)"
| "fd_drop e f w (Remote r) =
     (case rd_handle r of
        Some h \<Rightarrow> if live e r then (f, provider_cast w (rd_conn r) (OpRelease h)) else (f, w)
      | None \<Rightarrow> (f, w))"

type_synonym dir_entry_stream = "(desc_type \<times> string) list \<times> nat"

fun read_directory :: "env \<Rightarrow> fs \<Rightarrow> world \<Rightarrow> desc_place \<Rightarrow> dir_entry_stream res \<times> world" where
  "read_directory e f w (Remote r) =
     (if rd_kind r \<noteq> EkDir then (Inl NotDirectory, w)
      else
        (case provider_call e w (rd_conn r) (OpReaddir (rd_path r)) of
           (Inr (ReEntries l), w') \<Rightarrow> (Inr (map (\<lambda>d. (entry_type (de_kind d), de_name d)) l, 0), w')
         | (Inr _, w') \<Rightarrow> (Inl Io, w')
         | (Inl er, w') \<Rightarrow> (Inl (provider_err er), w')))"
| "read_directory e f w (Local i) =
     (case get_node f i of
        Some (NDir c) \<Rightarrow> (Inr (map (\<lambda>(name, j). (node_type f j, name)) c, 0), w)
      | Some _ \<Rightarrow> (Inl NotDirectory, w)
      | None \<Rightarrow> (Inl NoEntry, w))"

definition read_directory_entry ::
  "dir_entry_stream \<Rightarrow> (desc_type \<times> string) option \<times> dir_entry_stream" where
  "read_directory_entry s =
     (case s of (entries, pos) \<Rightarrow>
        (case list_get entries pos of
           None \<Rightarrow> (None, (entries, pos))
         | Some en \<Rightarrow> (Some en, (entries, pos + 1))))"

definition create_directory_at ::
  "env \<Rightarrow> fs \<Rightarrow> world \<Rightarrow> desc_place \<Rightarrow> string \<Rightarrow> unit res \<times> fs \<times> world" where
  "create_directory_at e f w pl path =
     (case place_target f pl path True of
        RRemote conn rpath ro \<Rightarrow>
          if ro then (Inl NotPermitted, f, w)
          else (let (x, w') = call_unit e w conn (OpMkdir rpath) in (x, f, w'))
      | RLocal _ \<Rightarrow> (Inl Exist, f, w)
      | RMissing \<Rightarrow>
         (case pl of
            Remote _ \<Rightarrow> (Inl NoEntry, f, w)
          | Local i \<Rightarrow>
             (case resolve_parent f i path of
                None \<Rightarrow> (Inl NoEntry, f, w)
              | Some (parent, name) \<Rightarrow>
                 if has_child f parent name then (Inl Exist, f, w)
                 else if at_capacity f then (Inl InsufficientSpace, f, w)
                 else (Inr (), add_child f parent name (NDir []), w))))"

fun fd_stat :: "env \<Rightarrow> fs \<Rightarrow> world \<Rightarrow> desc_place \<Rightarrow> desc_stat res \<times> world" where
  "fd_stat e f w (Remote r) = remote_stat e w (rd_conn r) (rd_path r)"
| "fd_stat e f w (Local i) =
     (case stat_node e f w i of Some s \<Rightarrow> (Inr s, w) | None \<Rightarrow> (Inl NoEntry, w))"

definition stat_at :: "env \<Rightarrow> fs \<Rightarrow> world \<Rightarrow> desc_place \<Rightarrow> bool \<Rightarrow> string \<Rightarrow> desc_stat res \<times> world" where
  "stat_at e f w pl follow path =
     (case place_target f pl path follow of
        RLocal i \<Rightarrow> (case stat_node e f w i of Some s \<Rightarrow> (Inr s, w) | None \<Rightarrow> (Inl NoEntry, w))
      | RRemote conn rpath _ \<Rightarrow> remote_stat e w conn rpath
      | RMissing \<Rightarrow> (Inl NoEntry, w))"

fun get_type :: "fs \<Rightarrow> desc_place \<Rightarrow> desc_type" where
  "get_type f (Local i) = node_type f i"
| "get_type f (Remote r) = entry_type (rd_kind r)"

text \<open>The flags are \<open>READ\<close>, and \<open>WRITE\<close> unless the place is read-only.\<close>

fun get_flags :: "fs \<Rightarrow> desc_place \<Rightarrow> bool \<times> bool" where
  "get_flags f (Local i) = (True, \<not> is_readonly f i)"
| "get_flags f (Remote r) = (True, \<not> rd_readonly r)"

fun is_same_object :: "bool \<Rightarrow> desc_place \<Rightarrow> desc_place \<Rightarrow> bool" where
  "is_same_object same_fs (Local a) (Local b) \<longleftrightarrow> same_fs \<and> a = b"
| "is_same_object same_fs (Remote a) (Remote b) \<longleftrightarrow> rd_conn a = rd_conn b \<and> rd_path a = rd_path b"
| "is_same_object same_fs _ _ \<longleftrightarrow> False"

fun metadata_hash :: "desc_place \<Rightarrow> u64 \<times> u64" where
  "metadata_hash (Local i) = (of_nat i, 0)"
| "metadata_hash (Remote r) = remote_path_hash (rd_path r)"

definition metadata_hash_at :: "fs \<Rightarrow> desc_place \<Rightarrow> string \<Rightarrow> (u64 \<times> u64) res" where
  "metadata_hash_at f pl path =
     (case place_target f pl path True of
        RLocal i \<Rightarrow> Inr (of_nat i, 0)
      | RRemote _ rpath _ \<Rightarrow> Inr (remote_path_hash rpath)
      | RMissing \<Rightarrow> Inl NoEntry)"

subsection \<open>Opening\<close>

text \<open>The truncation of an opened local node.\<close>

definition truncate_node :: "env \<Rightarrow> fs \<Rightarrow> world \<Rightarrow> nat \<Rightarrow> fs \<times> world" where
  "truncate_node e f w i =
     (case get_node f i of
        Some (NFile _) \<Rightarrow> (set_node f i (NFile []), w)
      | Some (NRoFile _) \<Rightarrow> (set_node f i (NFile []), w)
      | Some (NShared s) \<Rightarrow> (f, w\<lparr>shared_cells := (shared_cells w)(s := [])\<rparr>)
      | Some (NHost p) \<Rightarrow>
          (f, if env_host_ok e p then w\<lparr>disk := (disk w)(p \<mapsto> [])\<rparr> else w)
      | _ \<Rightarrow> (f, w))"

definition open_local ::
  "env \<Rightarrow> fs \<Rightarrow> world \<Rightarrow> nat \<Rightarrow> bool \<Rightarrow> string \<Rightarrow> open_flags \<Rightarrow> nat res \<times> fs \<times> world" where
  "open_local e f w start follow path fl =
     (case resolve_at f start path follow of
        Some i \<Rightarrow>
          if o_exclusive fl then (Inl Exist, f, w)
          else if o_truncate fl \<and> i \<in> readonly f then (Inl NotPermitted, f, w)
          else
            let (f1, w1) = (if o_truncate fl then truncate_node e f w i else (f, w)) in
            if o_directory fl \<and> \<not> is_dir f1 i then (Inl NotDirectory, f1, w1)
            else (Inr i, f1, w1)
      | None \<Rightarrow>
          if \<not> o_create fl then (Inl NoEntry, f, w)
          else
            (case resolve_parent f start path of
               None \<Rightarrow> (Inl NoEntry, f, w)
             | Some (parent, name) \<Rightarrow>
                if at_capacity f then (Inl InsufficientSpace, f, w)
                else (Inr (next_node f), add_child f parent name (NFile []), w)))"

definition open_at ::
  "env \<Rightarrow> fs \<Rightarrow> world \<Rightarrow> desc_place \<Rightarrow> bool \<Rightarrow> string \<Rightarrow> open_flags \<Rightarrow> desc_place res \<times> fs \<times> world" where
  "open_at e f w pl follow path fl =
     (case place_target f pl path follow of
        RRemote conn rpath ro \<Rightarrow>
          (let (x, w') = remote_open e w conn ro rpath fl in (x, f, w'))
      | _ \<Rightarrow>
         (case pl of
            Remote _ \<Rightarrow> (Inl NoEntry, f, w)
          | Local start \<Rightarrow>
             (case open_local e f w start follow path fl of
                (Inl er, f1, w1) \<Rightarrow> (Inl er, f1, w1)
              | (Inr i, f1, w1) \<Rightarrow> (Inr (Local i), open_ref f1 i, w1))))"

subsection \<open>Removing, renaming, linking\<close>

text \<open>The check of \<open>unlink\<close> on the kind of the entry.\<close>

definition unlink_check :: "bool \<Rightarrow> node option \<Rightarrow> error_code option" where
  "unlink_check dir n =
     (if dir then
        (case n of
           Some (NDir c) \<Rightarrow> if c \<noteq> [] then Some NotEmpty else None
         | _ \<Rightarrow> Some NotDirectory)
      else
        (case n of
           Some (NDir _) \<Rightarrow> Some IsDirectory
         | None \<Rightarrow> Some IsDirectory
         | _ \<Rightarrow> None))"

definition unlink_local :: "fs \<Rightarrow> nat \<Rightarrow> string \<Rightarrow> bool \<Rightarrow> unit res \<times> fs" where
  "unlink_local f start path dir =
     (case resolve_parent f start path of
        None \<Rightarrow> (Inl NoEntry, f)
      | Some (parent, name) \<Rightarrow>
         (case child_of f parent name of
            Inl er \<Rightarrow> (Inl er, f)
          | Inr i \<Rightarrow>
             if i \<in> readonly f then (Inl NotPermitted, f)
             else
               (case unlink_check dir (get_node f i) of
                  Some er \<Rightarrow> (Inl er, f)
                | None \<Rightarrow>
                   let f1 = remove_child f parent name in
                   (Inr (),
                    if \<not> node_is_referenced f1 i \<and> open_count f1 i = 0
                    then f1\<lparr>nodes := bt_remove i (nodes f1)\<rparr> else f1))))"

definition unlink ::
  "env \<Rightarrow> fs \<Rightarrow> world \<Rightarrow> desc_place \<Rightarrow> string \<Rightarrow> bool \<Rightarrow> unit res \<times> fs \<times> world" where
  "unlink e f w pl path dir =
     (case place_target f pl path False of
        RRemote conn rpath ro \<Rightarrow>
          if ro then (Inl NotPermitted, f, w)
          else (let (x, w') = call_unit e w conn (if dir then OpRmdir rpath else OpUnlink rpath) in (x, f, w'))
      | _ \<Rightarrow>
         (case pl of
            Remote _ \<Rightarrow> (Inl NoEntry, f, w)
          | Local start \<Rightarrow> (let (x, f') = unlink_local f start path dir in (x, f', w))))"

definition rename_local :: "fs \<Rightarrow> nat \<Rightarrow> string \<Rightarrow> nat \<Rightarrow> string \<Rightarrow> unit res \<times> fs" where
  "rename_local f old_start old_path new_start new_path =
     (case resolve_parent f old_start old_path of
        None \<Rightarrow> (Inl NoEntry, f)
      | Some (old_parent, old_name) \<Rightarrow>
         (case child_of f old_parent old_name of
            Inl er \<Rightarrow> (Inl er, f)
          | Inr i \<Rightarrow>
             if i \<in> readonly f then (Inl NotPermitted, f)
             else
               (case resolve_parent f new_start new_path of
                  None \<Rightarrow> (Inl NoEntry, f)
                | Some (new_parent, new_name) \<Rightarrow>
                   (Inr (), insert_child (remove_child f old_parent old_name) new_parent new_name i))))"

definition rename_at ::
  "env \<Rightarrow> fs \<Rightarrow> world \<Rightarrow> bool \<Rightarrow> desc_place \<Rightarrow> string \<Rightarrow> desc_place \<Rightarrow> string \<Rightarrow> unit res \<times> fs \<times> world" where
  "rename_at e f w same_fs old_pl old_path new_pl new_path =
     (if \<not> same_fs then (Inl CrossDevice, f, w)
      else
        (case (place_target f old_pl old_path False, place_target f new_pl new_path False) of
           (RRemote a from ro, RRemote b to _) \<Rightarrow>
             if a \<noteq> b then (Inl CrossDevice, f, w)
             else if ro then (Inl NotPermitted, f, w)
             else (let (x, w') = call_unit e w a (OpRename from to) in (x, f, w'))
         | (RRemote _ _ _, _) \<Rightarrow> (Inl CrossDevice, f, w)
         | (_, RRemote _ _ _) \<Rightarrow> (Inl CrossDevice, f, w)
         | _ \<Rightarrow>
            (case (old_pl, new_pl) of
               (Local a, Local b) \<Rightarrow>
                 (let (x, f') = rename_local f a old_path b new_path in (x, f', w))
             | _ \<Rightarrow> (Inl CrossDevice, f, w))))"

definition link_at ::
  "fs \<Rightarrow> bool \<Rightarrow> desc_place \<Rightarrow> bool \<Rightarrow> string \<Rightarrow> desc_place \<Rightarrow> string \<Rightarrow> unit res \<times> fs" where
  "link_at f same_fs old_pl follow old_path new_pl new_path =
     (if \<not> same_fs then (Inl CrossDevice, f)
      else
        (case (old_pl, new_pl) of
           (Local old_start, Local new_start) \<Rightarrow>
            (case resolve_at f old_start old_path follow of
               None \<Rightarrow> (Inl NoEntry, f)
             | Some i \<Rightarrow>
                (case get_node f i of
                   Some (NDir _) \<Rightarrow> (Inl NotPermitted, f)
                 | None \<Rightarrow> (Inl NoEntry, f)
                 | Some _ \<Rightarrow>
                    if i \<in> readonly f then (Inl NotPermitted, f)
                    else
                      (case resolve_parent f new_start new_path of
                         None \<Rightarrow> (Inl NoEntry, f)
                       | Some (parent, name) \<Rightarrow>
                          if has_child f parent name then (Inl Exist, f)
                          else if \<not> is_dir f parent then (Inl NotDirectory, f)
                          else (Inr (), insert_child f parent name i))))
         | _ \<Rightarrow> (Inl Unsupported, f)))"

definition symlink_at :: "fs \<Rightarrow> desc_place \<Rightarrow> string \<Rightarrow> string \<Rightarrow> unit res \<times> fs" where
  "symlink_at f pl src_path dest_path =
     (case pl of
        Remote _ \<Rightarrow> (Inl Unsupported, f)
      | Local start \<Rightarrow>
         (case resolve_place f start dest_path False of
            RRemote _ _ _ \<Rightarrow> (Inl Unsupported, f)
          | _ \<Rightarrow>
             (case resolve_parent f start dest_path of
                None \<Rightarrow> (Inl NoEntry, f)
              | Some (parent, name) \<Rightarrow>
                 if has_child f parent name then (Inl Exist, f)
                 else if \<not> is_dir f parent then (Inl NotDirectory, f)
                 else if at_capacity f then (Inl InsufficientSpace, f)
                 else (Inr (), add_child f parent name (NSymlink src_path)))))"

definition readlink_at :: "fs \<Rightarrow> desc_place \<Rightarrow> string \<Rightarrow> string res" where
  "readlink_at f pl path =
     (case pl of
        Remote _ \<Rightarrow> Inl Invalid
      | Local start \<Rightarrow>
         (case resolve_at f start path False of
            None \<Rightarrow> Inl NoEntry
          | Some i \<Rightarrow>
             (case get_node f i of
                Some (NSymlink t) \<Rightarrow> Inr t
              | Some _ \<Rightarrow> Inl Invalid
              | None \<Rightarrow> Inl NoEntry)))"

end
