(* ===== verification/Vfs_Table.thy ===== *)
theory Vfs_Table
  imports Vfs_Dirs
begin

text \<open>
  The abstract specification of what a guest can do to a filesystem: five kinds of change to
  the node table (opening and closing a descriptor only count references). Every descriptor operation refines a sequence of them (the lemmas named
  \<open>\<dots>_steps\<close>), so a property of the table is proved once per kind of change and holds of
  every operation. The locale \<open>table_contract\<close> is that argument.
\<close>

subsection \<open>The changes\<close>

definition is_private :: "node \<Rightarrow> bool" where
  "is_private n = (case n of NFile _ \<Rightarrow> True | NRoFile _ \<Rightarrow> True | _ \<Rightarrow> False)"

definition is_fresh :: "node \<Rightarrow> bool" where
  "is_fresh n = (case n of NFile d \<Rightarrow> d = [] | NDir c \<Rightarrow> c = [] | NSymlink _ \<Rightarrow> True | _ \<Rightarrow> False)"

inductive table_step :: "fs \<Rightarrow> fs \<Rightarrow> bool" where
  put: "\<lbrakk>i \<notin> readonly f; get_node f i = Some n; is_private n\<rbrakk> \<Longrightarrow> table_step f (set_node f i (NFile d))"
| create: "\<lbrakk>\<not> at_capacity f; get_node f p = Some (NDir c); is_fresh n\<rbrakk> \<Longrightarrow> table_step f (add_child f p nm n)"
| link: "\<lbrakk>0 < i; i < next_node f; i \<notin> readonly f\<rbrakk> \<Longrightarrow> table_step f (insert_child f p nm i)"
| detach: "\<lbrakk>get_node f p = Some (NDir c); map_of c nm = Some i; i \<notin> readonly f\<rbrakk> \<Longrightarrow>
    table_step f (remove_child f p nm)"
| free: "\<lbrakk>0 < i; i \<notin> readonly f; \<not> node_is_referenced f i; open_count f i = 0\<rbrakk> \<Longrightarrow>
    table_step f (f\<lparr>nodes := bt_remove i (nodes f)\<rparr>)"

abbreviation table_steps :: "fs \<Rightarrow> fs \<Rightarrow> bool" where
  "table_steps \<equiv> table_step\<^sup>*\<^sup>*"

locale table_contract =
  fixes ok :: "fs \<Rightarrow> bool" and rel :: "fs \<Rightarrow> fs \<Rightarrow> bool"
  assumes rel_refl: "rel f f"
    and rel_trans: "\<lbrakk>rel f g; rel g h\<rbrakk> \<Longrightarrow> rel f h"
    and step_ok: "\<lbrakk>ok f; table_step f g\<rbrakk> \<Longrightarrow> ok g"
    and step_rel: "\<lbrakk>ok f; table_step f g\<rbrakk> \<Longrightarrow> rel f g"
begin

lemma steps_both: "table_steps f g \<Longrightarrow> ok f \<Longrightarrow> ok g \<and> rel f g"
proof (induction rule: rtranclp_induct)
  case base
  then show ?case by (simp add: rel_refl)
next
  case (step g h)
  then show ?case using step_ok step_rel rel_trans by blast
qed

lemmas steps_ok = steps_both [THEN conjunct1]
lemmas steps_rel = steps_both [THEN conjunct2]

end

subsection \<open>What the changes keep\<close>

lemma open_ref_simps [simp]:
  "nodes (open_ref f i) = nodes f" "next_node (open_ref f i) = next_node f"
  "readonly (open_ref f i) = readonly f"
  by (simp_all add: open_ref_def)

lemma is_fresh_node_ok: "is_fresh n \<Longrightarrow> node_ok b n"
  by (auto simp: is_fresh_def split: node.splits)

lemma fs_inv_free: "fs_inv f \<Longrightarrow> 0 < i \<Longrightarrow> fs_inv (f\<lparr>nodes := bt_remove i (nodes f)\<rparr>)"
  by (auto simp: fs_inv_def table_inv_def intro: order_trans [OF length_bt_remove_le])

lemma fs_inv_put: "fs_inv f \<Longrightarrow> get_node f i = Some n \<Longrightarrow> is_private n \<Longrightarrow> fs_inv (set_node f i (NFile d))"
  using fs_invD(4) [of f]
  by (cases "i = root")
    (auto intro!: fs_inv_set_node simp: is_private_def is_dir_def dest: fs_invD(2) split: node.splits)

lemma table_step_inv: "table_step f g \<Longrightarrow> fs_inv f \<Longrightarrow> fs_inv g"
  by (induction rule: table_step.induct)
    (auto intro: fs_inv_put fs_inv_add_child fs_inv_insert_child fs_inv_remove_child fs_inv_free
      is_fresh_node_ok)

text \<open>
  A node keeps its sort when it is unchanged, a directory that stays one, or a private file
  that got new bytes. A change never touches the read-only marks, never reuses an id, keeps
  every read-only file and every node with an open descriptor, and makes only files,
  directories and symlinks.
\<close>

definition same_sort :: "node \<Rightarrow> node \<Rightarrow> bool" where
  "same_sort n m \<longleftrightarrow>
     n = m \<or> is_private n \<and> (case m of NFile _ \<Rightarrow> True | _ \<Rightarrow> False) \<or>
     (case (n, m) of (NDir _, NDir _) \<Rightarrow> True | _ \<Rightarrow> False)"

definition guest_made :: "node \<Rightarrow> bool" where
  "guest_made n = (case n of NFile _ \<Rightarrow> True | NDir _ \<Rightarrow> True | NSymlink _ \<Rightarrow> True | _ \<Rightarrow> False)"

definition keeps :: "fs \<Rightarrow> fs \<Rightarrow> bool" where
  "keeps f g \<longleftrightarrow>
     readonly g = readonly f \<and> next_node f \<le> next_node g \<and>
     open_fds g = open_fds f \<and>
     (\<forall>i n. get_node f i = Some n \<longrightarrow> i \<in> readonly f \<longrightarrow> \<not> is_dir f i \<longrightarrow> get_node g i = Some n) \<and>
     (\<forall>i n. get_node f i = Some n \<longrightarrow> 0 < open_count f i \<longrightarrow>
        (\<exists>m. get_node g i = Some m \<and> same_sort n m)) \<and>
     (\<forall>i m. get_node g i = Some m \<longrightarrow>
        (\<exists>n. get_node f i = Some n \<and> same_sort n m) \<or> next_node f \<le> i \<and> guest_made m)"

lemma same_sort_refl [simp]: "same_sort n n"
  by (simp add: same_sort_def)

lemma same_sort_dirs [simp]: "same_sort (NDir c) (NDir d)"
  by (simp add: same_sort_def)

lemma same_sort_put: "is_private n \<Longrightarrow> same_sort n (NFile d)"
  by (simp add: same_sort_def)

lemma same_sort_trans: "same_sort a b \<Longrightarrow> same_sort b c \<Longrightarrow> same_sort a c"
  by (auto simp: same_sort_def is_private_def split: node.splits)

lemma same_sort_made: "same_sort n m \<Longrightarrow> guest_made n \<Longrightarrow> guest_made m"
  by (auto simp: same_sort_def guest_made_def is_private_def split: node.splits)

lemma same_sort_is_dir: "same_sort n m \<Longrightarrow> (\<exists>c. n = NDir c) \<longleftrightarrow> (\<exists>d. m = NDir d)"
  by (auto simp: same_sort_def is_private_def split: node.splits)

lemma keepsI:
  assumes "readonly g = readonly f" "next_node f \<le> next_node g" "open_fds g = open_fds f"
    and "\<And>i n. get_node f i = Some n \<Longrightarrow> i \<in> readonly f \<Longrightarrow> \<not> is_dir f i \<Longrightarrow> get_node g i = Some n"
    and "\<And>i n. get_node f i = Some n \<Longrightarrow> 0 < open_count f i \<Longrightarrow> \<exists>m. get_node g i = Some m \<and> same_sort n m"
    and "\<And>i m. get_node g i = Some m \<Longrightarrow>
        (\<exists>n. get_node f i = Some n \<and> same_sort n m) \<or> next_node f \<le> i \<and> guest_made m"
  shows "keeps f g"
  unfolding keeps_def using assms by (intro conjI allI impI)

lemma keeps_refl: "keeps f f"
  by (rule keepsI) auto

lemma keeps_readonly: "keeps f g \<Longrightarrow> readonly g = readonly f"
  and keeps_next: "keeps f g \<Longrightarrow> next_node f \<le> next_node g"
  and keeps_open_fds: "keeps f g \<Longrightarrow> open_fds g = open_fds f"
  by (simp_all add: keeps_def)

lemma keeps_readonly_node:
  "keeps f g \<Longrightarrow> get_node f i = Some n \<Longrightarrow> i \<in> readonly f \<Longrightarrow> \<not> is_dir f i \<Longrightarrow> get_node g i = Some n"
  by (simp add: keeps_def)

lemma keeps_open_node:
  "keeps f g \<Longrightarrow> get_node f i = Some n \<Longrightarrow> 0 < open_count f i \<Longrightarrow>
     \<exists>m. get_node g i = Some m \<and> same_sort n m"
  by (simp add: keeps_def)

lemma keeps_old_node:
  "keeps f g \<Longrightarrow> get_node g i = Some m \<Longrightarrow>
     (\<exists>n. get_node f i = Some n \<and> same_sort n m) \<or> next_node f \<le> i \<and> guest_made m"
  by (simp add: keeps_def)

lemma keeps_is_dir: "keeps f g \<Longrightarrow> is_dir g i \<Longrightarrow> i < next_node f \<Longrightarrow> is_dir f i"
  by (elim is_dirE) (auto dest!: keeps_old_node same_sort_is_dir intro: is_dirI)

lemma keeps_trans:
  assumes fg: "keeps f g" and gh: "keeps g h"
  shows "keeps f h"
proof (rule keepsI)
  show "readonly h = readonly f" "next_node f \<le> next_node h"
    using keeps_readonly [OF fg] keeps_readonly [OF gh] keeps_next [OF fg] keeps_next [OF gh] by auto
  show "open_fds h = open_fds f" using keeps_open_fds [OF fg] keeps_open_fds [OF gh] by simp
  show "get_node h i = Some n" if "get_node f i = Some n" "i \<in> readonly f" "\<not> is_dir f i" for i n
  proof -
    have "get_node g i = Some n" using keeps_readonly_node [OF fg that] .
    moreover have "\<not> is_dir g i" using calculation that by (simp add: is_dir_def)
    ultimately show ?thesis
      using keeps_readonly_node [OF gh] keeps_readonly [OF fg] that(2) by simp
  qed
  show "\<exists>m. get_node h i = Some m \<and> same_sort n m" if "get_node f i = Some n" "0 < open_count f i" for i n
  proof -
    obtain m where m: "get_node g i = Some m" "same_sort n m" using keeps_open_node [OF fg \<open>get_node f i = Some n\<close>] \<open>0 < open_count f i\<close> by auto
    have "0 < open_count g i" using \<open>0 < open_count f i\<close> keeps_open_fds [OF fg] by (simp add: open_count_def)
    from keeps_open_node [OF gh m(1) this] m(2) show ?thesis by (blast intro: same_sort_trans)
  qed
  show "(\<exists>n. get_node f i = Some n \<and> same_sort n m) \<or> next_node f \<le> i \<and> guest_made m"
    if "get_node h i = Some m" for i m
    using keeps_old_node [OF gh that] keeps_old_node [OF fg] keeps_next [OF fg]
    by (blast intro: same_sort_trans same_sort_made order_trans)
qed

text \<open>A change that replaces a single node by one of its sort, or frees one nobody may use.\<close>

lemma keeps_replace:
  assumes "readonly g = readonly f" "next_node g = next_node f" "open_fds g = open_fds f"
    and "\<And>j. j \<noteq> i \<Longrightarrow> get_node g j = get_node f j"
    and "get_node f i = Some n" "get_node g i = Some m" "same_sort n m" "i \<notin> readonly f \<or> is_dir f i"
  shows "keeps f g"
proof (rule keepsI)
  show "get_node g j = Some k" if "get_node f j = Some k" "j \<in> readonly f" "\<not> is_dir f j" for j k
    using assms(4,8) that by (cases "j = i") auto
  show "\<exists>m. get_node g j = Some m \<and> same_sort k m" if "get_node f j = Some k" for j k
    using assms(4-7) that by (cases "j = i") auto
  show "(\<exists>n. get_node f j = Some n \<and> same_sort n k) \<or> next_node f \<le> j \<and> guest_made k"
    if "get_node g j = Some k" for j k
    using assms(4-7) that by (cases "j = i") auto
qed (use assms(1-3) in simp_all)

lemma keeps_put: "i \<notin> readonly f \<Longrightarrow> get_node f i = Some n \<Longrightarrow> is_private n \<Longrightarrow> keeps f (set_node f i (NFile d))"
  by (rule keeps_replace) (auto simp: same_sort_put)

lemma keeps_remove_child: "keeps f (remove_child f p nm)"
proof (cases "is_dir f p")
  case True
  then obtain c where "get_node f p = Some (NDir c)" by (rule is_dirE)
  then show ?thesis using True by (intro keeps_replace) (auto simp: get_remove_child)
next
  case False
  then have "remove_child f p nm = f"
    by (auto simp: remove_child_def is_dir_def split: option.splits node.splits)
  then show ?thesis by (simp add: keeps_refl)
qed

lemma keeps_insert_child: "keeps f (insert_child f p nm i)"
proof (cases "is_dir f p")
  case True
  then obtain c where "get_node f p = Some (NDir c)" by (rule is_dirE)
  then show ?thesis using True by (intro keeps_replace) (auto simp: get_insert_child)
next
  case False
  then have "insert_child f p nm i = f"
    by (auto simp: insert_child_def is_dir_def split: option.splits node.splits)
  then show ?thesis by (simp add: keeps_refl)
qed

lemma keeps_alloc: "fs_inv f \<Longrightarrow> guest_made n \<Longrightarrow> keeps f (snd (alloc f n))"
  using next_unused [of f] by (intro keepsI) (auto simp: open_count_def split: if_splits)

lemma is_fresh_made: "is_fresh n \<Longrightarrow> guest_made n"
  by (auto simp: is_fresh_def guest_made_def split: node.splits)

lemma keeps_free:
  "\<lbrakk>i \<notin> readonly f; open_count f i = 0\<rbrakk> \<Longrightarrow> keeps f (f\<lparr>nodes := bt_remove i (nodes f)\<rparr>)"
  by (rule keepsI) (auto simp: open_count_def split: if_splits)

lemma keeps_add_child: "fs_inv f \<Longrightarrow> is_fresh n \<Longrightarrow> keeps f (add_child f p nm n)"
  unfolding add_child_eq by (rule keeps_trans [OF keeps_alloc keeps_insert_child]) (simp_all add: is_fresh_made)

lemma table_step_keeps: "table_step f g \<Longrightarrow> fs_inv f \<Longrightarrow> keeps f g"
  by (induction rule: table_step.induct)
    (simp_all add: keeps_put keeps_remove_child keeps_insert_child keeps_free keeps_add_child)

interpretation guest: table_contract fs_inv keeps
  by unfold_locales (auto intro: keeps_refl keeps_trans table_step_inv table_step_keeps)

end
