(* ===== verification/Vfs_Refine.thy ===== *)
theory Vfs_Refine
  imports Vfs_Table
begin

text \<open>Every descriptor operation refines a sequence of table changes.\<close>

subsection \<open>Data\<close>

lemma table_step_put:
  "i \<notin> readonly f \<Longrightarrow> get_node f i = Some n \<Longrightarrow> is_private n \<Longrightarrow> table_steps f (set_node f i (NFile d))"
  by (blast intro: table_step.put)

lemma copy_up_steps: "i \<notin> readonly f \<Longrightarrow> copy_up f w i = (g, w') \<Longrightarrow> table_steps f g"
  by (auto simp: copy_up_def is_private_def split: option.splits node.splits prod.splits intro!: table_step_put)

lemma copy_up_readonly: "copy_up f w i = (g, w') \<Longrightarrow> readonly g = readonly f"
  by (auto simp: copy_up_def split: option.splits node.splits prod.splits)

lemma private_write_steps:
  assumes "i \<notin> readonly f" and "private_write f w i off b = (r, g, w')"
  shows "table_steps f g"
proof -
  obtain f1 w1 where up: "copy_up f w i = (f1, w1)" by fastforce
  have f1: "table_steps f f1" "i \<notin> readonly f1"
    using copy_up_steps [OF assms(1) up] copy_up_readonly [OF up] assms(1) by auto
  have "table_steps f1 (set_node f1 i (NFile d'))" if "get_node f1 i = Some (NFile d)" for d d'
    using f1(2) that by (rule table_step_put) (simp add: is_private_def)
  then show ?thesis
    using assms(2) f1(1) up
    by (auto simp: private_write_def split: option.splits node.splits intro: rtranclp_trans)
qed

lemma fd_write_steps: "fd_write e f w pl b off = (r, g, w') \<Longrightarrow> table_steps f g"
proof (cases pl)
  case (Local i)
  assume "fd_write e f w pl b off = (r, g, w')"
  then show ?thesis
    using Local
    by (auto simp: is_readonly_def Let_def split: if_splits prod.splits kind.splits
        dest: private_write_steps)
qed (auto split: sum.splits prod.splits fs_reply.splits)

lemma set_size_steps: "set_size e f w pl n = (r, g, w') \<Longrightarrow> table_steps f g"
proof (cases pl)
  case (Local i)
  assume run: "set_size e f w pl n = (r, g, w')"
  have resize: "table_steps f (case get_node f2 i of Some (NFile d) \<Rightarrow> set_node f2 i (NFile (h d)) | _ \<Rightarrow> f2)"
    if "i \<notin> readonly f" "copy_up f w1 i = (f2, w2)" for w1 f2 w2 h
  proof -
    have "table_steps f f2" "i \<notin> readonly f2"
      using copy_up_steps [OF that] copy_up_readonly [OF that(2)] that(1) by auto
    moreover have "table_steps f2 (set_node f2 i (NFile x))" if "get_node f2 i = Some (NFile d)" for d x
      using calculation(2) that by (rule table_step_put) (simp add: is_private_def)
    ultimately show ?thesis by (auto split: option.splits node.splits intro: rtranclp_trans)
  qed
  show ?thesis
    using run Local
    by (auto simp: is_readonly_def Let_def split: if_splits prod.splits kind.splits intro!: resize)
qed (auto split: sum.splits prod.splits)

lemma append_steps: "append_via_stream e f w pl = (r, g, w') \<Longrightarrow> table_steps f g"
  by (cases pl)
    (auto simp: is_readonly_def Let_def split: if_splits prod.splits kind.splits sum.splits
      dest: copy_up_steps)

definition stream_ok :: "fs \<Rightarrow> out_stream \<Rightarrow> bool" where
  "stream_ok f s =
     (case s of
        OutVfs i _ \<Rightarrow> i < next_node f \<and> i \<notin> readonly f
      | OutProvider r _ _ \<Rightarrow> \<not> rd_readonly r
      | _ \<Rightarrow> True)"

lemma out_write_steps: "out_write e f w s b = (r, s', g, w') \<Longrightarrow> stream_ok f s \<Longrightarrow> table_steps f g"
  by (cases s)
    (auto simp: stream_ok_def vfs_out_write_def split: prod.splits sum.splits dest: private_write_steps)

subsection \<open>Names\<close>

definition place_ok :: "fs \<Rightarrow> desc_place \<Rightarrow> bool" where
  "place_ok f pl = (case pl of Local i \<Rightarrow> i < next_node f | Remote _ \<Rightarrow> True)"

lemma walk_less:
  "\<lbrakk>walk f ff hops todo cur anc = Some i; fs_inv f; cur < next_node f; \<forall>a \<in> set anc. a < next_node f\<rbrakk> \<Longrightarrow>
     i < next_node f"
proof (induction f ff hops todo cur anc rule: walk.induct)
  case (2 f ff hops name todo cur anc)
  have root: "root < next_node f" using fs_invD(2,4) [OF "2.prems"(2)] by (auto elim: is_dirE)
  have anc': "\<forall>a \<in> set (tl anc). a < next_node f" using "2.prems"(4) by (cases anc) auto
  have up: "(case anc of [] \<Rightarrow> root | a # _ \<Rightarrow> a) < next_node f"
    using "2.prems"(4) root by (cases anc) auto
  show ?case
  proof (cases "name = ''..''")
    case True
    with "2.prems" "2.IH"(1) up anc' show ?thesis by simp
  next
    case False
    have "n < next_node f" if "look f cur name = Some (n, nd)" for n nd
      using that fs_invD(2) [OF "2.prems"(2)] by (auto simp: look_def split: option.splits node.splits)
    then show ?thesis
      using False "2.prems" "2.IH"(2-) root by (auto split: option.splits if_splits)
  qed
qed simp

lemma resolve_at_less:
  "resolve_at f start path ff = Some i \<Longrightarrow> fs_inv f \<Longrightarrow> start < next_node f \<Longrightarrow> i < next_node f"
  by (auto simp: resolve_at_def walk_start_def split: if_splits elim!: walk_less)

lemma create_step:
  "resolve_parent f s path = Some (p, nm) \<Longrightarrow> \<not> at_capacity f \<Longrightarrow> is_fresh n \<Longrightarrow> table_step f (add_child f p nm n)"
  by (auto dest!: resolve_parent_dir intro: table_step.create)

lemma create_directory_at_steps: "create_directory_at e f w pl path = (r, g, w') \<Longrightarrow> table_steps f g"
  by (auto simp: create_directory_at_def is_fresh_def split: resolved.splits if_splits desc_place.splits
      option.splits prod.splits intro!: create_step)

lemma truncate_steps: "truncate_node e f w i = (g, w') \<Longrightarrow> i \<notin> readonly f \<Longrightarrow> table_steps f g"
  by (auto simp: truncate_node_def is_private_def split: option.splits node.splits intro!: table_step_put)

lemma open_local_steps: "open_local e f w s ff path fl = (r, g, w') \<Longrightarrow> table_steps f g"
  by (auto simp: open_local_def is_fresh_def split: option.splits if_splits prod.splits
      intro!: create_step dest: truncate_steps)

lemma open_local_less:
  "open_local e f w s ff path fl = (Inr i, g, w') \<Longrightarrow> fs_inv f \<Longrightarrow> s < next_node f \<Longrightarrow> i < next_node g"
  by (auto simp: open_local_def truncate_node_def split: option.splits if_splits prod.splits node.splits
      dest: resolve_at_less)

text \<open>\<open>open_at\<close> changes the table and then counts the descriptor it hands out.\<close>

lemma open_at_steps:
  assumes "open_at e f w pl ff path fl = (r, g, w')" and "fs_inv f" and "place_ok f pl"
  obtains f1 where "table_steps f f1"
    and "case r of Inr (Local i) \<Rightarrow> i < next_node f1 \<and> g = open_ref f1 i | _ \<Rightarrow> g = f1"
proof (cases "\<exists>i. r = Inr (Local i)")
  case True
  then obtain i where r: "r = Inr (Local i)" by blast
  then obtain s f1 where "open_local e f w s ff path fl = (Inr i, f1, w')" "pl = Local s" "g = open_ref f1 i"
    using assms(1)
    by (auto simp: open_at_def remote_open_def split: resolved.splits desc_place.splits prod.splits sum.splits
        if_splits fs_reply.splits)
  with open_local_steps open_local_less assms(2,3) that [of f1] r show ?thesis
    by (auto simp: place_ok_def)
next
  case False
  then have "table_steps f g"
    using assms(1)
    by (auto simp: open_at_def split: resolved.splits desc_place.splits prod.splits sum.splits
        dest: open_local_steps)
  with that [of g] False show ?thesis by (auto split: sum.splits desc_place.splits)
qed

lemma child_of_Inr: "child_of f p nm = Inr i \<longleftrightarrow> (\<exists>c. get_node f p = Some (NDir c) \<and> map_of c nm = Some i)"
  by (auto simp: child_of_def split: option.splits node.splits)

lemma unlink_local_steps:
  assumes "unlink_local f s path dir = (r, g)" and "fs_inv f"
  shows "table_steps f g"
proof -
  have one: "table_steps f (remove_child f p nm)"
    and two: "\<lbrakk>\<not> node_is_referenced (remove_child f p nm) i; open_count (remove_child f p nm) i = 0\<rbrakk> \<Longrightarrow>
      table_steps f (remove_child f p nm \<lparr>nodes := bt_remove i (nodes (remove_child f p nm))\<rparr>)"
    if "child_of f p nm = Inr i" "i \<notin> readonly f" for p nm i
  proof -
    from that(1) obtain c where c: "get_node f p = Some (NDir c)" "map_of c nm = Some i"
      by (auto simp: child_of_Inr)
    show one: "table_steps f (remove_child f p nm)" using c that(2) by (blast intro: table_step.detach)
    assume "\<not> node_is_referenced (remove_child f p nm) i" "open_count (remove_child f p nm) i = 0"
    then show "table_steps f (remove_child f p nm \<lparr>nodes := bt_remove i (nodes (remove_child f p nm))\<rparr>)"
      using fs_inv_children [OF assms(2) c] that(2)
      by (intro rtranclp.rtrancl_into_rtrancl [OF one] table_step.free) auto
  qed
  show ?thesis
    using assms(1)
    by (auto simp: unlink_local_def Let_def split: option.splits prod.splits sum.splits if_splits
        intro: one two)
qed

lemma unlink_steps: "unlink e f w pl path dir = (r, g, w') \<Longrightarrow> fs_inv f \<Longrightarrow> table_steps f g"
  by (auto simp: unlink_def split: resolved.splits if_splits prod.splits desc_place.splits
      dest: unlink_local_steps)

lemma rename_local_steps:
  assumes "rename_local f a old b new = (r, g)" and "fs_inv f"
  shows "table_steps f g"
proof -
  have "table_steps f (insert_child (remove_child f p nm) q nm' i)"
    if "child_of f p nm = Inr i" "i \<notin> readonly f" for p nm i q nm'
  proof -
    from that(1) obtain c where c: "get_node f p = Some (NDir c)" "map_of c nm = Some i"
      by (auto simp: child_of_Inr)
    have "table_step f (remove_child f p nm)" using c that(2) by (rule table_step.detach)
    moreover have "table_step (remove_child f p nm) (insert_child (remove_child f p nm) q nm' i)"
      using fs_inv_children [OF assms(2) c] that(2) by (intro table_step.link) auto
    ultimately show ?thesis by auto
  qed
  then show ?thesis
    using assms(1)
    by (auto simp: rename_local_def split: option.splits prod.splits sum.splits if_splits)
qed

lemma rename_at_steps: "rename_at e f w same pl old pl' new = (r, g, w') \<Longrightarrow> fs_inv f \<Longrightarrow> table_steps f g"
  by (auto simp: rename_at_def split: resolved.splits if_splits prod.splits desc_place.splits
      dest: rename_local_steps)

lemma link_at_steps:
  assumes "link_at f same pl ff old pl' new = (r, g)" and "fs_inv f" and "place_ok f pl"
  shows "table_steps f g"
proof -
  have "table_steps f (insert_child f p nm i)"
    if "get_node f i = Some n" "\<not> is_dir f i" "i \<notin> readonly f" for i n p nm
    using that fs_invD(2,4) [OF assms(2)] by (intro r_into_rtranclp table_step.link) (auto intro!: gr0I)
  then show ?thesis
    using assms(1) by (auto simp: link_at_def is_dir_def split: if_splits desc_place.splits option.splits node.splits prod.splits)
qed

lemma symlink_at_steps: "symlink_at f pl src dst = (r, g) \<Longrightarrow> table_steps f g"
  by (auto simp: symlink_at_def is_fresh_def split: resolved.splits if_splits desc_place.splits
      option.splits prod.splits intro!: create_step)

end
