(* ===== verification/Vfs_Session.thy ===== *)
theory Vfs_Session
  imports Vfs_Refine
begin

text \<open>
  A guest at work on its filesystem: the handle table it holds (descriptors and streams), the
  calls it can make, what the host can do to the same filesystem in between, and what other
  nodes do to the shared world. The runs of \<open>vfs_step\<close> are all interleavings of them; every
  call takes the filesystem's lock, so one call is one step.
\<close>

subsection \<open>Sessions\<close>

record session =
  s_fs :: fs
  s_world :: world
  s_fds :: "(nat \<times> desc_place) list"
  s_ins :: "(nat \<times> in_stream) list"
  s_outs :: "(nat \<times> out_stream) list"
  s_next :: nat

definition session_new :: "fs \<Rightarrow> world \<Rightarrow> session" where
  "session_new f w =
     \<lparr>s_fs = f, s_world = w, s_fds = [], s_ins = [], s_outs = [], s_next = 0\<rparr>"

definition delete_handle :: "nat \<Rightarrow> (nat \<times> 'a) list \<Rightarrow> (nat \<times> 'a) list" where
  "delete_handle h t = filter (\<lambda>(k, _). k \<noteq> h) t"

definition push_fd :: "desc_place res \<Rightarrow> session \<Rightarrow> session" where
  "push_fd r s =
     (case r of
        Inl _ \<Rightarrow> s
      | Inr pl \<Rightarrow> s\<lparr>s_fds := (s_next s, pl) # s_fds s, s_next := s_next s + 1\<rparr>)"

definition push_in :: "in_stream res \<Rightarrow> session \<Rightarrow> session" where
  "push_in r s =
     (case r of
        Inl _ \<Rightarrow> s
      | Inr x \<Rightarrow> s\<lparr>s_ins := (s_next s, x) # s_ins s, s_next := s_next s + 1\<rparr>)"

definition push_out :: "out_stream res \<Rightarrow> session \<Rightarrow> session" where
  "push_out r s =
     (case r of
        Inl _ \<Rightarrow> s
      | Inr x \<Rightarrow> s\<lparr>s_outs := (s_next s, x) # s_outs s, s_next := s_next s + 1\<rparr>)"

datatype guest_call =
    GetDirectories
  | Drop nat
  | Read nat u64 u64
  | Write nat bytes u64
  | SetSize nat u64
  | ReadStream nat u64
  | WriteStream nat u64
  | AppendStream nat
  | StreamRead nat nat
  | StreamWrite nat bytes
  | DropStream nat
  | ReadDirectory nat
  | CreateDirectoryAt nat string
  | Stat nat
  | StatAt nat bool string
  | OpenAt nat bool string open_flags
  | UnlinkAt nat string bool
  | RenameAt nat string nat string
  | LinkAt nat bool string nat string
  | SymlinkAt nat string string

text \<open>A call on a handle that is not in the table traps in the host and changes nothing.\<close>

definition with_fd :: "session \<Rightarrow> nat \<Rightarrow> (desc_place \<Rightarrow> session) \<Rightarrow> session" where
  "with_fd s h k = (case map_of (s_fds s) h of None \<Rightarrow> s | Some pl \<Rightarrow> k pl)"

definition in_world :: "session \<Rightarrow> 'a \<times> world \<Rightarrow> session" where
  "in_world s x = s\<lparr>s_world := snd x\<rparr>"

definition in_fs :: "session \<Rightarrow> 'a \<times> fs \<times> world \<Rightarrow> session" where
  "in_fs s x = s\<lparr>s_fs := fst (snd x), s_world := snd (snd x)\<rparr>"

fun exec :: "env \<Rightarrow> session \<Rightarrow> guest_call \<Rightarrow> session" where
  "exec e s GetDirectories =
     push_fd (Inr (fst (hd (fst (get_directories (s_fs s)))))) (s\<lparr>s_fs := snd (get_directories (s_fs s))\<rparr>)"
| "exec e s (Drop h) =
     with_fd s h (\<lambda>pl.
       let (f, w) = fd_drop e (s_fs s) (s_world s) pl
       in s\<lparr>s_fs := f, s_world := w, s_fds := delete_handle h (s_fds s)\<rparr>)"
| "exec e s (Read h len off) =
     with_fd s h (\<lambda>pl. in_world s (fd_read e (s_fs s) (s_world s) pl len off))"
| "exec e s (Write h b off) =
     with_fd s h (\<lambda>pl. in_fs s (fd_write e (s_fs s) (s_world s) pl b off))"
| "exec e s (SetSize h n) =
     with_fd s h (\<lambda>pl. in_fs s (set_size e (s_fs s) (s_world s) pl n))"
| "exec e s (ReadStream h off) =
     with_fd s h (\<lambda>pl.
       let x = read_via_stream e (s_fs s) (s_world s) pl off in push_in (fst x) (in_world s x))"
| "exec e s (WriteStream h off) =
     with_fd s h (\<lambda>pl.
       let x = write_via_stream e (s_fs s) (s_world s) pl off in push_out (fst x) (in_world s x))"
| "exec e s (AppendStream h) =
     with_fd s h (\<lambda>pl.
       let x = append_via_stream e (s_fs s) (s_world s) pl in push_out (fst x) (in_fs s x))"
| "exec e s (StreamRead k n) =
     (case map_of (s_ins s) k of
        None \<Rightarrow> s
      | Some st \<Rightarrow>
         (let (_, st', w) = in_read e (s_world s) st n
          in s\<lparr>s_world := w, s_ins := (k, st') # delete_handle k (s_ins s)\<rparr>))"
| "exec e s (StreamWrite k b) =
     (case map_of (s_outs s) k of
        None \<Rightarrow> s
      | Some st \<Rightarrow>
         (let (_, st', f, w) = out_write e (s_fs s) (s_world s) st b
          in s\<lparr>s_fs := f, s_world := w, s_outs := (k, st') # delete_handle k (s_outs s)\<rparr>))"
| "exec e s (DropStream k) =
     s\<lparr>s_ins := delete_handle k (s_ins s), s_outs := delete_handle k (s_outs s)\<rparr>"
| "exec e s (ReadDirectory h) =
     with_fd s h (\<lambda>pl. in_world s (read_directory e (s_fs s) (s_world s) pl))"
| "exec e s (CreateDirectoryAt h path) =
     with_fd s h (\<lambda>pl. in_fs s (create_directory_at e (s_fs s) (s_world s) pl path))"
| "exec e s (Stat h) =
     with_fd s h (\<lambda>pl. in_world s (fd_stat e (s_fs s) (s_world s) pl))"
| "exec e s (StatAt h follow path) =
     with_fd s h (\<lambda>pl. in_world s (stat_at e (s_fs s) (s_world s) pl follow path))"
| "exec e s (OpenAt h follow path fl) =
     with_fd s h (\<lambda>pl.
       let x = open_at e (s_fs s) (s_world s) pl follow path fl in push_fd (fst x) (in_fs s x))"
| "exec e s (UnlinkAt h path dir) =
     with_fd s h (\<lambda>pl. in_fs s (unlink e (s_fs s) (s_world s) pl path dir))"
| "exec e s (RenameAt h old h' new) =
     with_fd s h (\<lambda>pl. with_fd s h' (\<lambda>pl'.
       in_fs s (rename_at e (s_fs s) (s_world s) True pl old pl' new)))"
| "exec e s (LinkAt h follow old h' new) =
     with_fd s h (\<lambda>pl. with_fd s h' (\<lambda>pl'.
       s\<lparr>s_fs := snd (link_at (s_fs s) True pl follow old pl' new)\<rparr>))"
| "exec e s (SymlinkAt h src dst) =
     with_fd s h (\<lambda>pl. s\<lparr>s_fs := snd (symlink_at (s_fs s) pl src dst)\<rparr>)"

datatype host_call =
    MountFile string nat bool
  | MountHostFile string string bool
  | MountProvider string nat bool
  | PutRoFile string nat
  | PutFile string bytes
  | PutSymlink string string
  | EnsureDirPath string
  | RemovePath string
  | ClearDir string
  | EnsureDevices

fun host_exec :: "fs \<Rightarrow> host_call \<Rightarrow> fs" where
  "host_exec f (MountFile at cell wr) = mount_file f at cell wr"
| "host_exec f (MountHostFile at p wr) = mount_host_file f at p wr"
| "host_exec f (MountProvider at conn wr) = mount_provider f at conn wr"
| "host_exec f (PutRoFile path a) = put_ro_file_at f path a"
| "host_exec f (PutFile path b) = put_file_at f path b"
| "host_exec f (PutSymlink path t) = put_symlink_at f path t"
| "host_exec f (EnsureDirPath path) = fst (ensure_dir_path f path)"
| "host_exec f (RemovePath path) = remove_path f path"
| "host_exec f (ClearDir path) = clear_dir_at f path"
| "host_exec f EnsureDevices = ensure_standard_devices f"

inductive vfs_step :: "session \<Rightarrow> session \<Rightarrow> bool" where
  guest: "vfs_step s (exec e s c)"
| host: "vfs_step s (s\<lparr>s_fs := host_exec (s_fs s) hc\<rparr>)"
| outside: "vfs_step s (s\<lparr>s_world := w\<rparr>)"

inductive vfs_reachable :: "session \<Rightarrow> bool" where
  start: "vfs_reachable (session_new fs_default w)"
| step: "vfs_reachable s \<Longrightarrow> vfs_step s s' \<Longrightarrow> vfs_reachable s'"

inductive_cases vfs_stepE: "vfs_step s s'"

subsection \<open>The invariant\<close>

definition handles_of :: "nat \<Rightarrow> (nat \<times> desc_place) list \<Rightarrow> nat" where
  "handles_of i t = length (filter (\<lambda>(_, pl). pl = Local i) t)"

definition session_inv :: "session \<Rightarrow> bool" where
  "session_inv s \<longleftrightarrow>
     fs_inv (s_fs s) \<and>
     (\<forall>(h, pl) \<in> set (s_fds s). place_ok (s_fs s) pl \<and> h < s_next s) \<and> distinct (map fst (s_fds s)) \<and>
     (\<forall>(k, st) \<in> set (s_outs s). stream_ok (s_fs s) st) \<and>
     (\<forall>i. open_count (s_fs s) i = handles_of i (s_fds s))"

lemma session_invD:
  assumes "session_inv s"
  shows "fs_inv (s_fs s)"
    and "map_of (s_fds s) h = Some pl \<Longrightarrow> place_ok (s_fs s) pl"
    and "(h, pl) \<in> set (s_fds s) \<Longrightarrow> place_ok (s_fs s) pl"
    and "(h, pl) \<in> set (s_fds s) \<Longrightarrow> h < s_next s"
    and "distinct (map fst (s_fds s))"
    and "(k, st) \<in> set (s_outs s) \<Longrightarrow> stream_ok (s_fs s) st"
    and "open_count (s_fs s) i = handles_of i (s_fds s)"
  using assms by (auto simp: session_inv_def dest: map_of_SomeD)

lemma session_invI:
  assumes "fs_inv (s_fs s)"
    and "\<And>h pl. (h, pl) \<in> set (s_fds s) \<Longrightarrow> place_ok (s_fs s) pl \<and> h < s_next s"
    and "distinct (map fst (s_fds s))"
    and "\<And>k st. (k, st) \<in> set (s_outs s) \<Longrightarrow> stream_ok (s_fs s) st"
    and "\<And>i. open_count (s_fs s) i = handles_of i (s_fds s)"
  shows "session_inv s"
  unfolding session_inv_def using assms by blast

text \<open>What a new filesystem owes the session's handles.\<close>

definition extends :: "fs \<Rightarrow> fs \<Rightarrow> bool" where
  "extends f g \<longleftrightarrow>
     fs_inv g \<and> next_node f \<le> next_node g \<and> open_fds g = open_fds f \<and>
     (\<forall>i < next_node f. i \<in> readonly g \<longleftrightarrow> i \<in> readonly f)"

lemma extends_steps: "table_steps f g \<Longrightarrow> fs_inv f \<Longrightarrow> extends f g"
  using guest.steps_ok guest.steps_rel
  by (fastforce simp: extends_def dest: keeps_next keeps_open_fds keeps_readonly)

lemma extends_refl: "fs_inv f \<Longrightarrow> extends f f"
  by (simp add: extends_def)

lemma place_ok_mono: "place_ok f pl \<Longrightarrow> next_node f \<le> next_node g \<Longrightarrow> place_ok g pl"
  by (auto simp: place_ok_def split: desc_place.splits)

lemma stream_ok_mono: "stream_ok f st \<Longrightarrow> extends f g \<Longrightarrow> stream_ok g st"
  by (auto simp: stream_ok_def extends_def split: out_stream.splits)

lemma open_count_open_ref: "open_count (open_ref f i) j = open_count f j + (if j = i then 1 else 0)"
  by (simp add: open_count_def open_ref_def)

lemma session_inv_extends:
  assumes "session_inv s" and "extends (s_fs s) g"
  shows "session_inv (s\<lparr>s_fs := g, s_world := w\<rparr>)"
  using assms
  by (auto simp: session_inv_def open_count_def extends_def
      intro: place_ok_mono stream_ok_mono [unfolded extends_def])

subsection \<open>The host's operations keep it\<close>

lemma extends_trans: "extends f g \<Longrightarrow> extends g h \<Longrightarrow> extends f h"
  by (auto simp: extends_def)

lemma extendsI:
  "fs_inv g \<Longrightarrow> next_node f \<le> next_node g \<Longrightarrow> open_fds g = open_fds f \<Longrightarrow> readonly g = readonly f \<Longrightarrow> extends f g"
  by (simp add: extends_def)

lemma extends_ensure_dirs: "fs_inv f \<Longrightarrow> extends f (fst (ensure_dirs f cur names))"
proof (induction f cur names rule: ensure_dirs.induct)
  case (1 f cur)
  then show ?case by (simp add: extends_refl)
next
  case (2 f cur name names)
  have add: "extends f (add_child f cur name (NDir []))" if "\<not> at_capacity f"
    using that 2(3) by (intro extendsI) (simp_all add: fs_inv_add_child)
  show ?case
    using 2 by (auto simp: extends_refl fs_inv_add_child split: option.splits node.splits
        intro: extends_trans [OF add])
qed

lemma extends_ensure_dir_path: "fs_inv f \<Longrightarrow> ensure_dir_path f path = (g, x) \<Longrightarrow> extends f g"
  using extends_ensure_dirs [of f root "components path"] by (simp add: ensure_dir_path_def)

lemma extends_mount_node_at:
  assumes "fs_inv f" and "\<And>b. node_ok b n"
  shows "extends f (mount_node_at f at n ro)"
proof -
  have inv: "fs_inv (mount_node_at f at n ro)" using assms by (rule fs_inv_mount_node_at)
  show ?thesis
  proof (cases "split_last (components at)")
    case None
    then have "mount_node_at f at n ro = f" by (simp only: mount_node_at_def option.case)
    then show ?thesis using assms(1) by (simp add: extends_refl)
  next
    case (Some nd)
    obtain name dirs f1 x where nd: "nd = (name, dirs)" and ens: "ensure_dir_path f (join_with ''/'' dirs) = (f1, x)"
      by (metis surj_pair)
    have ext: "extends f f1" using extends_ensure_dir_path [OF assms(1) ens] .
    then show ?thesis
      using inv Some nd ens
      by (auto simp: mount_node_at_def Let_def extends_def split: option.splits if_splits)
  qed
qed

lemma drop_all_simps [simp]:
  "next_node (fold (\<lambda>i g. drop_subtree g i) ids f) = next_node f"
  "readonly (fold (\<lambda>i g. drop_subtree g i) ids f) = readonly f"
  "open_fds (fold (\<lambda>i g. drop_subtree g i) ids f) = open_fds f"
  by (induction ids arbitrary: f) simp_all

lemma extends_remove_path: "fs_inv f \<Longrightarrow> extends f (remove_path f path)"
  using fs_inv_remove_path [of f path]
  by (auto simp: remove_path_def intro!: extendsI split: option.splits prod.splits)

lemma extends_clear_dir_at: "fs_inv f \<Longrightarrow> extends f (clear_dir_at f path)"
  using fs_inv_clear_dir_at [of f path]
  by (auto simp: clear_dir_at_def intro!: extendsI split: option.splits node.splits)

lemma extends_ensure_device:
  "fs_inv f \<Longrightarrow> \<forall>b. node_ok b (snd nk) \<Longrightarrow> extends f (ensure_device dev nk f)"
  using fs_inv_ensure_device [of f nk dev]
  by (intro extendsI) (auto simp: ensure_device_def Let_def)

lemma extends_ensure_standard_devices:
  assumes "fs_inv f"
  shows "extends f (ensure_standard_devices f)"
proof -
  have all: "extends g (fold (ensure_device dev) nks g)"
    if "fs_inv g" "\<forall>nk \<in> set nks. \<forall>b. node_ok b (snd nk)" for g dev nks
    using that
  proof (induction nks arbitrary: g)
    case (Cons nk nks)
    then have one: "extends g (ensure_device dev nk g)" by (simp add: extends_ensure_device)
    then have "extends (ensure_device dev nk g) (fold (ensure_device dev) nks (ensure_device dev nk g))"
      using Cons by (simp add: extends_def)
    with one show ?case by (simp add: extends_trans)
  qed (simp add: extends_refl)
  obtain f1 x where f1: "ensure_dir_path f ''dev'' = (f1, x)" by fastforce
  have ext: "extends f f1" "fs_inv f1"
    using extends_ensure_dir_path [OF assms f1] by (simp_all add: extends_def)
  show ?thesis
  proof (cases x)
    case (Some dev)
    show ?thesis
      unfolding ensure_standard_devices_def f1 Some prod.case option.case
      by (rule extends_trans [OF ext(1) all [OF ext(2)]]) simp
  qed (use f1 ext in \<open>simp add: ensure_standard_devices_def\<close>)
qed

lemma extends_host_exec: "fs_inv f \<Longrightarrow> extends f (host_exec f hc)"
  by (cases hc)
    (simp_all add: mount_file_def mount_host_file_def mount_provider_def put_ro_file_at_def
      put_file_at_def put_symlink_at_def extends_mount_node_at extends_remove_path
      extends_clear_dir_at extends_ensure_standard_devices extends_ensure_dirs ensure_dir_path_def)

subsection \<open>The guest's calls keep it\<close>

lemma session_inv_world: "session_inv s \<Longrightarrow> session_inv (in_world s x)"
  by (simp add: in_world_def session_inv_def)

lemma session_inv_steps:
  "session_inv s \<Longrightarrow> table_steps (s_fs s) (fst (snd x)) \<Longrightarrow> session_inv (in_fs s x)"
  unfolding in_fs_def by (rule session_inv_extends) (auto simp: session_inv_def intro: extends_steps)

lemma session_inv_steps':
  "session_inv s \<Longrightarrow> table_steps (s_fs s) g \<Longrightarrow> session_inv (s\<lparr>s_fs := g\<rparr>)"
  using session_inv_steps [of s "((), g, s_world s)"] by (simp add: in_fs_def)

lemma session_inv_push_in: "session_inv s \<Longrightarrow> session_inv (push_in r s)"
  by (fastforce simp: push_in_def session_inv_def split: sum.splits)

lemma session_inv_push_out:
  "session_inv s \<Longrightarrow> (\<And>st. r = Inr st \<Longrightarrow> stream_ok (s_fs s) st) \<Longrightarrow> session_inv (push_out r s)"
  by (fastforce simp: push_out_def session_inv_def split: sum.splits)

lemma session_inv_fd:
  "session_inv s \<Longrightarrow> (\<And>pl. map_of (s_fds s) h = Some pl \<Longrightarrow> place_ok (s_fs s) pl \<Longrightarrow> session_inv (k pl)) \<Longrightarrow>
     session_inv (with_fd s h k)"
  by (simp add: with_fd_def session_invD split: option.split)

lemma ok_open_ref [simp]:
  "place_ok (open_ref f i) pl = place_ok f pl" "stream_ok (open_ref f i) st = stream_ok f st"
  by (simp_all add: place_ok_def stream_ok_def cong: desc_place.case_cong out_stream.case_cong)

lemma session_inv_open:
  assumes s: "session_inv s" and f1: "table_steps (s_fs s) f1"
    and r: "case r of Inr (Local i) \<Rightarrow> i < next_node f1 \<and> g = open_ref f1 i | _ \<Rightarrow> g = f1"
  shows "session_inv (push_fd r (s\<lparr>s_fs := g, s_world := w\<rparr>))"
proof -
  have base: "session_inv (s\<lparr>s_fs := f1, s_world := w\<rparr>)"
    by (intro session_inv_extends s extends_steps f1 session_invD(1) [OF s])
  have D: "(h, pl) \<in> set (s_fds s) \<Longrightarrow> place_ok f1 pl \<and> h < s_next s"
    "(k, st) \<in> set (s_outs s) \<Longrightarrow> stream_ok f1 st" for h pl k st
    using session_invD(3,4,6) [OF base] by auto
  have new: "(s_next s, pl) \<notin> set (s_fds s)" for pl using D(1) [of "s_next s" pl] by auto
  show ?thesis
  proof (cases "\<exists>i. r = Inr (Local i)")
    case True
    then obtain i where "r = Inr (Local i)" "i < next_node f1" "g = open_ref f1 i" using r by auto
    then show ?thesis
      using session_invD(1,5,7) [OF base]
      by (intro session_invI)
        (auto simp: push_fd_def handles_of_def open_count_open_ref fs_inv_open_ref less_Suc_eq
          dest: D simp: place_ok_def [of _ "Local i"])
  next
    case False
    then have "g = f1" using r by (auto split: sum.splits desc_place.splits)
    with False show ?thesis
      using session_invD(1,5,7) [OF base]
      by (cases r; cases "projr r")
        (auto intro!: session_invI simp: push_fd_def base handles_of_def less_Suc_eq new
          dest: D simp: place_ok_def [of _ "Remote _"])
  qed
qed

lemma close_ref_simps [simp]:
  "next_node (close_ref f i) = next_node f" "readonly (close_ref f i) = readonly f"
  by (simp_all add: close_ref_def Let_def split: option.split)

lemma open_count_close_ref: "open_count (close_ref f i) j = open_count f j - (if j = i then 1 else 0)"
  by (auto simp: close_ref_def open_count_def Let_def split: option.splits)

lemma handles_of_delete:
  assumes "distinct (map fst t)" and "map_of t h = Some pl"
  shows "handles_of i (delete_handle h t) = handles_of i t - (if pl = Local i then 1 else 0)"
  using assms
proof (induction t)
  case (Cons x t)
  have same: "delete_handle h t = t" if "h \<notin> fst ` set t"
    using that by (induction t) (auto simp: delete_handle_def)
  have pos: "0 < handles_of i t" if "map_of t h = Some (Local i)"
    using that by (auto simp: handles_of_def filter_empty_conv dest!: map_of_SomeD)
  show ?case
    using Cons same pos by (cases x; cases "fst x = h") (auto simp: handles_of_def delete_handle_def)
qed simp

lemma session_inv_drop:
  assumes s: "session_inv s" and h: "map_of (s_fds s) h = Some pl"
    and g: "fd_drop e (s_fs s) (s_world s) pl = (g, w)"
  shows "session_inv (s\<lparr>s_fs := g, s_world := w, s_fds := delete_handle h (s_fds s)\<rparr>)"
proof -
  note D = session_invD [OF s]
  have frame: "fs_inv g" "next_node g = next_node (s_fs s)" "readonly g = readonly (s_fs s)"
    and cnt: "open_count g i = open_count (s_fs s) i - (if pl = Local i then 1 else 0)" for i
    using g D(1) by (cases pl; auto simp: fs_inv_close_ref open_count_close_ref split: option.splits if_splits)+
  have sub: "set (delete_handle h (s_fds s)) \<subseteq> set (s_fds s)" by (auto simp: delete_handle_def)
  show ?thesis
  proof (rule session_invI, simp_all add: frame cnt D(7) handles_of_delete [OF D(5) h])
    show "place_ok g q \<and> k < s_next s" if "(k, q) \<in> set (delete_handle h (s_fds s))" for k q
      using that sub D(3,4) [of k q] frame by (auto simp: place_ok_def split: desc_place.splits)
    show "distinct (map fst (delete_handle h (s_fds s)))"
      using D(5) by (simp add: delete_handle_def distinct_map_filter)
    show "stream_ok g st" if "(k, st) \<in> set (s_outs s)" for k st
      using D(6) [OF that] frame by (simp add: stream_ok_def split: out_stream.splits)
  qed
qed

lemma write_via_stream_ok:
  "write_via_stream e f w pl off = (Inr st, w') \<Longrightarrow> place_ok f pl \<Longrightarrow> stream_ok f st"
  by (cases pl)
    (auto simp: place_ok_def stream_ok_def is_readonly_def writable_handle_def
      split: if_splits sum.splits prod.splits kind.splits)

lemma append_via_stream_ok:
  assumes "append_via_stream e f w pl = (Inr st, g, w')" and "place_ok f pl" and "fs_inv f"
  shows "stream_ok g st"
proof -
  have ext: "extends f g" using extends_steps [OF append_steps [OF assms(1)] assms(3)] .
  have "stream_ok f st"
    using assms(1,2)
    by (cases pl)
      (auto simp: place_ok_def stream_ok_def is_readonly_def writable_handle_def Let_def
        split: if_splits sum.splits prod.splits kind.splits)
  then show ?thesis using ext by (rule stream_ok_mono)
qed

lemma new_stream_ok:
  "fst (append_via_stream e f w pl) = Inr st \<Longrightarrow> place_ok f pl \<Longrightarrow> fs_inv f \<Longrightarrow>
     stream_ok (fst (snd (append_via_stream e f w pl))) st"
  "fst (write_via_stream e f w pl off) = Inr st \<Longrightarrow> place_ok f pl \<Longrightarrow> stream_ok f st"
  by (cases "append_via_stream e f w pl", simp add: append_via_stream_ok)
    (cases "write_via_stream e f w pl off", simp add: write_via_stream_ok)

lemma out_write_stream_ok: "out_write e f w st b = (r, st', g, w') \<Longrightarrow> stream_ok f st \<Longrightarrow> stream_ok f st'"
  by (cases st)
    (auto simp: stream_ok_def split: prod.splits)

lemma session_inv_stream_write:
  assumes s: "session_inv s" and k: "map_of (s_outs s) k = Some st"
    and run: "out_write e (s_fs s) (s_world s) st b = (r, st', g, w)"
  shows "session_inv (s\<lparr>s_fs := g, s_world := w, s_outs := (k, st') # delete_handle k (s_outs s)\<rparr>)"
proof -
  have ok: "stream_ok (s_fs s) st" using session_invD(6) [OF s] map_of_SomeD [OF k] by blast
  have ext: "extends (s_fs s) g"
    using extends_steps [OF out_write_steps [OF run ok] session_invD(1) [OF s]] .
  have base: "session_inv (s\<lparr>s_fs := g, s_world := w\<rparr>)" using s ext by (rule session_inv_extends)
  have "stream_ok g st'" using stream_ok_mono [OF out_write_stream_ok [OF run ok] ext] .
  then show ?thesis
    using session_invD [OF base] by (intro session_invI) (auto simp: delete_handle_def)
qed

lemma session_inv_delete_stream:
  "session_inv s \<Longrightarrow> session_inv (s\<lparr>s_ins := i, s_outs := delete_handle k (s_outs s)\<rparr>)"
  by (auto simp: session_inv_def delete_handle_def)

lemma session_inv_ins: "session_inv s \<Longrightarrow> session_inv (s\<lparr>s_world := w, s_ins := i\<rparr>)"
  by (simp add: session_inv_def)

lemma table_steps_snd: "(\<And>r g w'. x = (r, g, w') \<Longrightarrow> table_steps f g) \<Longrightarrow> table_steps f (fst (snd x))"
  by (cases x) auto

lemma session_inv_exec: "session_inv s \<Longrightarrow> session_inv (exec e s c)"
proof (cases c)
  case GetDirectories
  assume s: "session_inv s"
  have root: "root < next_node (s_fs s)" using fs_invD(2,4) [OF session_invD(1) [OF s]] by (auto elim: is_dirE)
  show ?thesis
    using session_inv_open [where s = s and ?f1.0 = "s_fs s" and r = "Inr (Local root)"
        and g = "open_ref (s_fs s) root" and w = "s_world s"] s root
    by (simp add: GetDirectories get_directories_def)
next
  case (Drop h)
  then show "session_inv s \<Longrightarrow> ?thesis"
    by (auto simp: with_fd_def split: option.splits prod.splits intro: session_inv_drop)
next
  case (OpenAt h ff path fl)
  assume s: "session_inv s"
  show ?thesis
    unfolding OpenAt exec.simps
  proof (rule session_inv_fd [OF s])
    fix pl assume ok: "place_ok (s_fs s) pl"
    obtain r g w where x: "open_at e (s_fs s) (s_world s) pl ff path fl = (r, g, w)" by (metis prod_cases3)
    show "session_inv (let x = open_at e (s_fs s) (s_world s) pl ff path fl in push_fd (fst x) (in_fs s x))"
      using open_at_steps [OF x session_invD(1) [OF s] ok] session_inv_open [OF s]
      by (metis fst_conv in_fs_def snd_conv x)
  qed
next
  case (AppendStream h)
  assume s: "session_inv s"
  show ?thesis
    unfolding AppendStream exec.simps Let_def
    by (intro session_inv_fd session_inv_push_out session_inv_steps s table_steps_snd)
      (simp_all add: in_fs_def new_stream_ok(1) session_invD(1) [OF s] append_steps)
next
  case (WriteStream h off)
  assume s: "session_inv s"
  show ?thesis
    unfolding WriteStream exec.simps Let_def
    by (intro session_inv_fd session_inv_push_out session_inv_world s)
      (simp add: in_world_def new_stream_ok(2))
next
  case (StreamRead k n)
  then show "session_inv s \<Longrightarrow> ?thesis" by (auto split: option.splits prod.splits intro: session_inv_ins)
next
  case (StreamWrite k b)
  then show "session_inv s \<Longrightarrow> ?thesis"
    by (auto split: option.splits prod.splits intro: session_inv_stream_write)
next
  case (DropStream k)
  then show "session_inv s \<Longrightarrow> ?thesis" by (simp add: session_inv_delete_stream)
qed (auto simp: Let_def intro!: session_inv_fd session_inv_world session_inv_push_in session_inv_steps
      session_inv_steps' table_steps_snd intro: fd_write_steps set_size_steps create_directory_at_steps
      unlink_steps rename_at_steps session_invD
      link_at_steps [OF surjective_pairing] symlink_at_steps [OF surjective_pairing])

lemma session_inv_reachable: "vfs_reachable s \<Longrightarrow> session_inv s"
proof (induction rule: vfs_reachable.induct)
  case (start w)
  show ?case
    by (rule session_invI)
      (simp_all add: session_new_def fs_inv_default handles_of_def open_count_def, simp add: fs_default_def)
next
  case (step s s')
  from step.hyps(2) step.IH show ?case
  proof cases
    case (host hc)
    then show ?thesis
      using session_inv_extends [where w = "s_world s", OF step.IH extends_host_exec [where hc = hc, OF session_invD(1) [OF step.IH]]]
      by simp
  next
    case (outside w)
    then show ?thesis using session_inv_world [OF step.IH, of "((), w)"] by (simp add: in_world_def)
  qed (simp add: session_inv_exec)
qed

end
