(* ===== verification/Vfs_Remote.thy ===== *)
theory Vfs_Remote
  imports Vfs_Safety
begin

text \<open>
  Provider mounts: which operations reach the serving node. A mount made read-only refuses
  every change before it is sent, whatever the guest calls and however it got there (by path,
  by a descriptor or by a stream); and a handle of an earlier incarnation of the serving node
  is never used again.
\<close>

subsection \<open>What is sent\<close>

fun mutates :: "fs_op \<Rightarrow> bool" where
  "mutates (OpOpen _ create trunc _) \<longleftrightarrow> create \<or> trunc"
| "mutates (OpWrite _ _ _) \<longleftrightarrow> True"
| "mutates (OpSetSize _ _) \<longleftrightarrow> True"
| "mutates (OpMkdir _) \<longleftrightarrow> True"
| "mutates (OpUnlink _) \<longleftrightarrow> True"
| "mutates (OpRmdir _) \<longleftrightarrow> True"
| "mutates (OpRename _ _) \<longleftrightarrow> True"
| "mutates (OpGetattr _) \<longleftrightarrow> False"
| "mutates (OpReaddir _) \<longleftrightarrow> False"
| "mutates (OpRead _ _ _) \<longleftrightarrow> False"
| "mutates (OpRelease _) \<longleftrightarrow> False"

text \<open>From \<open>w\<close> to \<open>w'\<close> only reads were sent to \<open>conn\<close>.\<close>

definition only_reads :: "nat \<Rightarrow> world \<Rightarrow> world \<Rightarrow> bool" where
  "only_reads conn w w' \<longleftrightarrow>
     (\<exists>new. sent w' = sent w @ new \<and> (\<forall>op. (conn, op) \<in> set new \<longrightarrow> \<not> mutates op))"

lemma only_reads_refl: "sent w' = sent w \<Longrightarrow> only_reads conn w w'"
  by (simp add: only_reads_def)

lemma only_reads_trans: "only_reads conn w w' \<Longrightarrow> only_reads conn w' w'' \<Longrightarrow> only_reads conn w w''"
  by (auto simp: only_reads_def)

lemma only_reads_call:
  "provider_call e w k op = (x, w') \<Longrightarrow> k \<noteq> conn \<or> \<not> mutates op \<Longrightarrow> only_reads conn w w'"
  by (auto simp: provider_call_def only_reads_def)

lemma only_reads_cast: "\<not> mutates op \<Longrightarrow> only_reads conn w (provider_cast w k op)"
  by (auto simp: provider_cast_def only_reads_def)

lemma only_reads_call_unit:
  "call_unit e w k op = (x, w') \<Longrightarrow> k \<noteq> conn \<or> \<not> mutates op \<Longrightarrow> only_reads conn w w'"
  by (auto simp: call_unit_def only_reads_call split: prod.splits sum.splits)

lemma only_reads_stat: "remote_stat e w k path = (x, w') \<Longrightarrow> only_reads conn w w'"
  by (auto simp: remote_stat_def only_reads_call split: prod.splits sum.splits fs_reply.splits)

lemma only_reads_open:
  assumes "remote_open e w k ro path fl = (x, w')" and "k = conn \<Longrightarrow> ro"
  shows "only_reads conn w w'"
proof -
  have cast: "only_reads conn w (provider_cast w1 j (OpRelease h))" if "only_reads conn w w1" for w1 j h
    using that by (rule only_reads_trans) (simp add: only_reads_cast)
  show ?thesis
    using assms
    by (auto simp: remote_open_def only_reads_refl split: if_splits prod.splits sum.splits fs_reply.splits
        intro!: cast elim!: only_reads_call)
qed

subsection \<open>Operations that stay local send nothing\<close>

lemma sent_lb_bytes: "lb_bytes w a = (d, w') \<Longrightarrow> sent w' = sent w"
  by (auto simp: lb_bytes_def Let_def split: option.splits)

lemma sent_node_kind: "vfs_node_kind f w i = (k, w') \<Longrightarrow> sent w' = sent w"
  by (auto simp: vfs_node_kind_def dest: sent_lb_bytes split: option.splits node.splits prod.splits)

lemma sent_copy_up: "copy_up f w i = (g, w') \<Longrightarrow> sent w' = sent w"
  by (auto simp: copy_up_def dest: sent_lb_bytes split: option.splits node.splits prod.splits)

lemma sent_private_write: "private_write f w i off b = (r, g, w') \<Longrightarrow> sent w' = sent w"
  by (auto simp: private_write_def dest: sent_copy_up split: option.splits node.splits prod.splits)

lemma sent_shared_write: "shared_write w s off b = (r, w') \<Longrightarrow> sent w' = sent w"
  by (auto simp: shared_write_def split: option.splits)

lemma sent_host_write: "host_write_at e w p off b = (r, w') \<Longrightarrow> sent w' = sent w"
  by (auto simp: host_write_at_def Let_def split: if_splits)

lemma sent_host_set_len: "host_set_len e w p n = (r, w') \<Longrightarrow> sent w' = sent w"
  by (auto simp: host_set_len_def split: if_splits)

lemma sent_truncate: "truncate_node e f w i = (g, w') \<Longrightarrow> sent w' = sent w"
  by (auto simp: truncate_node_def split: option.splits node.splits if_splits)

lemma sent_open_local: "open_local e f w s ff path fl = (r, g, w') \<Longrightarrow> sent w' = sent w"
  by (auto simp: open_local_def dest: sent_truncate split: option.splits if_splits prod.splits)

lemmas sent_local = sent_node_kind sent_copy_up sent_private_write sent_shared_write sent_host_write
  sent_host_set_len sent_open_local

subsection \<open>A connection that can only be read\<close>

definition ro_fs :: "nat \<Rightarrow> fs \<Rightarrow> bool" where
  "ro_fs conn f \<longleftrightarrow> (\<forall>i. get_node f i = Some (NProvider conn) \<longrightarrow> i \<in> readonly f)"

definition ro_place :: "nat \<Rightarrow> desc_place \<Rightarrow> bool" where
  "ro_place conn pl = (case pl of Remote r \<Rightarrow> rd_conn r = conn \<longrightarrow> rd_readonly r | Local _ \<Rightarrow> True)"

definition ro_stream :: "nat \<Rightarrow> out_stream \<Rightarrow> bool" where
  "ro_stream conn st = (case st of OutProvider r _ _ \<Rightarrow> rd_conn r \<noteq> conn | _ \<Rightarrow> True)"

definition ro_session :: "nat \<Rightarrow> session \<Rightarrow> bool" where
  "ro_session conn s \<longleftrightarrow>
     ro_fs conn (s_fs s) \<and> (\<forall>(h, pl) \<in> set (s_fds s). ro_place conn pl) \<and>
     (\<forall>(k, st) \<in> set (s_outs s). ro_stream conn st)"

lemma look_Some: "look f cur name = Some (i, n) \<Longrightarrow> get_node f i = Some n"
  by (auto simp: look_def split: option.splits node.splits)

lemma provider_of_Some [simp]: "provider_of n = Some c \<longleftrightarrow> n = NProvider c"
  by (cases n) (simp_all add: provider_of_def)

lemma provider_of_NProvider [simp]: "provider_of (NProvider c) = Some c"
  by simp

lemma walk_place_remote:
  "ro_fs conn f \<Longrightarrow> walk_place f ff hops todo cur anc \<noteq> RRemote conn path False"
proof (induction f ff hops todo cur anc rule: walk_place.induct)
  case (2 f ff hops name todo cur anc)
  show ?case
  proof (cases "name = ''..''")
    case True
    with 2 show ?thesis by simp
  next
    case False
    then show ?thesis
      using "2.prems" "2.IH"(2-)
      by (auto simp: ro_fs_def split: option.splits prod.splits dest: look_Some)
  qed
qed simp

lemma place_target_remote:
  assumes "place_target f pl path ff = RRemote k rp ro" and "ro_fs conn f" and "ro_place conn pl" and "k = conn"
  shows "ro"
proof (cases pl)
  case (Remote r)
  with assms show ?thesis by (auto simp: place_target_def ro_place_def)
next
  case (Local i)
  with assms(1) have "resolve_place f i path ff = RRemote k rp ro" by (simp add: place_target_def)
  then show ?thesis
    using assms(2,4) walk_place_remote [OF assms(2)]
    by (cases ro) (auto simp: resolve_place_def Let_def ro_fs_def bind_eq_Some_conv
        split: option.splits)
qed

subsection \<open>Every operation\<close>

lemma reads_local: "sent w' = sent w \<Longrightarrow> only_reads conn w w'"
  by (rule only_reads_refl)

lemma reads_drop: "only_reads conn w (snd (fd_drop e f w pl))"
  by (cases pl) (auto simp: only_reads_refl only_reads_cast split: option.split)

lemma reads_read: "only_reads conn w (snd (fd_read e f w pl len off))"
proof (cases pl)
  case (Local i)
  then show ?thesis
    by (auto simp: Let_def split: prod.splits kind.splits option.splits node.splits
        dest: sent_node_kind intro!: reads_local)
qed (auto simp: only_reads_refl split: sum.splits prod.splits fs_reply.splits elim!: only_reads_call)

lemma writable_conn: "writable_handle e r = Inr h \<Longrightarrow> ro_place conn (Remote r) \<Longrightarrow> rd_conn r \<noteq> conn"
  by (auto simp: writable_handle_def ro_place_def split: if_splits)

lemma reads_write:
  assumes "ro_place conn pl"
  shows "only_reads conn w (snd (snd (fd_write e f w pl b off)))"
proof (cases pl)
  case (Local i)
  obtain r g w' where x: "fd_write e f w (Local i) b off = (r, g, w')" by (metis prod_cases3)
  then have "sent w' = sent w"
    by (auto simp: Let_def split: if_splits prod.splits kind.splits dest!: sent_local)
  then show ?thesis by (simp only: Local x snd_conv reads_local)
next
  case (Remote r)
  then show ?thesis
    using assms
    by (auto simp: only_reads_refl split: sum.splits prod.splits fs_reply.splits
        dest!: writable_conn [OF _ assms [unfolded Remote]] elim!: only_reads_call)
qed

lemma reads_set_size:
  assumes "ro_place conn pl"
  shows "only_reads conn w (snd (snd (set_size e f w pl n)))"
proof (cases pl)
  case (Local i)
  obtain r g w' where x: "set_size e f w (Local i) n = (r, g, w')" by (metis prod_cases3)
  then have "sent w' = sent w"
    by (auto simp: Let_def split: if_splits prod.splits kind.splits dest!: sent_local)
  then show ?thesis by (simp only: Local x snd_conv reads_local)
next
  case (Remote r)
  then show ?thesis
    using assms
    by (auto simp: only_reads_refl split: sum.splits prod.splits
        dest!: writable_conn [OF _ assms [unfolded Remote]] elim!: only_reads_call_unit)
qed

lemma reads_streams:
  "only_reads conn w (snd (read_via_stream e f w pl off))"
  "only_reads conn w (snd (write_via_stream e f w pl off))"
  by (cases pl; auto simp: reads_local split: sum.splits prod.splits kind.splits option.splits node.splits
      dest!: sent_node_kind)+

lemma reads_append: "only_reads conn w (snd (snd (append_via_stream e f w pl)))"
proof (cases pl)
  case (Local i)
  obtain r g w' where x: "append_via_stream e f w (Local i) = (r, g, w')" by (metis prod_cases3)
  then have "sent w' = sent w"
    by (auto simp: Let_def split: if_splits prod.splits kind.splits dest!: sent_local)
  then show ?thesis by (simp only: Local x snd_conv reads_local)
qed (auto simp: only_reads_refl split: sum.splits prod.splits elim!: only_reads_stat)

lemma reads_in_read: "only_reads conn w (snd (snd (in_read e w st n)))"
  by (cases st)
    (auto simp: provider_in_read_def only_reads_refl split: prod.splits sum.splits fs_reply.splits
      if_splits elim!: only_reads_call)

lemma reads_out_write:
  assumes "ro_stream conn st"
  shows "only_reads conn w (snd (snd (snd (out_write e f w st b))))"
proof (cases st)
  case (OutProvider r h off)
  then show ?thesis
    using assms
    by (auto simp: ro_stream_def provider_out_write_def only_reads_refl
        split: prod.splits sum.splits fs_reply.splits if_splits elim!: only_reads_call)
qed (auto simp: vfs_out_write_def shared_out_write_def host_out_write_def Let_def
    split: prod.splits sum.splits if_splits dest!: sent_local intro!: reads_local)

lemma reads_directory: "only_reads conn w (snd (read_directory e f w pl))"
  by (cases pl)
    (auto simp: only_reads_refl split: option.splits node.splits prod.splits sum.splits fs_reply.splits
      elim!: only_reads_call)

lemma reads_fd_stat: "only_reads conn w (snd (fd_stat e f w pl))"
proof (cases pl)
  case (Remote r)
  then show ?thesis
    by (cases "remote_stat e w (rd_conn r) (rd_path r)") (auto intro: only_reads_stat)
qed (auto simp: only_reads_refl split: option.splits)

lemma reads_stat_at: "only_reads conn w (snd (stat_at e f w pl ff path))"
proof (cases "place_target f pl path ff")
  case (RRemote k rp ro)
  then show ?thesis by (cases "remote_stat e w k rp") (auto simp: stat_at_def intro: only_reads_stat)
qed (auto simp: stat_at_def only_reads_refl split: option.splits)

text \<open>The operations that forward what a path leads to.\<close>

lemma reads_forwarded:
  assumes ro: "ro_fs conn f" "ro_place conn pl"
  shows "only_reads conn w (snd (snd (create_directory_at e f w pl path)))"
    and "only_reads conn w (snd (snd (unlink e f w pl path dir)))"
    and "only_reads conn w (snd (snd (open_at e f w pl ff path fl)))"
    and "only_reads conn w (snd (snd (rename_at e f w same pl path pl' path')))"
proof -
  note remote = place_target_remote [OF _ ro]
  show "only_reads conn w (snd (snd (create_directory_at e f w pl path)))"
    by (auto simp: create_directory_at_def only_reads_refl split: resolved.splits prod.splits
        desc_place.splits option.splits dest: remote elim!: only_reads_call_unit)
  show "only_reads conn w (snd (snd (unlink e f w pl path dir)))"
    by (auto simp: unlink_def only_reads_refl split: resolved.splits prod.splits desc_place.splits
        dest: remote elim!: only_reads_call_unit)
  show "only_reads conn w (snd (snd (open_at e f w pl ff path fl)))"
  proof (cases "place_target f pl path ff")
    case (RRemote k rp ro)
    then show ?thesis
      using remote [OF RRemote]
      by (cases "remote_open e w k ro rp fl") (auto simp: open_at_def elim: only_reads_open)
  qed (auto simp: open_at_def only_reads_refl split: prod.splits desc_place.splits sum.splits
      dest!: sent_open_local intro: reads_local)
  show "only_reads conn w (snd (snd (rename_at e f w same pl path pl' path')))"
    by (auto simp: rename_at_def only_reads_refl split: resolved.splits prod.splits desc_place.splits
        dest: remote elim!: only_reads_call_unit)
qed

subsection \<open>Sessions\<close>

lemma push_world [simp]:
  "s_world (push_fd r s) = s_world s" "s_world (push_in r' s) = s_world s" "s_world (push_out r'' s) = s_world s"
  by (simp_all add: push_fd_def push_in_def push_out_def split: sum.split)

lemma in_world_simps [simp]: "s_world (in_fs s x) = snd (snd x)" "s_world (in_world s y) = snd y"
  by (simp_all add: in_fs_def in_world_def)

lemma ro_sessionD:
  assumes "ro_session conn s"
  shows "ro_fs conn (s_fs s)" and "map_of (s_fds s) h = Some pl \<Longrightarrow> ro_place conn pl"
    and "map_of (s_outs s) k = Some st \<Longrightarrow> ro_stream conn st"
  using assms by (auto simp: ro_session_def dest!: map_of_SomeD)

lemma reads_fd:
  "ro_session conn s \<Longrightarrow> (\<And>pl. ro_place conn pl \<Longrightarrow> only_reads conn (s_world s) (s_world (k pl))) \<Longrightarrow>
     only_reads conn (s_world s) (s_world (with_fd s h k))"
  by (simp add: with_fd_def only_reads_refl ro_sessionD(2) split: option.split)

lemma reads_exec:
  assumes ro: "ro_session conn s"
  shows "only_reads conn (s_world s) (s_world (exec e s c))"
proof (cases c)
  case (Drop h)
  have "only_reads conn (s_world s) w'" if "fd_drop e (s_fs s) (s_world s) pl = (f', w')" for pl f' w'
    using reads_drop [of conn "s_world s" e "s_fs s" pl] that by simp
  then show ?thesis using ro unfolding Drop by (auto intro!: reads_fd split: prod.splits)
next
  case (StreamRead k n)
  have "only_reads conn (s_world s) w'" if "in_read e (s_world s) st n = (x, st', w')" for st x st' w'
    using reads_in_read [of conn "s_world s" e st n] that by simp
  then show ?thesis by (auto simp: StreamRead only_reads_refl split: option.splits prod.splits)
next
  case (StreamWrite k b)
  have "only_reads conn (s_world s) w'"
    if "out_write e (s_fs s) (s_world s) st b = (x, st', f', w')" "map_of (s_outs s) k = Some st" for st x st' f' w'
    using reads_out_write [OF ro_sessionD(3) [OF ro that(2)], of "s_world s" e "s_fs s" b] that by simp
  then show ?thesis by (auto simp: StreamWrite only_reads_refl split: option.splits prod.splits)
qed (use ro ro_sessionD(1) [OF ro] in \<open>auto simp: only_reads_refl Let_def intro!: reads_fd reads_read
      reads_write reads_set_size reads_streams reads_append reads_directory reads_fd_stat reads_stat_at
      reads_forwarded\<close>)

lemma ro_fs_drop: "ro_fs conn (s_fs s) \<Longrightarrow> ro_fs conn (s_fs (exec e s (Drop h)))"
  using exec_drop_frame [of e s h] by (auto simp: ro_fs_def simp del: exec.simps)

lemma same_sort_provider: "same_sort n (NProvider c) \<Longrightarrow> n = NProvider c"
  by (cases n) (simp_all add: same_sort_def)

lemma ro_fs_exec:
  assumes "session_inv s" and "ro_fs conn (s_fs s)"
  shows "ro_fs conn (s_fs (exec e s c))"
proof (cases "is_drop c")
  case True
  then show ?thesis using ro_fs_drop [OF assms(2)] by (cases c) (simp_all add: is_drop_def del: exec.simps)
next
  case False
  obtain f1 where k: "keeps (s_fs s) f1" "same_table f1 (s_fs (exec e s c))"
    using stepped_keeps [OF exec_stepped [OF assms(1) False] session_invD(1) [OF assms(1)]] by blast
  have "get_node (s_fs s) i = Some (NProvider conn)" if "get_node f1 i = Some (NProvider conn)" for i
    using keeps_old_node [OF k(1) that] by (auto simp: guest_made_def dest: same_sort_provider)
  then show ?thesis
    using assms(2) k(2) keeps_readonly [OF k(1)] by (auto simp: ro_fs_def same_table_def)
qed

lemma ro_opened:
  assumes "ro_fs conn f" "ro_place conn pl" "fst (open_at e f w pl ff path fl) = Inr pl'"
  shows "ro_place conn pl'"
proof (cases "place_target f pl path ff")
  case (RRemote k rp ro)
  then show ?thesis
    using assms(3) place_target_remote [OF RRemote assms(1,2)]
    by (auto simp: open_at_def remote_open_def ro_place_def
        split: prod.splits if_splits sum.splits fs_reply.splits)
qed (use assms(3) in \<open>auto simp: open_at_def ro_place_def split: prod.splits desc_place.splits sum.splits\<close>)

lemma ro_new_stream:
  assumes "ro_place conn pl"
  shows "fst (write_via_stream e f w pl off) = Inr st \<Longrightarrow> ro_stream conn st"
    and "fst (append_via_stream e f w pl) = Inr st \<Longrightarrow> ro_stream conn st"
  using assms writable_conn [of e _ _ conn]
  by (cases pl; fastforce simp: ro_stream_def Let_def split: sum.splits prod.splits kind.splits if_splits)+

lemma ro_out_write: "out_write e f w st b = (r, st', g, w') \<Longrightarrow> ro_stream conn st \<Longrightarrow> ro_stream conn st'"
  by (cases st) (auto simp: ro_stream_def split: prod.splits)

lemma push_other [simp]:
  "s_outs (push_fd r s) = s_outs s" "s_fds (push_out r' s) = s_fds s"
  "s_outs (push_in r'' s) = s_outs s" "s_fds (push_in r'' s) = s_fds s"
  "s_outs (in_fs s x) = s_outs s" "s_fds (in_fs s x) = s_fds s"
  "s_outs (in_world s y) = s_outs s" "s_fds (in_world s y) = s_fds s"
  by (simp_all add: push_fd_def push_out_def push_in_def in_fs_def in_world_def split: sum.split)

definition ro_handles :: "nat \<Rightarrow> session \<Rightarrow> bool" where
  "ro_handles conn s \<longleftrightarrow>
     (\<forall>(h, pl) \<in> set (s_fds s). ro_place conn pl) \<and> (\<forall>(k, st) \<in> set (s_outs s). ro_stream conn st)"

lemma ro_handles_same [simp]:
  "ro_handles conn (in_fs s x) = ro_handles conn s" "ro_handles conn (in_world s y) = ro_handles conn s"
  "ro_handles conn (push_in r s) = ro_handles conn s" "ro_handles conn (s\<lparr>s_fs := g\<rparr>) = ro_handles conn s"
  "ro_handles conn (s\<lparr>s_world := w, s_ins := t\<rparr>) = ro_handles conn s"
  by (simp_all add: ro_handles_def)

lemma ro_handles_push:
  "ro_handles conn s \<Longrightarrow> (\<And>pl. r = Inr pl \<Longrightarrow> ro_place conn pl) \<Longrightarrow> ro_handles conn (push_fd r s)"
  "ro_handles conn s \<Longrightarrow> (\<And>st. r' = Inr st \<Longrightarrow> ro_stream conn st) \<Longrightarrow> ro_handles conn (push_out r' s)"
  by (auto simp: ro_handles_def push_fd_def push_out_def split: sum.splits)

lemma ro_handles_fd:
  "ro_handles conn s \<Longrightarrow> (\<And>pl. ro_place conn pl \<Longrightarrow> ro_handles conn (k pl)) \<Longrightarrow> ro_handles conn (with_fd s h k)"
  by (fastforce simp: with_fd_def ro_handles_def split: option.splits dest: map_of_SomeD)

lemma ro_handles_exec:
  assumes ro: "ro_handles conn s" "ro_fs conn (s_fs s)"
  shows "ro_handles conn (exec e s c)"
proof -
  show ?thesis
  proof (cases c)
    case (Drop h)
    then show ?thesis
      using ro(1) by (auto simp: with_fd_def ro_handles_def delete_handle_def split: option.splits prod.splits)
  next
    case (StreamWrite k b)
    then show ?thesis
      using ro(1)
      by (fastforce simp: ro_handles_def delete_handle_def split: option.splits prod.splits
          dest: map_of_SomeD ro_out_write)
  next
    case (DropStream k)
    then show ?thesis using ro(1) by (auto simp: ro_handles_def delete_handle_def)
  next
    case GetDirectories
    then show ?thesis
      using ro(1) by (auto simp: get_directories_def ro_place_def ro_handles_def push_fd_def)
  next
    case (OpenAt h ff path fl)
    then show ?thesis using ro by (auto simp: Let_def intro!: ro_handles_fd ro_handles_push intro: ro_opened)
  next
    case (WriteStream h off)
    then show ?thesis using ro by (auto simp: Let_def intro!: ro_handles_fd ro_handles_push intro: ro_new_stream)
  next
    case (AppendStream h)
    then show ?thesis using ro by (auto simp: Let_def intro!: ro_handles_fd ro_handles_push intro: ro_new_stream)
  qed (use ro(1) in \<open>auto simp: Let_def split: option.splits prod.splits intro!: ro_handles_fd\<close>)
qed

lemma ro_session_iff: "ro_session conn s \<longleftrightarrow> ro_fs conn (s_fs s) \<and> ro_handles conn s"
  by (auto simp: ro_session_def ro_handles_def)

lemma ro_session_exec: "session_inv s \<Longrightarrow> ro_session conn s \<Longrightarrow> ro_session conn (exec e s c)"
  by (simp add: ro_session_iff ro_fs_exec ro_handles_exec)

lemma reads_calls:
  "session_inv s \<Longrightarrow> ro_session conn s \<Longrightarrow> only_reads conn (s_world s) (s_world (run_calls calls s))"
proof (induction calls arbitrary: s)
  case (Cons ec calls)
  obtain e c where ec: "ec = (e, c)" by fastforce
  show ?case
    using reads_exec [OF Cons.prems(2), of e c]
      Cons.IH [OF session_inv_exec [OF Cons.prems(1)] ro_session_exec [OF Cons.prems], of e c]
    by (simp add: ec only_reads_trans del: exec.simps)
qed (simp add: only_reads_refl)

text \<open>
  C9: A provider that a guest can reach only through read-only mounts is never asked to change
  anything. From any reachable session in which every mount of that provider is read-only
  (and so are the descriptors and streams already open on it), no sequence of guest calls,
  against any answers of the provider and the host, sends it a write, a resize, a create, a
  truncation, a mkdir, a removal or a rename: they are all refused before they are sent.
\<close>

theorem readonly_provider_is_never_changed:
  assumes "vfs_reachable s" and "ro_session conn s"
  shows "\<exists>new. sent (s_world (run_calls calls s)) = sent (s_world s) @ new \<and>
    (\<forall>op. (conn, op) \<in> set new \<longrightarrow> \<not> mutates op)"
  using reads_calls [OF session_inv_reachable [OF assms(1)] assms(2), of calls] by (simp add: only_reads_def)

definition provider_session :: session where
  "provider_session = example_session\<lparr>s_fs := host_exec (s_fs example_session) (MountProvider ''p'' 9 False)\<rparr>"

lemma provider_reachable: "vfs_reachable provider_session"
  unfolding provider_session_def using example_reachable by (rule vfs_reachable.step) (rule vfs_step.host)

lemma provider_state:
  "nodes (s_fs provider_session) = [(root, NDir [(''p'', 1)]), (1, NProvider 9)]"
  "readonly (s_fs provider_session) = {1}" "s_fds provider_session = [(0, Local root)]"
  "s_outs provider_session = []" "s_world provider_session = world_empty"
  by (simp_all add: provider_session_def example_session_def evaluate mount_provider_def mount_node_at_def
      ensure_dir_path_def remove_path_in_def Let_def)

theorem readonly_provider_is_never_changed_witness:
  "\<exists>new. sent (s_world (run_calls [(env_null, CreateDirectoryAt 0 ''p/x''), (env_null, StatAt 0 True ''p/x'')]
       provider_session)) = sent world_empty @ new \<and> (\<forall>op. (9, op) \<in> set new \<longrightarrow> \<not> mutates op)"
proof -
  have "ro_session 9 provider_session"
    by (simp add: ro_session_def ro_fs_def ro_place_def provider_state)
  from readonly_provider_is_never_changed [OF provider_reachable this] show ?thesis
    by (metis provider_state(5))
qed

subsection \<open>Stale handles\<close>

text \<open>
  A handle is never replayed against another incarnation of its provider. When the serve
  loop that issued a descriptor's handle is gone, every operation that would use the handle
  fails in the host, nothing is sent (not even the release when the descriptor is dropped),
  and nothing changes.
\<close>

theorem stale_handle_is_never_sent:
  assumes "\<not> live e r" and "rd_handle r = Some h"
  shows "fd_read e f w (Remote r) len off = (Inl Io, w) \<and>
    fd_write e f w (Remote r) b off = (Inl (if rd_readonly r then NotPermitted else Io), f, w) \<and>
    set_size e f w (Remote r) n = (Inl (if rd_readonly r then NotPermitted else Io), f, w) \<and>
    read_via_stream e f w (Remote r) off = (Inl Io, w) \<and>
    append_via_stream e f w (Remote r) = (Inl (if rd_readonly r then NotPermitted else Io), f, w) \<and>
    in_read e w (InProvider r h off) m = (None, InProvider r h off, w) \<and>
    out_write e f w (OutProvider r h off) b = (None, OutProvider r h off, f, w) \<and>
    fd_drop e f w (Remote r) = (f, w)"
  using assms
  by (simp add: live_handle_def writable_handle_def provider_in_read_def provider_out_write_def)

theorem stale_handle_is_never_sent_witness:
  "fd_drop env_null fs_default world_empty
     (Remote \<lparr>rd_conn = 1, rd_generation = 4, rd_path = ''a'', rd_handle = Some 3, rd_kind = EkFile, rd_readonly = False\<rparr>) =
   (fs_default, world_empty)"
  using stale_handle_is_never_sent [of env_null
      "\<lparr>rd_conn = 1, rd_generation = 4, rd_path = ''a'', rd_handle = Some 3, rd_kind = EkFile, rd_readonly = False\<rparr>" 3
      fs_default world_empty 0 0 "[]" 0 0]
  by (simp add: live_def env_null_def)

end
