(* ===== verification/Vfs_Limits.thy ===== *)
theory Vfs_Limits
  imports Vfs_Remote
begin

text \<open>
  Where the filesystem does less than it means to. Each theorem evaluates a short sequence of
  guest calls; the hypotheses of the general theorems exclude exactly these sequences.
\<close>

lemmas evaluate_more = evaluate rename_at_def rename_local_def create_directory_at_def has_child_def
  close_ref_def drop_subtree_def delete_handle_def Let_def child_ids_def

definition no_flags :: open_flags where
  "no_flags = \<lparr>o_create = False, o_truncate = False, o_exclusive = False, o_directory = False\<rparr>"

text \<open>
  A guest can detach a read-only mount by renaming onto it, although it may neither
  unlink nor rename it: a private file renamed to the mount's path takes its place, and the
  mounted node stays in the table without a name. \<open>rename_at\<close> checks the read-only mark of
  the entry it moves, not of the entry it replaces.
\<close>

theorem rename_detaches_readonly_mount:
  "fst (unlink env_null (s_fs mounted_session) (s_world mounted_session) (Local root) ''v'' False) =
     Inl NotPermitted \<and>
   (let f = s_fs (run_calls [(env_null, OpenAt 0 True ''a'' flags_create),
                             (env_null, RenameAt 0 ''a'' 0 ''v'')] mounted_session)
    in resolve_at f root ''v'' True = Some 2 \<and> get_node f 2 = Some (NFile []) \<and>
       get_node f 1 = Some (NShared 3) \<and> \<not> node_is_referenced f 1)"
proof -
  have fds: "s_fds mounted_session = [(0, Local root)]" "next_node (s_fs mounted_session) = 2"
    "open_fds (s_fs mounted_session) = [(0, 1)]" "s_next mounted_session = 1"
    by (simp_all add: mounted_session_def example_session_def evaluate mount_file_def mount_node_at_def
        ensure_dir_path_def remove_path_in_def Let_def)
  show ?thesis by (simp add: evaluate_more mounted_state fds)
qed

text \<open>
  A guest can lose a file it holds open by closing a directory. It opens a directory,
  removes it, creates and opens a file through the descriptor it still has, and drops that
  descriptor: the whole subtree of the removed directory is freed, with the file that is
  still open, so that reading it fails.
\<close>

theorem closing_removed_directory_frees_open_file:
  "let s = run_calls [(env_null, CreateDirectoryAt 0 ''d''), (env_null, OpenAt 0 True ''d'' no_flags),
                      (env_null, UnlinkAt 0 ''d'' True), (env_null, OpenAt 1 True ''f'' flags_create),
                      (env_null, Drop 1)] example_session
   in (2, Local 2) \<in> set (s_fds s) \<and> get_node (s_fs s) 2 = None \<and>
      fst (fd_read env_null (s_fs s) (s_world s) (Local 2) 1 0) = Inl NoEntry"
  by (simp add: evaluate_more example_session_def no_flags_def vfs_node_kind_def)

text \<open>
  An absolute path means two different places when it is opened and when it is created.
  With a descriptor on the directory \<open>d\<close>, opening \<open>/x\<close> resolves from the root, but creating
  \<open>/x\<close> makes \<open>d/x\<close>: the parent is resolved from the path without its leading slash. The same
  open again then still does not find the file.
\<close>

theorem absolute_create_is_relative:
  "let s = run_calls [(env_null, CreateDirectoryAt 0 ''d''), (env_null, OpenAt 0 True ''d'' no_flags),
                      (env_null, OpenAt 1 True ''/x'' flags_create)] example_session
   in resolve_at (s_fs s) root ''d/x'' True = Some 2 \<and> resolve_at (s_fs s) 1 ''/x'' True = None"
  by (simp add: evaluate_more example_session_def no_flags_def)

end
