(* ===== verification/Vfs_Data.thy ===== *)
theory Vfs_Data
  imports Vfs_Refine
begin

text \<open>
  What reading and writing mean. The abstract state of a node is its byte string
  (\<open>contents\<close>), wherever the bytes live: privately, in a shared volume, in an image layer
  that may not be loaded yet, or on the host's disk. Reads are slices of it, writes are
  splices into it, and a write to a private or layer file is invisible everywhere else.
\<close>

subsection \<open>A concrete environment for examples\<close>

definition world_zero :: world where
  "world_zero =
     \<lparr>shared_cells = (\<lambda>_. []), layer_cells = (\<lambda>_. lb_eager []), disk = (\<lambda>_. None), sent = []\<rparr>"

definition env_zero :: env where
  "env_zero =
     \<lparr>env_call = (\<lambda>_ _ _. Inl FeDead), env_gen = (\<lambda>_. 0), env_host_ok = (\<lambda>_. True),
      env_host_room = (\<lambda>_ _. 1000000), env_host_len_ok = (\<lambda>_ _. True), env_mtime = (\<lambda>_. None),
      env_rand = (\<lambda>_. 7)\<rparr>"

subsection \<open>The abstraction\<close>

definition lb_value :: "world \<Rightarrow> nat \<Rightarrow> bytes" where
  "lb_value w a = (case lb_cell (layer_cells w a) of Some d \<Rightarrow> d | None \<Rightarrow> lb_load w (layer_cells w a))"

definition node_bytes :: "world \<Rightarrow> node \<Rightarrow> bytes option" where
  "node_bytes w n =
     (case n of
        NFile d \<Rightarrow> Some d
      | NRoFile a \<Rightarrow> Some (lb_value w a)
      | NShared s \<Rightarrow> Some (shared_cells w s)
      | NHost p \<Rightarrow> Some (host_read w p)
      | _ \<Rightarrow> None)"

definition contents :: "fs \<Rightarrow> world \<Rightarrow> nat \<Rightarrow> bytes option" where
  "contents f w i = Option.bind (get_node f i) (node_bytes w)"

definition splice :: "bytes \<Rightarrow> nat \<Rightarrow> bytes \<Rightarrow> bytes" where
  "splice d start b = take start (d @ replicate (start - length d) 0) @ b @ drop (start + length b) d"

text \<open>Two worlds that no reader can tell apart.\<close>

definition same_values :: "world \<Rightarrow> world \<Rightarrow> bool" where
  "same_values w w' \<longleftrightarrow>
     shared_cells w' = shared_cells w \<and> disk w' = disk w \<and> sent w' = sent w \<and> lb_value w' = lb_value w"

lemma node_bytes_simps [simp]:
  "node_bytes w (NFile d) = Some d" "node_bytes w (NRoFile a) = Some (lb_value w a)"
  "node_bytes w (NShared s) = Some (shared_cells w s)" "node_bytes w (NHost p) = Some (host_read w p)"
  by (simp_all add: node_bytes_def)

lemma node_bytes_cong: "same_values w w' \<Longrightarrow> node_bytes w' n = node_bytes w n"
  by (simp add: same_values_def node_bytes_def host_read_def split: node.split)

lemma contents_cong: "same_values w w' \<Longrightarrow> contents g w' j = contents g w j"
  by (cases "get_node g j") (simp_all add: contents_def node_bytes_cong)

lemma contents_set_node: "contents (set_node f i n) w j = (if j = i then node_bytes w n else contents f w j)"
  by (simp add: contents_def)

lemma same_values_refl [simp]: "same_values w w"
  by (simp add: same_values_def)

lemma same_values_trans: "same_values w w' \<Longrightarrow> same_values w' w'' \<Longrightarrow> same_values w w''"
  by (simp add: same_values_def)

lemma lb_load_cong: "disk w' = disk w \<Longrightarrow> lb_load w' lb = lb_load w lb"
proof -
  assume "disk w' = disk w"
  then have "tar_read w' = tar_read w" by (simp add: fun_eq_iff tar_read_def)
  then show ?thesis by (simp add: lb_load_def split: option.split)
qed

lemma lb_bytes_spec:
  assumes "lb_bytes w a = (d, w')"
  shows "d = lb_value w a" and "same_values w w'"
proof -
  have "d = lb_value w a \<and> same_values w w'"
  proof (cases "lb_cell (layer_cells w a)")
    case (Some x)
    then show ?thesis using assms by (simp add: lb_bytes_def lb_value_def)
  next
    case None
    then have "d = lb_load w (layer_cells w a)"
      "w' = w\<lparr>layer_cells := (layer_cells w)(a := (layer_cells w a)\<lparr>lb_cell := Some d\<rparr>)\<rparr>"
      using assms by (auto simp: lb_bytes_def Let_def)
    moreover from this have "lb_load w' = lb_load w" by (simp add: fun_eq_iff lb_load_cong)
    ultimately show ?thesis
      using None by (simp add: same_values_def lb_value_def fun_eq_iff split: option.split)
  qed
  then show "d = lb_value w a" and "same_values w w'" by auto
qed

lemma node_kind_values: "vfs_node_kind f w i = (k, w') \<Longrightarrow> same_values w w'"
  by (auto simp: vfs_node_kind_def dest: lb_bytes_spec(2) split: option.splits node.splits prod.splits)

lemma copy_up_cases:
  assumes "copy_up f w i = (g, w')"
  obtains (layer) a where "get_node f i = Some (NRoFile a)" "g = set_node f i (NFile (lb_value w a))" "same_values w w'"
  | (other) "g = f" "w' = w" "\<And>a. get_node f i \<noteq> Some (NRoFile a)"
  using assms by (auto simp: copy_up_def dest: lb_bytes_spec split: option.splits node.splits prod.splits)

lemma copy_up_spec:
  assumes "copy_up f w i = (g, w')"
  shows "same_values w w'" and "contents g w' j = contents f w j"
    and "get_node f i = Some n \<Longrightarrow> is_private n \<Longrightarrow> contents f w i = Some d \<Longrightarrow> get_node g i = Some (NFile d)"
proof -
  show "same_values w w'" using assms by (cases rule: copy_up_cases) simp_all
  show "contents g w' j = contents f w j"
    using assms by (cases rule: copy_up_cases) (simp_all add: contents_cong contents_set_node, simp add: contents_def)
  show "get_node g i = Some (NFile d)"
    if "get_node f i = Some n" "is_private n" "contents f w i = Some d"
    using assms that
    by (cases rule: copy_up_cases; cases n) (auto simp: contents_def is_private_def)
qed

subsection \<open>Bytes\<close>

lemma write_at_splice:
  "write_at d off b =
     (if unat off + length b \<le> max_file_size then Some (splice d (unat off) b) else None)"
proof -
  have "max_file_size < 2 ^ 64" by (simp add: max_file_size_def)
  moreover have "take n (vec_resize d (n + k)) = take n (d @ replicate (n - length d) 0)"
    "drop (n + k) (vec_resize d (n + k)) = drop (n + k) d" if "length d < n + k" for n k
    using that by (auto simp: vec_resize_def min_def)
  moreover have "take n d = take n (d @ replicate (n - length d) 0)" if "\<not> length d < n + k" for n k
    using that by simp
  ultimately show ?thesis by (auto simp: write_at_def splice_def Let_def)
qed

lemma length_splice: "length (splice d n b) = max (length d) (n + length b)"
  by (auto simp: splice_def)

lemma slice_splice: "take (length b) (drop n (splice d n b)) = b"
  by (auto simp: splice_def)

lemma read_at_slice:
  assumes "unat len \<le> 2 ^ 63" and "length d < 2 ^ 63"
  shows "read_at d off len = (take (unat len) (drop (unat off) d), length d \<le> unat off + unat len)"
  using assms by (auto simp: read_at_def Let_def min_def)

lemma chunk_bound: "unat (min len (of_nat file_read_chunk :: u64)) = min (unat len) file_read_chunk"
  by (simp add: file_read_chunk_def min_def word_le_nat_alt)

subsection \<open>Reading\<close>

lemma node_kind_contents:
  assumes "vfs_node_kind f w i = (k, w')" and "contents f w i = Some d"
  shows "same_values w w'"
    and "k = KFile \<and> get_node f i = Some (NFile d) \<or> k = KRo d \<or>
      (\<exists>s. k = KShared s \<and> get_node f i = Some (NShared s) \<and> shared_cells w' s = d) \<or>
      (\<exists>p. k = KHost p \<and> get_node f i = Some (NHost p) \<and> host_read w' p = d)"
proof -
  show v: "same_values w w'" using node_kind_values [OF assms(1)] .
  obtain n where "get_node f i = Some n" "node_bytes w n = Some d"
    using assms(2) by (auto simp: contents_def bind_eq_Some_conv)
  then show "k = KFile \<and> get_node f i = Some (NFile d) \<or> k = KRo d \<or>
      (\<exists>s. k = KShared s \<and> get_node f i = Some (NShared s) \<and> shared_cells w' s = d) \<or>
      (\<exists>p. k = KHost p \<and> get_node f i = Some (NHost p) \<and> host_read w' p = d)"
    using assms(1)
    by (cases n) (auto simp: vfs_node_kind_def node_bytes_def dest: lb_bytes_spec split: prod.splits)
qed

lemma read_slice:
  assumes "contents f w i = Some d" and "length d < 2 ^ 63"
  shows "let n = min (unat len) file_read_chunk in
    \<exists>w'. fd_read e f w (Local i) len off = (Inr (take n (drop (unat off) d), length d \<le> unat off + n), w') \<and>
      (\<forall>g j. contents g w' j = contents g w j)"
proof -
  obtain k w' where k: "vfs_node_kind f w i = (k, w')" by fastforce
  have le: "min (unat len) file_read_chunk \<le> 2 ^ 63" by (simp add: file_read_chunk_def)
  note slice = read_at_slice [OF _ assms(2), of "min len (of_nat file_read_chunk)" off, unfolded chunk_bound, OF le]
  from node_kind_contents [OF k assms(1)] have "same_values w w'"
    and "fd_read e f w (Local i) len off = (Inr (read_at d off (min len (of_nat file_read_chunk))), w')"
    using k by (auto simp: Let_def)
  then show ?thesis using contents_cong by (auto simp: Let_def slice)
qed

text \<open>
  Reading returns a slice. From any node with bytes (private, shared, layer or host file) a
  read at an offset returns exactly the bytes there, at most 32 KiB and at most what was asked
  for, says end-of-file exactly when nothing follows, and is invisible: every file of every
  filesystem has the bytes it had, even when the read loaded a layer file for the first time.
\<close>

theorem read_refines_slice:
  assumes "contents f w i = Some d" and "length d < 2 ^ 63"
  shows "let n = min (unat len) file_read_chunk in
    \<exists>w'. fd_read e f w (Local i) len off = (Inr (take n (drop (unat off) d), length d \<le> unat off + n), w') \<and>
      (\<forall>g j. contents g w' j = contents g w j)"
  using assms by (rule read_slice)

theorem read_refines_slice_witness:
  "fst (fd_read env_zero (fs_default\<lparr>nodes := [(0, NFile [5, 6, 7])]\<rparr>) world_zero (Local 0) 2 1) =
     Inr ([6, 7], True)"
  using read_refines_slice [of "fs_default\<lparr>nodes := [(0, NFile [5, 6, 7])]\<rparr>" world_zero 0 "[5, 6, 7]" 2 env_zero 1]
  by (auto simp: contents_def Let_def file_read_chunk_def)

subsection \<open>Writing\<close>

lemma private_write_spec:
  assumes run: "private_write f w i off b = (r, g, w')" and n: "get_node f i = Some n" "is_private n"
    and d: "contents f w i = Some d"
  shows "same_values w w'"
    and "r = (if unat off + length b \<le> max_file_size then Inr () else Inl FileTooLarge)"
    and "contents g w j = (if j = i \<and> unat off + length b \<le> max_file_size then Some (splice d (unat off) b) else contents f w j)"
proof -
  obtain f1 w1 where up: "copy_up f w i = (f1, w1)" by fastforce
  have f1: "get_node f1 i = Some (NFile d)" "same_values w w1" "contents f1 w j = contents f w j" for j
    using copy_up_spec [OF up] n d contents_cong [OF copy_up_spec(1) [OF up]] by auto
  show "same_values w w'"
    and "r = (if unat off + length b \<le> max_file_size then Inr () else Inl FileTooLarge)"
    and "contents g w j = (if j = i \<and> unat off + length b \<le> max_file_size then Some (splice d (unat off) b) else contents f w j)"
    using run up f1 by (auto simp: private_write_def write_at_splice contents_set_node split: if_splits)
qed

lemma is_private_cases: "is_private n \<Longrightarrow> (\<exists>d. n = NFile d) \<or> (\<exists>a. n = NRoFile a)"
  by (cases n) (simp_all add: is_private_def)

lemma private_kind:
  assumes "get_node f i = Some n" and "is_private n" and "vfs_node_kind f w i = (k, w1)"
  shows "k = KFile \<or> (\<exists>d. k = KRo d)"
  using is_private_cases [OF assms(2)] assms(1,3) by (auto simp: vfs_node_kind_def split: prod.splits)

lemma fd_write_private:
  assumes "get_node f i = Some n" and "is_private n" and "i \<notin> readonly f"
  shows "\<exists>w1. same_values w w1 \<and> fd_write e f w (Local i) b off =
    (case private_write f w1 i off b of (r, g, w') \<Rightarrow> (case r of Inl er \<Rightarrow> Inl er | Inr _ \<Rightarrow> Inr (of_nat (length b)), g, w'))"
proof (intro exI conjI)
  obtain k w1 where k: "vfs_node_kind f w i = (k, w1)" by fastforce
  then show "same_values w (snd (vfs_node_kind f w i))" using node_kind_values [OF k] by simp
  show "fd_write e f w (Local i) b off =
    (case private_write f (snd (vfs_node_kind f w i)) i off b of (r, g, w') \<Rightarrow>
      (case r of Inl er \<Rightarrow> Inl er | Inr _ \<Rightarrow> Inr (of_nat (length b)), g, w'))"
    using private_kind [OF assms(1,2) k] assms(3) by (auto simp: is_readonly_def k)
qed

text \<open>
  Writing splices, at file granularity and within the size cap. A write to a private file
  or to a file of an image layer replaces exactly the addressed bytes of that file's contents
  (filling a gap with zeros), reports the number of bytes, and is refused with
  \<open>FileTooLarge\<close> and without effect exactly when it would end beyond 256 MiB. No other file, of this or of
  any other filesystem that shares layers or volumes with it, changes: a layer file is copied
  up before it is written.
\<close>

theorem write_refines_splice:
  assumes "get_node f i = Some n" and "is_private n" and "i \<notin> readonly f" and "contents f w i = Some d"
    and "fd_write e f w (Local i) b off = (r, f', w')"
  shows "r = (if unat off + length b \<le> max_file_size then Inr (of_nat (length b)) else Inl FileTooLarge) \<and>
    contents f' w' i = Some (if unat off + length b \<le> max_file_size then splice d (unat off) b else d) \<and>
    (\<forall>j. j \<noteq> i \<longrightarrow> contents f' w' j = contents f w j) \<and> (\<forall>g j. contents g w' j = contents g w j)"
proof -
  obtain w1 where w1: "same_values w w1" "fd_write e f w (Local i) b off =
      (case private_write f w1 i off b of (r, g, w') \<Rightarrow> (case r of Inl er \<Rightarrow> Inl er | Inr _ \<Rightarrow> Inr (of_nat (length b)), g, w'))"
    using fd_write_private [OF assms(1-3)] by blast
  obtain r' where pw: "private_write f w1 i off b = (r', f', w')"
    and r: "r = (case r' of Inl er \<Rightarrow> Inl er | Inr _ \<Rightarrow> Inr (of_nat (length b)))"
    using w1(2) assms(5) by (auto split: prod.splits)
  have d: "contents f w1 i = Some d" using assms(4) contents_cong [OF w1(1)] by simp
  note S = private_write_spec [OF pw assms(1,2) d]
  have v: "same_values w w'" using same_values_trans [OF w1(1) S(1)] .
  then show ?thesis
    using S(2) r S(3) contents_cong [OF w1(1)] contents_cong [OF v] assms(4) by auto
qed

theorem write_refines_splice_witness:
  "fst (fd_write env_zero (fs_default\<lparr>nodes := [(0, NRoFile 4)]\<rparr>) world_zero (Local 0) [9, 9] 1) = Inr 2"
  using write_refines_splice [of "fs_default\<lparr>nodes := [(0, NRoFile 4)]\<rparr>" 0 "NRoFile 4" world_zero "[]" env_zero "[9, 9]" 1]
  by (cases "fd_write env_zero (fs_default\<lparr>nodes := [(0, NRoFile 4)]\<rparr>) world_zero (Local 0) [9, 9] 1")
    (simp add: contents_def is_private_def lb_value_def world_zero_def lb_eager_def max_file_size_def fs_default_def)

text \<open>
  C11: What was written is read back: after a successful write to a private, layer or shared
  file, a read of as many bytes at the same offset returns them (the first 32 KiB of them),
  whatever the file held and wherever its bytes lived before.
\<close>

theorem write_read_roundtrip:
  assumes n: "get_node f i = Some n" "is_private n \<or> (\<exists>s. n = NShared s)"
    and wr: "fd_write e f w (Local i) b off = (Inr m, f', w')" and old: "contents f w i = Some d" "length d < 2 ^ 62"
  shows "\<exists>eof. fst (fd_read e' f' w' (Local i) (of_nat (length b)) off) = Inr (take file_read_chunk b, eof)"
proof -
  have ro: "i \<notin> readonly f" using wr by (auto simp: is_readonly_def)
  have "contents f' w' i = Some (splice d (unat off) b) \<and> unat off + length b \<le> max_file_size"
    using n(2)
  proof
    assume "is_private n"
    then obtain w1 r' where "same_values w w1" "private_write f w1 i off b = (r', f', w')" "r' \<noteq> Inl FileTooLarge"
      using fd_write_private [OF n(1) _ ro, of w e b off] wr by (fastforce split: prod.splits sum.splits)
    with private_write_spec [OF this(2) n(1) \<open>is_private n\<close>, of d] old(1) contents_cong
    show ?thesis by (metis (full_types))
  next
    assume "\<exists>s. n = NShared s"
    then show ?thesis
      using n(1) wr old(1) ro
      by (auto simp: is_readonly_def vfs_node_kind_def shared_write_def write_at_splice contents_def
          split: if_splits)
  qed
  then have new: "contents f' w' i = Some (splice d (unat off) b)" and cap: "unat off + length b \<le> max_file_size"
    by auto
  have "length (splice d (unat off) b) < 2 ^ 63"
    using old(2) cap by (simp add: length_splice max_file_size_def)
  moreover have "unat (of_nat (length b) :: u64) = length b"
    using cap by (simp add: unat_of_nat max_file_size_def)
  moreover have "take (min (length b) file_read_chunk) (drop (unat off) (splice d (unat off) b)) = take file_read_chunk b"
    using arg_cong [OF slice_splice [of b "unat off" d], of "take file_read_chunk"] by (simp add: min.commute)
  ultimately show ?thesis
    using read_slice [OF new, of "of_nat (length b)" e' off] by (auto simp: Let_def)
qed

theorem write_read_roundtrip_witness:
  "\<exists>eof. fst (fd_read env_zero (fs_default\<lparr>nodes := [(0, NFile [1, 9, 9])]\<rparr>) world_zero (Local 0) 2 1) =
     Inr ([9, 9], eof)"
proof -
  have "fd_write env_zero (fs_default\<lparr>nodes := [(0, NFile [1])]\<rparr>) world_zero (Local 0) [9, 9] 1 =
      (Inr 2, fs_default\<lparr>nodes := [(0, NFile [1, 9, 9])]\<rparr>, world_zero)"
    by (simp add: is_readonly_def fs_default_def vfs_node_kind_def private_write_def copy_up_def
        write_at_splice splice_def max_file_size_def set_node_def)
  from write_read_roundtrip [OF _ _ this, of "NFile [1]" "[1]" env_zero]
  show ?thesis by (simp add: is_private_def contents_def file_read_chunk_def)
qed

lemma fd_write_shared:
  assumes "get_node f i = Some (NShared s)" and "i \<notin> readonly f"
  shows "fd_write e f w (Local i) b off =
    (if unat off + length b \<le> max_file_size
     then (Inr (of_nat (length b)), f,
       w\<lparr>shared_cells := (shared_cells w)(s := splice (shared_cells w s) (unat off) b)\<rparr>)
     else (Inl FileTooLarge, f, w))"
  using assms by (simp add: is_readonly_def vfs_node_kind_def shared_write_def write_at_splice)

text \<open>
  A shared volume is one file. After a guest writes to a node that mounts a volume, every
  node of every filesystem that mounts the same volume has the new contents, and every node
  that is not such a mount has the contents it had.
\<close>

theorem shared_write_is_coherent:
  assumes "get_node f i = Some (NShared s)" and "fd_write e f w (Local i) b off = (Inr m, f', w')"
  shows "(get_node g j = Some (NShared s) \<longrightarrow>
      contents g w' j = Some (splice (shared_cells w s) (unat off) b)) \<and>
    (get_node g j \<noteq> Some (NShared s) \<longrightarrow> contents g w' j = contents g w j) \<and> f' = f"
proof -
  have ro: "i \<notin> readonly f" using assms(2) by (auto simp: is_readonly_def)
  have f': "f' = f" and w': "w' = w\<lparr>shared_cells := (shared_cells w)(s := splice (shared_cells w s) (unat off) b)\<rparr>"
    using assms(2) fd_write_shared [OF assms(1) ro, of e w b off]
    by (cases "unat off + length b \<le> max_file_size"; simp only: if_True if_False; simp)+
  have "lb_load w' = lb_load w" by (rule ext, rule lb_load_cong) (simp add: w')
  then have "lb_value w' = lb_value w" by (simp add: lb_value_def fun_eq_iff w' split: option.split)
  then have "node_bytes w' n = node_bytes w n" if "n \<noteq> NShared s" for n
    using that by (cases n) (auto simp: node_bytes_def w' host_read_def)
  then show ?thesis by (cases "get_node g j") (auto simp: contents_def f' w')
qed

theorem shared_write_is_coherent_witness:
  "contents (fs_default\<lparr>nodes := [(3, NShared 5)]\<rparr>)
     (snd (snd (fd_write env_zero (fs_default\<lparr>nodes := [(0, NShared 5)]\<rparr>) world_zero (Local 0) [9, 9] 1))) 3 =
   Some [0, 9, 9]"
proof -
  obtain f' w' where run: "fd_write env_zero (fs_default\<lparr>nodes := [(0, NShared 5)]\<rparr>) world_zero (Local 0) [9, 9] 1 =
      (Inr 2, f', w')"
    by (simp add: is_readonly_def fs_default_def vfs_node_kind_def shared_write_def write_at_splice max_file_size_def)
  have "contents (fs_default\<lparr>nodes := [(3, NShared 5)]\<rparr>) w' 3 = Some [0, 9, 9]"
    using shared_write_is_coherent [OF _ run, of 5 "fs_default\<lparr>nodes := [(3, NShared 5)]\<rparr>" 3]
    by (simp add: world_zero_def splice_def)
  then show ?thesis unfolding run by simp
qed

text \<open>
  Setting the size of a private, layer or shared file truncates or zero-extends its
  contents to exactly that size, and is refused without effect beyond 256 MiB.
\<close>

theorem set_size_refines_resize:
  assumes "get_node f i = Some n" and "is_private n \<or> (\<exists>s. n = NShared s)" and "i \<notin> readonly f"
    and "contents f w i = Some d" and "set_size e f w (Local i) sz = (r, f', w')"
  shows "r = (if unat sz \<le> max_file_size then Inr () else Inl FileTooLarge) \<and>
    contents f' w' i = Some (if unat sz \<le> max_file_size then take (unat sz) d @ replicate (unat sz - length d) 0 else d)"
proof (cases "unat sz \<le> max_file_size")
  case False
  then show ?thesis using assms by (auto simp: is_readonly_def)
next
  case True
  obtain k w1 where k: "vfs_node_kind f w i = (k, w1)" by fastforce
  have v: "same_values w w1" using node_kind_values [OF k] .
  have d: "contents f w1 i = Some d" using assms(4) contents_cong [OF v] by simp
  show ?thesis
    using assms(2)
  proof
    assume n: "is_private n"
    note kk = private_kind [OF assms(1) n k]
    obtain f2 w2 where up: "copy_up f w1 i = (f2, w2)" by fastforce
    have "get_node f2 i = Some (NFile d)" using copy_up_spec(3) [OF up assms(1) n d] .
    then show ?thesis
      using assms(3,5) kk True
      by (auto simp: is_readonly_def k up contents_set_node vec_resize_def)
  next
    assume "\<exists>s. n = NShared s"
    then show ?thesis
      using assms True
      by (auto simp: is_readonly_def vfs_node_kind_def contents_def vec_resize_def)
  qed
qed

theorem set_size_refines_resize_witness:
  "contents (fst (snd (set_size env_zero (fs_default\<lparr>nodes := [(0, NFile [1])]\<rparr>) world_zero (Local 0) 3)))
     (snd (snd (set_size env_zero (fs_default\<lparr>nodes := [(0, NFile [1])]\<rparr>) world_zero (Local 0) 3))) 0 =
   Some [1, 0, 0]"
proof -
  obtain r f' w' where run: "set_size env_zero (fs_default\<lparr>nodes := [(0, NFile [1])]\<rparr>) world_zero (Local 0) 3 = (r, f', w')"
    by (metis prod_cases3)
  have two: "replicate 2 (0::u8) = [0, 0]" by (simp add: numeral_2_eq_2)
  have "contents f' w' 0 = Some [1, 0, 0]"
    using set_size_refines_resize [OF _ _ _ _ run, of "NFile [1]" "[1]"]
    by (simp add: is_private_def contents_def fs_default_def max_file_size_def two)
  then show ?thesis unfolding run by simp
qed

subsection \<open>Streams\<close>

fun drain :: "env \<Rightarrow> world \<Rightarrow> in_stream \<Rightarrow> nat list \<Rightarrow> bytes" where
  "drain e w st [] = []"
| "drain e w st (n # ns) =
     (case in_read e w st n of (None, _, _) \<Rightarrow> [] | (Some b, st', w') \<Rightarrow> b @ drain e w' st' ns)"

lemma drain_file:
  "length b - pos \<le> sum_list (map (\<lambda>n. min n file_read_chunk) ns) \<Longrightarrow> drain e w (InFile b pos) ns = drop pos b"
proof (induction ns arbitrary: pos)
  case (Cons n ns)
  define k where "k = min (min n file_read_chunk) (length b - pos)"
  have "drain e w (InFile b (pos + k)) ns = drop (pos + k) b" if "pos < length b"
    using Cons.prems that by (intro Cons.IH) (auto simp: k_def min_def)
  moreover have "take k (drop pos b) @ drop (pos + k) b = drop pos b"
    by (metis append_take_drop_id drop_drop add.commute)
  ultimately show ?case
    by (cases "pos < length b") (auto simp: bounded_in_read_def k_def [symmetric] Let_def)
qed simp

lemma read_via_stream_contents:
  assumes "contents f w i = Some d"
  shows "\<exists>w'. read_via_stream e f w (Local i) off = (Inr (InFile (drop (unat off) d) 0), w')"
proof -
  obtain k w' where k: "vfs_node_kind f w i = (k, w')" by fastforce
  have "from_offset d off = drop (unat off) d" by (simp add: from_offset_def min_def)
  with node_kind_contents [OF k assms] show ?thesis using k by auto
qed

text \<open>
  C26: A read stream delivers the whole file. The stream opened on a file at an offset holds the
  bytes the file had then; reads of any sizes that together ask for enough (each read counts
  for at most 32 KiB, the bound on one transfer to the guest) return exactly those bytes, in
  order, whatever is written to the file, the volume or the disk between the reads.
\<close>

theorem stream_delivers_snapshot:
  assumes "contents f w i = Some d"
    and "length d - unat off \<le> sum_list (map (\<lambda>n. min n file_read_chunk) ns)"
  shows "\<exists>st w'. read_via_stream e f w (Local i) off = (Inr st, w') \<and>
    (\<forall>e' w''. drain e' w'' st ns = drop (unat off) d)"
  using read_via_stream_contents [OF assms(1), of e off] drain_file [of "drop (unat off) d" 0 ns] assms(2)
  by auto

theorem stream_delivers_snapshot_witness:
  "\<exists>st w'. read_via_stream env_zero (fs_default\<lparr>nodes := [(0, NFile [1, 2, 3])]\<rparr>) world_zero (Local 0) 1 = (Inr st, w') \<and>
    (\<forall>e' w''. drain e' w'' st [1, 5] = [2, 3])"
  using stream_delivers_snapshot [of "fs_default\<lparr>nodes := [(0, NFile [1, 2, 3])]\<rparr>" world_zero 0 "[1, 2, 3]" 1 "[1, 5]" env_zero]
  by (simp add: contents_def file_read_chunk_def)

subsection \<open>Layer files\<close>

text \<open>
  A layer file is loaded at most once, and only by a read. Its first read fills the cell,
  and from then on every read returns the same bytes without touching the disk, even when the
  layer's archive changes or is deleted. Stat reports the size from the archive's header
  without loading anything, and it is the length a read delivers as long as the archive is
  intact.
\<close>

theorem layer_file_loads_once:
  assumes "get_node f i = Some (NRoFile a)"
  shows "is_materialized (layer_cells (snd (lb_bytes w a)) a) \<and>
    (\<forall>dsk. fst (lb_bytes ((snd (lb_bytes w a))\<lparr>disk := dsk\<rparr>) a) = fst (lb_bytes w a)) \<and>
    snd (fd_stat e f w (Local i)) = w \<and>
    (lb_len (layer_cells w a) = length (lb_value w a) \<longrightarrow>
      fst (fd_stat e f w (Local i)) =
        Inr \<lparr>ds_type = TRegularFile, ds_size = of_nat (length (fst (lb_bytes w a))), ds_mtime = None\<rparr>)"
proof (intro conjI allI impI)
  obtain d w' where run: "lb_bytes w a = (d, w')" by fastforce
  have cell: "lb_cell (layer_cells w' a) = Some d"
    using run by (auto simp: lb_bytes_def Let_def split: option.splits)
  then show "is_materialized (layer_cells (snd (lb_bytes w a)) a)" by (simp add: run is_materialized_def)
  show "fst (lb_bytes ((snd (lb_bytes w a))\<lparr>disk := dsk\<rparr>) a) = fst (lb_bytes w a)" for dsk
    using cell unfolding run by (simp add: lb_bytes_def)
  show "snd (fd_stat e f w (Local i)) = w" using assms by (simp add: stat_node_def)
  assume "lb_len (layer_cells w a) = length (lb_value w a)"
  then show "fst (fd_stat e f w (Local i)) =
      Inr \<lparr>ds_type = TRegularFile, ds_size = of_nat (length (fst (lb_bytes w a))), ds_mtime = None\<rparr>"
    using assms lb_bytes_spec(1) [OF run] by (simp add: stat_node_def run)
qed

definition lazy_world :: world where
  "lazy_world = world_zero\<lparr>layer_cells := (\<lambda>_. lb_lazy ''t'' 1 2), disk := [''t'' \<mapsto> [4, 5, 6, 7]]\<rparr>"

lemma lazy_world_value: "lb_value lazy_world a = [5, 6]" "lb_len (layer_cells lazy_world a) = 2"
  by (simp_all add: lazy_world_def lb_lazy_def lb_value_def lb_load_def tar_read_def)

theorem layer_file_loads_once_witness:
  "fst (fd_stat env_zero (fs_default\<lparr>nodes := [(0, NRoFile 2)]\<rparr>) lazy_world (Local 0)) =
     Inr \<lparr>ds_type = TRegularFile, ds_size = of_nat (length (fst (lb_bytes lazy_world 2))), ds_mtime = None\<rparr>"
  by (rule layer_file_loads_once [THEN conjunct2, THEN conjunct2, THEN conjunct2, THEN mp])
    (simp_all add: lazy_world_value)

end
