(* ===== verification/Layers.thy ===== *)
theory Layers
  imports Vfs_Data Vfs_Session
begin

text \<open>
  Image layers (\<open>crates/wk-vfs/src/layers.rs\<close>): the entries a tarball gives, loaded eagerly
  or indexed lazily, and the application of a layer to a filesystem. What the \<open>tar\<close> and
  \<open>flate2\<close> crates make of a byte string is a parameter: \<open>tar_entries\<close> yields the members in
  order (a member that cannot be read is \<open>Inl\<close> its error), \<open>gunzip\<close> the decompressed bytes.
\<close>

subsection \<open>Entries\<close>

datatype layer_entry =
    LDir string
  | LFile string nat  \<comment> \<open>the address of the shared \<open>LayerBytes\<close>\<close>
  | LSymlink string string
  | LWhiteout string
  | LOpaque string

definition normalize :: "string \<Rightarrow> string" where
  "normalize path = join_with ''/'' (filter (\<lambda>c. c \<noteq> [] \<and> c \<noteq> ''.'') (split_on CHR ''/'' path))"

text \<open>\<open>rsplit_once('/')\<close>.\<close>

definition rsplit_once :: "string \<Rightarrow> (string \<times> string) option" where
  "rsplit_once path =
     (case split_last (split_on CHR ''/'' path) of
        Some (base, d # ds) \<Rightarrow> Some (join_with ''/'' (d # ds), base)
      | _ \<Rightarrow> None)"

definition layer_classify :: "string \<Rightarrow> nat option \<Rightarrow> layer_entry" where
  "layer_classify path file =
     (let (dir, base) = (case rsplit_once path of Some (d, b) \<Rightarrow> (d, b) | None \<Rightarrow> ('''', path)) in
      if base = ''.wh..wh..opq'' then LOpaque dir
      else
        (case strip_prefix ''.wh.'' base of
           Some target \<Rightarrow> LWhiteout (if dir = [] then target else dir @ ''/'' @ target)
         | None \<Rightarrow> (case file of Some a \<Rightarrow> LFile path a | None \<Rightarrow> LDir path)))"

subsection \<open>Loading\<close>

datatype tar_type = TarDirectory | TarRegular | TarLink | TarOther

record tar_member =
  tm_path :: string
  tm_type :: tar_type
  tm_data :: bytes
  tm_position :: nat
  tm_link :: "string option"

type_synonym tar_reader = "bytes \<Rightarrow> string + (string + tar_member) list"

text \<open>
  The loop over the members. Every file gets a new \<open>LayerBytes\<close> at the next free address
  \<open>a\<close> of the store \<open>cells\<close>; \<open>mk\<close> says what it is: the bytes, or the recipe.
\<close>

fun load_members ::
  "(tar_member \<Rightarrow> layer_bytes) \<Rightarrow> (string + tar_member) list \<Rightarrow> nat \<Rightarrow> (nat \<Rightarrow> layer_bytes) \<Rightarrow>
     string + (layer_entry list \<times> (nat \<Rightarrow> layer_bytes))" where
  "load_members mk [] a cells = Inr ([], cells)"
| "load_members mk (Inl er # ms) a cells = Inl er"
| "load_members mk (Inr m # ms) a cells =
     (let path = normalize (tm_path m);
          push = (\<lambda>en a' cells'.
            case load_members mk ms a' cells' of
              Inl er \<Rightarrow> Inl er
            | Inr (ens, cs) \<Rightarrow> Inr (en @ ens, cs))
      in
      if path = [] then load_members mk ms a cells
      else
        (case tm_type m of
           TarDirectory \<Rightarrow> push [layer_classify path None] a cells
         | TarRegular \<Rightarrow> push [layer_classify path (Some a)] (a + 1) (cells(a := mk m))
         | TarLink \<Rightarrow>
            (case tm_link m of
               Some target \<Rightarrow> push [LSymlink path target] a cells
             | None \<Rightarrow> load_members mk ms a cells)
         | TarOther \<Rightarrow> load_members mk ms a cells))"

definition gzip_magic :: "bytes \<Rightarrow> bool" where
  "gzip_magic b \<longleftrightarrow> take 2 b = [0x1f, 0x8b]"

definition from_tar_bytes ::
  "(bytes \<Rightarrow> string + bytes) \<Rightarrow> tar_reader \<Rightarrow> bytes \<Rightarrow> nat \<Rightarrow> (nat \<Rightarrow> layer_bytes) \<Rightarrow>
     string + (layer_entry list \<times> (nat \<Rightarrow> layer_bytes))" where
  "from_tar_bytes gunzip tar_entries b a cells =
     (case (if gzip_magic b then gunzip b else Inr b) of
        Inl er \<Rightarrow> Inl er
      | Inr plain \<Rightarrow>
         (case tar_entries plain of
            Inl er \<Rightarrow> Inl er
          | Inr ms \<Rightarrow> load_members (\<lambda>m. lb_eager (tm_data m)) ms a cells))"

definition from_tar_file ::
  "(bytes \<Rightarrow> string + bytes) \<Rightarrow> tar_reader \<Rightarrow> world \<Rightarrow> string \<Rightarrow> nat \<Rightarrow>
     string + (layer_entry list \<times> (nat \<Rightarrow> layer_bytes))" where
  "from_tar_file gunzip tar_entries w path a =
     (case disk w path of
        None \<Rightarrow> Inl ''open layer''
      | Some b \<Rightarrow>
         if gzip_magic b then from_tar_bytes gunzip tar_entries b a (layer_cells w)
         else
           (case tar_entries b of
              Inl er \<Rightarrow> Inl er
            | Inr ms \<Rightarrow>
               load_members (\<lambda>m. lb_lazy path (tm_position m) (length (tm_data m))) ms a (layer_cells w)))"

subsection \<open>Applying\<close>

definition layer_join :: "string \<Rightarrow> string \<Rightarrow> string" where
  "layer_join prefix p =
     (if prefix = [] then p else if p = [] then prefix else prefix @ ''/'' @ p)"

fun apply_removal :: "string \<Rightarrow> layer_entry \<Rightarrow> fs \<Rightarrow> fs" where
  "apply_removal prefix (LWhiteout p) f = remove_path f (layer_join prefix p)"
| "apply_removal prefix (LOpaque p) f = clear_dir_at f (layer_join prefix p)"
| "apply_removal prefix _ f = f"

fun apply_dir :: "string \<Rightarrow> layer_entry \<Rightarrow> fs \<Rightarrow> fs" where
  "apply_dir prefix (LDir p) f = fst (ensure_dir_path f (layer_join prefix p))"
| "apply_dir prefix _ f = f"

fun apply_file :: "string \<Rightarrow> layer_entry \<Rightarrow> fs \<Rightarrow> fs" where
  "apply_file prefix (LFile p a) f = put_ro_file_at f (layer_join prefix p) a"
| "apply_file prefix _ f = f"

fun apply_link :: "string \<Rightarrow> layer_entry \<Rightarrow> fs \<Rightarrow> fs" where
  "apply_link prefix (LSymlink p t) f = put_symlink_at f (layer_join prefix p) t"
| "apply_link prefix _ f = f"

definition layer_apply :: "fs \<Rightarrow> layer_entry list \<Rightarrow> string \<Rightarrow> fs" where
  "layer_apply f entries prefix0 =
     (let prefix = normalize prefix0;
          f1 = fst (ensure_dir_path f prefix);
          f2 = fold (apply_removal prefix) entries f1;
          f3 = fold (apply_dir prefix) entries f2;
          f4 = fold (apply_file prefix) entries f3
      in fold (apply_link prefix) entries f4)"

subsection \<open>The cache\<close>

text \<open>
  \<open>cached\<close> takes the lock twice: to look the key up, and after the load to store the layer.
  Its result is the layer that was found, or the one that was loaded.
\<close>

definition cached_lookup :: "(string \<rightharpoonup> nat) \<Rightarrow> string \<Rightarrow> nat option" where
  "cached_lookup cache key = cache key"

definition cached_store :: "(string \<rightharpoonup> nat) \<Rightarrow> string \<Rightarrow> nat \<Rightarrow> nat \<times> (string \<rightharpoonup> nat)" where
  "cached_store cache key layer =
     (layer, case cache key of Some _ \<Rightarrow> cache | None \<Rightarrow> cache(key \<mapsto> layer))"

definition cached :: "(string \<rightharpoonup> nat) \<Rightarrow> string \<Rightarrow> (string + nat) \<Rightarrow> (string + nat) \<times> (string \<rightharpoonup> nat)" where
  "cached cache key load =
     (case cached_lookup cache key of
        Some hit \<Rightarrow> (Inr hit, cache)
      | None \<Rightarrow>
         (case load of
            Inl er \<Rightarrow> (Inl er, cache)
          | Inr layer \<Rightarrow> (let (r, c) = cached_store cache key layer in (Inr r, c))))"

subsection \<open>What the application of a layer relies on\<close>

text \<open>
  The contract between \<open>apply\<close> and the filesystem: every path operation it calls keeps the
  filesystem's invariant and stands in a transitive relation to what was before.
\<close>

locale layer_target =
  fixes inv :: "fs \<Rightarrow> bool" and rel :: "fs \<Rightarrow> fs \<Rightarrow> bool"
  assumes rel_inv: "\<lbrakk>inv f; rel f g\<rbrakk> \<Longrightarrow> inv g"
    and rel_refl: "inv f \<Longrightarrow> rel f f"
    and rel_trans: "\<lbrakk>rel f g; rel g h\<rbrakk> \<Longrightarrow> rel f h"
    and ensure: "inv f \<Longrightarrow> rel f (fst (ensure_dir_path f path))"
    and remove: "inv f \<Longrightarrow> rel f (remove_path f path)"
    and clear: "inv f \<Longrightarrow> rel f (clear_dir_at f path)"
    and put_ro: "inv f \<Longrightarrow> rel f (put_ro_file_at f path a)"
    and put_link: "inv f \<Longrightarrow> rel f (put_symlink_at f path t)"
begin

lemma fold_rel: "(\<And>en f. inv f \<Longrightarrow> rel f (op en f)) \<Longrightarrow> inv f \<Longrightarrow> rel f (fold op ens f)"
proof (induction ens arbitrary: f)
  case (Cons en ens)
  have one: "rel f (op en f)" using Cons.prems by blast
  have "rel (op en f) (fold op ens (op en f))" using Cons.IH Cons.prems rel_inv [OF _ one] by blast
  then show ?case using rel_trans [OF one] by simp
qed (simp add: rel_refl)

lemma phases:
  assumes "inv f"
  shows "rel f (apply_removal p en f)" and "rel f (apply_dir p en f)" and "rel f (apply_file p en f)"
    and "rel f (apply_link p en f)"
  using assms by (cases en; simp add: rel_refl ensure remove clear put_ro put_link)+

lemma apply_rel:
  assumes "inv f"
  shows "rel f (layer_apply f ens prefix)"
proof -
  define p where "p = normalize prefix"
  have step: "rel f g \<Longrightarrow> (\<And>h en. inv h \<Longrightarrow> rel h (op en h)) \<Longrightarrow> rel f (fold op ens g)" for g op
    using fold_rel [of op g ens] assms rel_inv rel_trans by blast
  have "rel f (fold (apply_link p) ens (fold (apply_file p) ens (fold (apply_dir p) ens
      (fold (apply_removal p) ens (fst (ensure_dir_path f p))))))"
    by (intro step phases ensure assms)
  then show ?thesis by (simp add: layer_apply_def p_def Let_def)
qed

end

lemma extends_inv: "extends f g \<Longrightarrow> fs_inv g"
  by (simp add: extends_def)

interpretation fs_layers: layer_target fs_inv extends
  by unfold_locales
    (simp_all add: put_ro_file_at_def put_symlink_at_def extends_mount_node_at extends_refl
      extends_remove_path extends_clear_dir_at extends_ensure_dirs ensure_dir_path_def extends_inv,
     rule extends_trans)

text \<open>
  Applying any layer, wherever it is mounted, keeps the filesystem sound: the invariant
  (with the node cap) holds afterwards, no id is reused, no descriptor count changes, and no
  node that existed gains or loses its read-only mark.
\<close>

theorem layer_apply_keeps_fs:
  assumes "fs_inv f"
  shows "fs_inv (layer_apply f ens prefix) \<and> next_node f \<le> next_node (layer_apply f ens prefix) \<and>
    open_fds (layer_apply f ens prefix) = open_fds f \<and>
    (\<forall>i < next_node f. i \<in> readonly (layer_apply f ens prefix) \<longleftrightarrow> i \<in> readonly f)"
  using fs_layers.apply_rel [OF assms, of ens prefix] by (simp add: extends_def)

theorem layer_apply_keeps_fs_witness:
  "fs_inv (layer_apply fs_default [LFile ''bin/sh'' 4, LWhiteout ''tmp''] ''/'')"
  using layer_apply_keeps_fs [OF fs_inv_default] by blast

subsection \<open>Phases\<close>

fun entry_phase :: "layer_entry \<Rightarrow> nat" where
  "entry_phase (LWhiteout _) = 0"
| "entry_phase (LOpaque _) = 0"
| "entry_phase (LDir _) = 1"
| "entry_phase (LFile _ _) = 2"
| "entry_phase (LSymlink _ _) = 3"

lemma fold_phase:
  assumes "\<And>en f. entry_phase en \<noteq> k \<Longrightarrow> op en f = f"
  shows "fold op ens f = fold op (filter (\<lambda>en. entry_phase en = k) ens) f"
  using assms by (induction ens arbitrary: f) auto

lemma phase_ids:
  "entry_phase en \<noteq> 0 \<Longrightarrow> apply_removal p en f = f" "entry_phase en \<noteq> Suc 0 \<Longrightarrow> apply_dir p en f = f"
  "entry_phase en \<noteq> 2 \<Longrightarrow> apply_file p en f = f" "entry_phase en \<noteq> 3 \<Longrightarrow> apply_link p en f = f"
  by (cases en; simp)+

text \<open>
  How a layer lands does not depend on how its archive interleaves removals, directories,
  files and links: two layers with the same removals, the same directories, the same files
  and the same links, each in their order, have the same effect on every filesystem. In
  particular a whiteout or opaque marker never removes what its own layer adds.
\<close>

theorem layer_apply_phases:
  assumes "\<And>k. filter (\<lambda>en. entry_phase en = k) ens = filter (\<lambda>en. entry_phase en = k) ens'"
  shows "layer_apply f ens prefix = layer_apply f ens' prefix"
proof -
  have "fold (apply_removal p) ens = fold (apply_removal p) ens'" for p
    using fold_phase [of 0 "apply_removal p"] phase_ids(1) assms by (metis (no_types, lifting) ext)
  moreover have "fold (apply_dir p) ens = fold (apply_dir p) ens'" for p
    using fold_phase [of "Suc 0" "apply_dir p"] phase_ids(2) assms by (metis (no_types, lifting) ext)
  moreover have "fold (apply_file p) ens = fold (apply_file p) ens'" for p
    using fold_phase [of 2 "apply_file p"] phase_ids(3) assms by (metis (no_types, lifting) ext)
  moreover have "fold (apply_link p) ens = fold (apply_link p) ens'" for p
    using fold_phase [of 3 "apply_link p"] phase_ids(4) assms by (metis (no_types, lifting) ext)
  ultimately show ?thesis by (simp add: layer_apply_def)
qed

theorem layer_apply_phases_witness:
  "layer_apply fs_default [LFile ''a/x'' 1, LOpaque ''a''] [] = layer_apply fs_default [LOpaque ''a'', LFile ''a/x'' 1] []"
  by (rule layer_apply_phases) simp

subsection \<open>Classification\<close>

lemma rsplit_once_join:
  assumes "\<forall>c \<in> set (ds @ [b]). clean c"
  shows "rsplit_once (join_with ''/'' (ds @ [b])) = (if ds = [] then None else Some (join_with ''/'' ds, b))"
proof -
  have "split_on CHR ''/'' (join_with [CHR ''/''] (ds @ [b])) = ds @ [b]"
    using assms by (intro split_on_join) (auto simp: clean_def)
  then show ?thesis by (cases ds) (simp_all add: rsplit_once_def del: append.simps)
qed

lemma join_with_snoc: "ds \<noteq> [] \<Longrightarrow> join_with ''/'' (ds @ [b]) = join_with ''/'' ds @ ''/'' @ b"
proof (induction ds)
  case (Cons d ds)
  then show ?case by (cases ds) simp_all
qed simp

text \<open>
  What a member of an archive means depends on its base name alone. For every normalized
  path: \<open>.wh..wh..opq\<close> marks its directory opaque, \<open>.wh.\<close> followed by a name whites that name
  out in the same directory, and any other member is itself, a file with its bytes or a
  directory.
\<close>

theorem layer_classify_by_base_name:
  assumes "\<forall>c \<in> set (ds @ [b]). clean c"
  shows "layer_classify (join_with ''/'' (ds @ [b])) file =
    (if b = ''.wh..wh..opq'' then LOpaque (join_with ''/'' ds)
     else
       (case strip_prefix ''.wh.'' b of
          Some t \<Rightarrow> LWhiteout (join_with ''/'' (ds @ [t]))
        | None \<Rightarrow>
           (case file of
              Some a \<Rightarrow> LFile (join_with ''/'' (ds @ [b])) a
            | None \<Rightarrow> LDir (join_with ''/'' (ds @ [b])))))"
proof (cases "ds = []")
  case True
  then show ?thesis
    using rsplit_once_join [OF assms] by (simp add: layer_classify_def split: option.split)
next
  case False
  then have "join_with ''/'' ds \<noteq> []" using assms by (cases ds; cases "tl ds") (auto simp: clean_def)
  with False rsplit_once_join [OF assms] join_with_snoc [OF False] show ?thesis
    by (simp add: layer_classify_def split: option.split)
qed

theorem layer_classify_by_base_name_witness:
  "layer_classify ''etc/.wh.passwd'' (Some 1) = LWhiteout ''etc/passwd''"
  using layer_classify_by_base_name [of "[''etc'']" "''.wh.passwd''" "Some 1"] by (simp add: clean_def)

subsection \<open>Lazy and eager layers\<close>

text \<open>What a \<open>LayerBytes\<close> delivers in a world: its cell, or what its recipe reads.\<close>

definition cell_value :: "world \<Rightarrow> layer_bytes \<Rightarrow> bytes" where
  "cell_value w lb = (case lb_cell lb of Some d \<Rightarrow> d | None \<Rightarrow> lb_load w lb)"

lemma lb_value_cell: "lb_value w a = cell_value w (layer_cells w a)"
  by (simp add: lb_value_def cell_value_def)

lemma cell_value_cells [simp]: "cell_value (w\<lparr>layer_cells := c\<rparr>) lb = cell_value w lb"
proof -
  have "lb_load (w\<lparr>layer_cells := c\<rparr>) lb = lb_load w lb" by (rule lb_load_cong) simp
  then show ?thesis by (simp add: cell_value_def split: option.split)
qed

text \<open>Two results of a load that no reader can tell apart.\<close>

definition same_layer ::
  "world \<Rightarrow> string + (layer_entry list \<times> (nat \<Rightarrow> layer_bytes)) \<Rightarrow> string + (layer_entry list \<times> (nat \<Rightarrow> layer_bytes)) \<Rightarrow> bool" where
  "same_layer w =
     rel_sum (=) (\<lambda>(ens, c) (ens', c'). ens = ens' \<and> (\<forall>x. cell_value w (c x) = cell_value w (c' x)))"

lemma same_layer_push:
  "same_layer w r r' \<Longrightarrow>
     same_layer w (case r of Inl er \<Rightarrow> Inl er | Inr (ens, cs) \<Rightarrow> Inr (en @ ens, cs))
       (case r' of Inl er \<Rightarrow> Inl er | Inr (ens, cs) \<Rightarrow> Inr (en @ ens, cs))"
  by (cases r; cases r') (auto simp: same_layer_def)

lemma load_members_same:
  assumes "\<forall>x. cell_value w (cells x) = cell_value w (cells' x)"
    and "\<forall>m. Inr m \<in> set ms \<longrightarrow> tm_type m = TarRegular \<longrightarrow> cell_value w (mk m) = cell_value w (mk' m)"
  shows "same_layer w (load_members mk ms a cells) (load_members mk' ms a cells')"
  using assms
proof (induction ms arbitrary: a cells cells')
  case Nil
  then show ?case by (simp add: same_layer_def)
next
  case (Cons x ms)
  show ?case
  proof (cases x)
    case (Inl er)
    then show ?thesis by (simp add: same_layer_def)
  next
    case (Inr m)
    have IH: "same_layer w (load_members mk ms a1 c1) (load_members mk' ms a1 c2)"
      if "\<forall>x. cell_value w (c1 x) = cell_value w (c2 x)" for a1 c1 c2
      using Cons.prems(2) by (intro Cons.IH that) auto
    have "same_layer w (load_members mk ms (Suc a) (cells(a := mk m))) (load_members mk' ms (Suc a) (cells'(a := mk' m)))"
      if "tm_type m = TarRegular"
      using Cons.prems that Inr by (intro IH) auto
    then show ?thesis
      using IH [OF Cons.prems(1), of a]
      by (cases "tm_type m"; cases "tm_link m") (simp_all add: Inr Let_def same_layer_push)
  qed
qed


definition one_member :: tar_member where
  "one_member = \<lparr>tm_path = ''./etc/x'', tm_type = TarRegular, tm_data = [5, 6], tm_position = 1, tm_link = None\<rparr>"


subsection \<open>The cache\<close>

text \<open>
  The cache loads a layer once for callers that come one after the other: after a
  successful call, every later call for the key returns the same layer and calls no loader;
  a failed load leaves the cache as it was. Two callers that look the key up before either
  has stored it, though, get two different layers: the second one is handed the layer it
  loaded itself, not the one the cache keeps.
\<close>

theorem cached_shares_sequentially:
  "(cached cache key load = (Inr l, cache') \<longrightarrow> cached cache' key load' = (Inr l, cache')) \<and>
   (cached cache key load = (Inl er, cache') \<longrightarrow> cache' = cache) \<and>
   (cached_lookup cache key = None \<longrightarrow> l \<noteq> l' \<longrightarrow>
      (let (r, c1) = cached_store cache key l; (r', c2) = cached_store c1 key l'
       in r' \<noteq> r \<and> cached_lookup c2 key = Some r))"
  by (auto simp: cached_def cached_lookup_def cached_store_def split: option.splits sum.splits)

theorem cached_shares_sequentially_witness:
  "cached [''k'' \<mapsto> 7] ''k'' (Inr 9) = (Inr 7, [''k'' \<mapsto> 7])"
  using cached_shares_sequentially [of Map.empty "''k''" "Inr 7" 7 "[''k'' \<mapsto> 7]" "Inr 9"]
  by (simp add: cached_def cached_lookup_def cached_store_def)

end
