(* ===== verification/Midifile.thy ===== *)
theory Midifile
  imports Prelude
begin

unbundle bit_operations_syntax

text \<open>
  Standard MIDI Files (\<open>crates/wk-midifile/src/lib.rs\<close>): the events, the reader, the parser and
  the writer. Numbers keep their width: a delta is a \<open>u32\<close>, a length field wraps as the
  source's casts do. A \<open>Reader\<close> is the part of its slice that it has not consumed,
  \<open>bytes[pos..]\<close>; each of its methods returns what it read and the reader after it, or
  \<open>None\<close>. The order of the definitions is helpers first.
\<close>

subsection \<open>Events and files\<close>

datatype event_kind =
    Midi bytes
  | Meta u8 bytes
  | Sysex bytes

record event =
  ev_delta :: u32
  ev_kind :: event_kind

record midi_file =
  ppq :: u16
  tracks :: "event list list"

datatype midi_error = NotAMidiFile | Truncated | SmpteTiming | BadTrack nat

definition tempo_event :: "u32 \<Rightarrow> event_kind" where
  "tempo_event micros_per_quarter =
     (let m = min micros_per_quarter 0x00FFFFFF
      in Meta 0x51 [ucast (drop_bit 16 m), ucast (drop_bit 8 m), ucast m])"

fun as_tempo :: "event_kind \<Rightarrow> u32 option" where
  "as_tempo (Meta k d) =
     (if k = 0x51 \<and> length d = 3
      then Some (push_bit 16 (ucast (d ! 0)) OR push_bit 8 (ucast (d ! 1)) OR ucast (d ! 2))
      else None)"
| "as_tempo (Midi msg) = None"
| "as_tempo (Sysex d) = None"

definition track_name :: "string \<Rightarrow> event_kind" where
  "track_name name = Meta 0x03 (map of_char name)"

definition time_signature :: "u8 \<Rightarrow> u8 \<Rightarrow> event_kind" where
  "time_signature numerator denominator_pow2 = Meta 0x58 [numerator, denominator_pow2, 24, 8]"

definition end_of_track :: event_kind where
  "end_of_track = Meta 0x2F []"

fun is_end_of_track :: "event_kind \<Rightarrow> bool" where
  "is_end_of_track (Meta k d) = (k = 0x2F)"
| "is_end_of_track (Midi msg) = False"
| "is_end_of_track (Sysex d) = False"

definition midi_file_new :: "u16 \<Rightarrow> midi_file" where
  "midi_file_new p = \<lparr>ppq = max p 1, tracks = []\<rparr>"

definition file_tempo :: "midi_file \<Rightarrow> u32" where
  "file_tempo f =
     (case List.map_filter (\<lambda>e. as_tempo (ev_kind e)) (concat (tracks f)) of
        [] \<Rightarrow> 500000
      | t # _ \<Rightarrow> t)"

subsection \<open>The reader\<close>

definition rd_take :: "bytes \<Rightarrow> nat \<Rightarrow> (bytes \<times> bytes) option" where
  "rd_take r n = (if n \<le> length r then Some (take n r, drop n r) else None)"

definition rd_u8 :: "bytes \<Rightarrow> (u8 \<times> bytes) option" where
  "rd_u8 r = (case rd_take r 1 of None \<Rightarrow> None | Some (b, r') \<Rightarrow> Some (b ! 0, r'))"

definition be_u32 :: "bytes \<Rightarrow> u32" where
  "be_u32 b = push_bit 24 (ucast (b ! 0)) OR push_bit 16 (ucast (b ! 1)) OR push_bit 8 (ucast (b ! 2)) OR ucast (b ! 3)"

definition rd_u32 :: "bytes \<Rightarrow> (u32 \<times> bytes) option" where
  "rd_u32 r = (case rd_take r 4 of None \<Rightarrow> None | Some (b, r') \<Rightarrow> Some (be_u32 b, r'))"

fun vlq_loop :: "nat \<Rightarrow> u32 \<Rightarrow> bytes \<Rightarrow> (u32 \<times> bytes) option" where
  "vlq_loop 0 v r = None"
| "vlq_loop (Suc k) v r =
     (case rd_u8 r of
        None \<Rightarrow> None
      | Some (b, r') \<Rightarrow>
          (let v' = push_bit 7 v OR ucast (b AND 0x7F)
           in if b AND 0x80 = 0 then Some (v', r') else vlq_loop k v' r'))"

definition rd_vlq :: "bytes \<Rightarrow> (u32 \<times> bytes) option" where
  "rd_vlq r = vlq_loop 4 0 r"

lemma rd_take_shorter: "rd_take r n = Some (b, r') \<Longrightarrow> length r' + n = length r \<and> length b = n"
  by (auto simp: rd_take_def split: if_splits)

lemma rd_u8_Cons [simp]: "rd_u8 (b # r) = Some (b, r)"
  by (simp add: rd_u8_def rd_take_def)

lemma rd_u8_Nil [simp]: "rd_u8 [] = None"
  by (simp add: rd_u8_def rd_take_def)

lemma rd_u8_Some: "rd_u8 r = Some (b, r') \<longleftrightarrow> r = b # r'"
  by (cases r) auto

lemma vlq_loop_shorter: "vlq_loop k v r = Some (x, r') \<Longrightarrow> length r' < length r"
proof (induction k v r rule: vlq_loop.induct)
  case (2 k v r)
  then show ?case by (cases r) (fastforce split: if_splits simp: Let_def)+
qed simp

lemma rd_vlq_shorter: "rd_vlq r = Some (x, r') \<Longrightarrow> length r' < length r"
  by (simp add: rd_vlq_def vlq_loop_shorter)

subsection \<open>Reading a track\<close>

definition channel_data_len :: "u8 \<Rightarrow> nat" where
  "channel_data_len status = (let s = status AND 0xF0 in if s = 0xC0 \<or> s = 0xD0 then 1 else 2)"

text \<open>The body of the loop: one event, the running status after it, and the rest.\<close>

definition parse_kind :: "u8 option \<Rightarrow> u8 \<Rightarrow> bytes \<Rightarrow> (event_kind \<times> u8 option \<times> bytes) option" where
  "parse_kind running byte r =
     (if byte = 0xFF then
        (case rd_u8 r of
           None \<Rightarrow> None
         | Some (k, r1) \<Rightarrow>
             (case rd_vlq r1 of
                None \<Rightarrow> None
              | Some (n, r2) \<Rightarrow>
                  (case rd_take r2 (unat n) of None \<Rightarrow> None | Some (d, r3) \<Rightarrow> Some (Meta k d, None, r3))))
      else if byte = 0xF0 \<or> byte = 0xF7 then
        (case rd_vlq r of
           None \<Rightarrow> None
         | Some (n, r1) \<Rightarrow>
             (case rd_take r1 (unat n) of None \<Rightarrow> None | Some (d, r2) \<Rightarrow> Some (Sysex d, None, r2)))
      else if 0x80 \<le> byte then
        (case rd_take r (channel_data_len byte) of
           None \<Rightarrow> None
         | Some (d, r1) \<Rightarrow> Some (Midi (byte # d), Some byte, r1))
      else
        (case running of
           None \<Rightarrow> None
         | Some status \<Rightarrow>
             (case rd_take r (channel_data_len status - 1) of
                None \<Rightarrow> None
              | Some (d, r1) \<Rightarrow> Some (Midi (status # byte # d), running, r1))))"

definition parse_event :: "u8 option \<Rightarrow> bytes \<Rightarrow> (event \<times> u8 option \<times> bytes) option" where
  "parse_event running r =
     (case rd_vlq r of
        None \<Rightarrow> None
      | Some (delta, r1) \<Rightarrow>
          (case rd_u8 r1 of
             None \<Rightarrow> None
           | Some (byte, r2) \<Rightarrow>
               (case parse_kind running byte r2 of
                  None \<Rightarrow> None
                | Some (k, running', r3) \<Rightarrow> Some (\<lparr>ev_delta = delta, ev_kind = k\<rparr>, running', r3))))"

lemma parse_kind_shorter: "parse_kind running b r = Some (k, running', r') \<Longrightarrow> length r' \<le> length r"
  unfolding parse_kind_def
  by (auto split: if_splits option.splits prod.splits simp: rd_u8_Some dest!: rd_take_shorter rd_vlq_shorter)

lemma parse_event_shorter: "parse_event running r = Some (e, running', r') \<Longrightarrow> length r' < length r"
  unfolding parse_event_def
  by (auto split: option.splits prod.splits simp: rd_u8_Some dest!: parse_kind_shorter rd_vlq_shorter)

function parse_events :: "u8 option \<Rightarrow> bytes \<Rightarrow> event list option" where
  "parse_events running r =
     (if r = [] then Some []
      else
        (case parse_event running r of
           None \<Rightarrow> None
         | Some (e, running', r') \<Rightarrow>
             if is_end_of_track (ev_kind e) then Some [e]
             else (case parse_events running' r' of None \<Rightarrow> None | Some es \<Rightarrow> Some (e # es))))"
  by pat_completeness auto

termination parse_events
  by (relation "measure (\<lambda>(running, r). length r)") (auto simp: parse_event_shorter)

declare parse_events.simps [simp del]

definition parse_track :: "bytes \<Rightarrow> event list option" where
  "parse_track body = parse_events None body"

subsection \<open>Reading a file\<close>

text \<open>\<open>b"MThd"\<close> and \<open>b"MTrk"\<close>.\<close>

definition mthd :: bytes where
  "mthd = [0x4D, 0x54, 0x68, 0x64]"

definition mtrk :: bytes where
  "mtrk = [0x4D, 0x54, 0x72, 0x6B]"

function parse_chunks :: "nat \<Rightarrow> bytes \<Rightarrow> midi_error + event list list" where
  "parse_chunks index r =
     (case rd_take r 4 of
        None \<Rightarrow> Inr []
      | Some (tag, r1) \<Rightarrow>
          (case rd_u32 r1 of
             None \<Rightarrow> Inl Truncated
           | Some (len, r2) \<Rightarrow>
               (case rd_take r2 (unat len) of
                  None \<Rightarrow> Inl Truncated
                | Some (body, r3) \<Rightarrow>
                    if tag = mtrk then
                      (case parse_track body of
                         None \<Rightarrow> Inl (BadTrack index)
                       | Some t \<Rightarrow>
                           (case parse_chunks (index + 1) r3 of Inl er \<Rightarrow> Inl er | Inr ts \<Rightarrow> Inr (t # ts)))
                    else parse_chunks index r3)))"
  by pat_completeness auto

termination parse_chunks
  by (relation "measure (\<lambda>(index, r). length r)")
    (auto simp: rd_u32_def split: option.splits prod.splits dest!: rd_take_shorter)

declare parse_chunks.simps [simp del]

definition be_u16 :: "bytes \<Rightarrow> u16" where
  "be_u16 b = push_bit 8 (ucast (b ! 0)) OR ucast (b ! 1)"

text \<open>\<open>division\<close> is an \<open>i16\<close>: the word, compared as a signed number.\<close>

definition parse :: "bytes \<Rightarrow> midi_error + midi_file" where
  "parse bs =
     (case rd_take bs 4 of
        None \<Rightarrow> Inl Truncated
      | Some (tag, r) \<Rightarrow>
          if tag \<noteq> mthd then Inl NotAMidiFile
          else
            (case rd_u32 r of
               None \<Rightarrow> Inl Truncated
             | Some (header_len, r1) \<Rightarrow>
                 (case rd_take r1 (unat header_len) of
                    None \<Rightarrow> Inl Truncated
                  | Some (header, r2) \<Rightarrow>
                      if length header < 6 then Inl Truncated
                      else
                        (let division = be_u16 [header ! 4, header ! 5]
                         in if sint division \<le> 0 then Inl SmpteTiming
                            else
                              (case parse_chunks 0 r2 of
                                 Inl er \<Rightarrow> Inl er
                               | Inr ts \<Rightarrow> Inr \<lparr>ppq = division, tracks = ts\<rparr>)))))"

subsection \<open>Writing\<close>

text \<open>The first loop of \<open>write_vlq\<close>: the bytes it puts into \<open>buf\<close>, least significant first.\<close>

function vlq_digits :: "u32 \<Rightarrow> bytes" where
  "vlq_digits v = ucast (v AND 0x7F) # (if drop_bit 7 v = 0 then [] else vlq_digits (drop_bit 7 v))"
  by pat_completeness auto

lemma unat_drop7: "unat (drop_bit 7 v) = unat (v::u32) div 128"
  by (simp add: drop_bit_eq_div unat_div_distrib)

termination vlq_digits
proof (relation "measure unat")
  fix v :: u32
  assume "drop_bit 7 v \<noteq> 0"
  then have "unat v div 128 \<noteq> 0" by (metis unat_drop7 unat_eq_0)
  then show "(drop_bit 7 v, v) \<in> measure unat" by (simp add: unat_drop7)
qed simp

declare vlq_digits.simps [simp del]

definition write_vlq :: "u32 \<Rightarrow> bytes" where
  "write_vlq v =
     (let buf = vlq_digits v
      in map (\<lambda>i. buf ! i OR (if 0 < i then 0x80 else 0)) (rev [0..<length buf]))"

fun write_kind :: "event_kind \<Rightarrow> bytes" where
  "write_kind (Midi msg) = msg"
| "write_kind (Meta k d) = 0xFF # k # write_vlq (of_nat (length d)) @ d"
| "write_kind (Sysex d) = 0xF0 # write_vlq (of_nat (length d)) @ d"

definition ends_track :: "event list \<Rightarrow> bool" where
  "ends_track es = (es \<noteq> [] \<and> is_end_of_track (ev_kind (last es)))"

definition write_track :: "event list \<Rightarrow> bytes" where
  "write_track es =
     concat (map (\<lambda>e. write_vlq (ev_delta e) @ write_kind (ev_kind e)) es) @
     (if ends_track es then [] else write_vlq 0 @ [0xFF, 0x2F, 0])"

definition to_be_u16 :: "u16 \<Rightarrow> bytes" where
  "to_be_u16 v = [ucast (drop_bit 8 v), ucast v]"

definition to_be_u32 :: "u32 \<Rightarrow> bytes" where
  "to_be_u32 v = [ucast (drop_bit 24 v), ucast (drop_bit 16 v), ucast (drop_bit 8 v), ucast v]"

definition write_chunk :: "event list \<Rightarrow> bytes" where
  "write_chunk t = (let body = write_track t in mtrk @ to_be_u32 (of_nat (length body)) @ body)"

definition write_file :: "midi_file \<Rightarrow> bytes" where
  "write_file f =
     mthd @ to_be_u32 6 @ to_be_u16 1 @ to_be_u16 (of_nat (length (tracks f))) @ to_be_u16 (max (ppq f) 1) @
     concat (map write_chunk (tracks f))"


subsection \<open>Variable-length quantities\<close>

text \<open>What the second loop pushes for the digits above the lowest one.\<close>

definition vlq_high :: "u32 \<Rightarrow> bytes" where
  "vlq_high v = map (\<lambda>d. d OR 0x80) (rev (vlq_digits v))"

lemma vlq_high_step:
  "vlq_high v = (if drop_bit 7 v = 0 then [] else vlq_high (drop_bit 7 v)) @ [ucast (v AND 0x7F) OR 0x80]"
  by (subst (1) vlq_high_def, subst vlq_digits.simps) (simp add: vlq_high_def)

lemma write_vlq_step:
  "write_vlq v = (if drop_bit 7 v = 0 then [] else vlq_high (drop_bit 7 v)) @ [ucast (v AND 0x7F)]"
proof -
  have rev_index: "map (\<lambda>i. (d # ds) ! i OR (if 0 < i then 0x80 else 0)) (rev [0..<Suc (length ds)]) =
      map (\<lambda>x. x OR 0x80) (rev ds) @ [d]" for d :: u8 and ds
  proof (induction ds rule: rev_induct)
    case (snoc x ds)
    have "map (\<lambda>i. (d # ds @ [x]) ! i OR (if 0 < i then 0x80 else 0)) (rev [0..<Suc (length ds)]) =
        map (\<lambda>i. (d # ds) ! i OR (if 0 < i then 0x80 else 0)) (rev [0..<Suc (length ds)])"
      by (rule map_cong) (auto simp: nth_append nth_Cons')
    with snoc show ?case by (simp add: nth_append)
  qed simp
  show ?thesis
    unfolding write_vlq_def Let_def
    by (subst (1 2) vlq_digits.simps) (simp add: rev_index vlq_high_def del: upt_Suc)
qed

lemma bit_0x80: "bit (0x80 :: u8) n \<longleftrightarrow> n = 7"
  using bit_exp_iff [where ?'a = u8, of 7 n] by (auto simp: bit_simps)

lemma mask7: "(0x7F :: u32) = mask 7" "(0x7F :: u8) = mask 7"
  by (simp_all add: mask_eq_exp_minus_1)

lemma low7:
  "ucast ((ucast (v AND 0x7F) OR 0x80 :: u8) AND 0x7F) = v AND 0x7F"
  "ucast ((ucast (v AND 0x7F) :: u8) AND 0x7F) = v AND 0x7F" for v :: u32
  unfolding mask7 by (auto intro!: bit_word_eqI simp: bit_0x80 bit_and_iff bit_or_iff bit_ucast_iff bit_mask_iff simp del: bit_numeral_word_iff)

lemma join7: "push_bit 7 (drop_bit 7 v) OR (v AND 0x7F) = v" for v :: u32
  unfolding mask7 by (auto intro!: bit_word_eqI simp: bit_simps)

lemma high_bit:
  "((x :: u8) OR 0x80) AND 0x80 \<noteq> 0" "(ucast (v AND 0x7F) :: u8) AND 0x80 = 0" for v :: u32
proof -
  have "bit ((x OR 0x80) AND 0x80) 7" by (simp add: bit_and_iff bit_or_iff bit_0x80)
  then show "(x OR 0x80) AND 0x80 \<noteq> 0" by (metis bit_0_eq bot_apply bot_bool_def)
  show "(ucast (v AND 0x7F) :: u8) AND 0x80 = 0"
    unfolding mask7 by (auto intro!: bit_word_eqI simp: bit_0x80 bit_and_iff bit_or_iff bit_ucast_iff bit_mask_iff simp del: bit_numeral_word_iff)
qed

lemma join7_zero: "drop_bit 7 v = 0 \<Longrightarrow> v AND 0x7F = v" for v :: u32
  using join7 [of v] by simp

text \<open>The reader undoes the digits one by one.\<close>

lemma vlq_loop_high:
  "vlq_loop (length (vlq_digits v) + k) 0 (vlq_high v @ r) = vlq_loop k v r"
proof (induction v arbitrary: k r rule: vlq_digits.induct)
  case (1 v)
  show ?case
  proof (cases "drop_bit 7 v = 0")
    case True
    then show ?thesis
      by (subst vlq_high_step, subst vlq_digits.simps) (simp add: Let_def high_bit low7, simp add: join7_zero)
  next
    case False
    have "vlq_loop (length (vlq_digits v) + k) 0 (vlq_high v @ r) =
        vlq_loop (length (vlq_digits (drop_bit 7 v)) + Suc k) 0 (vlq_high (drop_bit 7 v) @ (ucast (v AND 0x7F) OR 0x80) # r)"
      using False by (subst vlq_high_step, subst (1) vlq_digits.simps) simp
    also have "\<dots> = vlq_loop (Suc k) (drop_bit 7 v) ((ucast (v AND 0x7F) OR 0x80) # r)"
      by (rule "1.IH" [OF False])
    also have "\<dots> = vlq_loop k v r"
      by (simp add: Let_def high_bit low7 join7)
    finally show ?thesis .
  qed
qed

lemma vlq_loop_write: "length (vlq_digits v) \<le> k \<Longrightarrow> vlq_loop k 0 (write_vlq v @ r) = Some (v, r)"
proof -
  assume "length (vlq_digits v) \<le> k"
  then obtain j where k: "k = length (vlq_digits v) + j" using le_Suc_ex by blast
  show ?thesis
  proof (cases "drop_bit 7 v = 0")
    case True
    then show ?thesis
      unfolding k by (subst write_vlq_step, subst vlq_digits.simps) (simp add: Let_def high_bit low7, simp add: join7_zero)
  next
    case False
    then have "vlq_loop k 0 (write_vlq v @ r) =
        vlq_loop (length (vlq_digits (drop_bit 7 v)) + Suc j) 0 (vlq_high (drop_bit 7 v) @ ucast (v AND 0x7F) # r)"
      unfolding k by (subst write_vlq_step, subst (1) vlq_digits.simps) simp
    then show ?thesis by (simp only: vlq_loop_high) (simp add: Let_def high_bit low7 join7)
  qed
qed

text \<open>Seven bits to a digit: a value below \<open>2 ^ (7 * n)\<close> has at most \<open>n\<close> of them, and only such a one.\<close>

lemma vlq_digits_length: "length (vlq_digits v) \<le> Suc n \<longleftrightarrow> unat v < 128 ^ Suc n"
proof (induction n arbitrary: v)
  case 0
  show ?case
    by (subst vlq_digits.simps) (auto simp: unat_drop7 unat_eq_0 [symmetric] vlq_digits.simps [of "drop_bit 7 v"])
next
  case (Suc n)
  show ?case
  proof (cases "drop_bit 7 v = 0")
    case True
    then have "unat v div 128 = 0" by (metis unat_0 unat_drop7)
    then have "unat v < 128 ^ 1" by simp
    also have "(128::nat) ^ 1 \<le> 128 ^ Suc (Suc n)" by (rule power_increasing) auto
    finally show ?thesis using True by (subst vlq_digits.simps) simp
  next
    case False
    then have "length (vlq_digits v) \<le> Suc (Suc n) \<longleftrightarrow> unat v div 128 < 128 ^ Suc n"
      by (subst vlq_digits.simps) (simp add: Suc unat_drop7)
    also have "\<dots> \<longleftrightarrow> unat v < 128 ^ Suc (Suc n)" by (auto simp: div_less_iff_less_mult mult.commute)
    finally show ?thesis .
  qed
qed


lemma rd_vlq_write: "unat v < 2 ^ 28 \<Longrightarrow> rd_vlq (write_vlq v @ r) = Some (v, r)"
  using vlq_digits_length [of v 3] by (simp add: rd_vlq_def vlq_loop_write)

subsection \<open>Reading what was written\<close>

text \<open>
  The files that the format can carry: a delta or a payload length has four digits, a channel
  message is a status byte with the data bytes it announces, and a track ends where its end
  marker is.
\<close>

definition status_ok :: "u8 \<Rightarrow> bool" where
  "status_ok s = (0x80 \<le> s \<and> s \<noteq> 0xF0 \<and> s \<noteq> 0xF7 \<and> s \<noteq> 0xFF)"

fun wf_kind :: "event_kind \<Rightarrow> bool" where
  "wf_kind (Midi msg) = (case msg of [] \<Rightarrow> False | s # d \<Rightarrow> status_ok s \<and> length d = channel_data_len s)"
| "wf_kind (Meta k d) = (length d < 2 ^ 28)"
| "wf_kind (Sysex d) = (length d < 2 ^ 28)"

definition wf_event :: "event \<Rightarrow> bool" where
  "wf_event e = (unat (ev_delta e) < 2 ^ 28 \<and> wf_kind (ev_kind e))"

definition close_track :: "event list \<Rightarrow> event list" where
  "close_track es = (if ends_track es then es else es @ [\<lparr>ev_delta = 0, ev_kind = end_of_track\<rparr>])"

definition wf_track :: "event list \<Rightarrow> bool" where
  "wf_track es =
     (list_all wf_event es \<and> list_all (\<lambda>e. \<not> is_end_of_track (ev_kind e)) (butlast es) \<and>
      length (write_track es) < 2 ^ 32)"

definition event_bytes :: "event \<Rightarrow> bytes" where
  "event_bytes e = write_vlq (ev_delta e) @ write_kind (ev_kind e)"

lemma rd_take_append [simp]: "rd_take (d @ r) (length d) = Some (d, r)"
  by (simp add: rd_take_def)

lemma length_of_nat: "length (d :: bytes) < 2 ^ 28 \<Longrightarrow> unat (of_nat (length d) :: u32) = length d"
  by (simp add: unat_of_nat take_bit_nat_eq_self)

lemma parse_event_bytes:
  assumes "wf_event e"
  shows "\<exists>running'. parse_event running (event_bytes e @ r) = Some (e, running', r)"
proof -
  have d: "rd_vlq (event_bytes e @ r) = Some (ev_delta e, write_kind (ev_kind e) @ r)"
    using assms by (simp add: event_bytes_def rd_vlq_write wf_event_def)
  have "\<exists>b running' r'. write_kind (ev_kind e) @ r = b # r' \<and> parse_kind running b r' = Some (ev_kind e, running', r)"
  proof (cases "ev_kind e")
    case (Midi msg)
    then obtain s dat where "msg = s # dat" "status_ok s" "length dat = channel_data_len s"
      using assms by (auto simp: wf_event_def split: list.splits)
    with Midi show ?thesis by (simp add: parse_kind_def status_ok_def flip: \<open>length dat = _\<close>)
  next
    case (Meta k dat)
    then have "length dat < 2 ^ 28" using assms by (simp add: wf_event_def)
    with Meta show ?thesis by (simp add: parse_kind_def rd_vlq_write length_of_nat)
  next
    case (Sysex dat)
    then have "length dat < 2 ^ 28" using assms by (simp add: wf_event_def)
    with Sysex show ?thesis by (simp add: parse_kind_def rd_vlq_write length_of_nat)
  qed
  with d show ?thesis by (auto simp: parse_event_def)
qed

lemma event_bytes_not_Nil [simp]: "event_bytes e \<noteq> []"
  by (simp add: event_bytes_def write_vlq_step)

lemma parse_events_bytes:
  assumes "list_all wf_event es" and "list_all (\<lambda>e. \<not> is_end_of_track (ev_kind e)) es"
    and "wf_event z" and "is_end_of_track (ev_kind z)"
  shows "parse_events running (concat (map event_bytes es) @ event_bytes z) = Some (es @ [z])"
  using assms(1,2)
proof (induction es arbitrary: running)
  case Nil
  obtain running' where "parse_event running (event_bytes z @ []) = Some (z, running', [])"
    using parse_event_bytes [OF assms(3)] by blast
  then show ?case using assms(4) by (simp add: parse_events.simps)
next
  case (Cons e es)
  then obtain running' where "parse_event running (event_bytes e @ concat (map event_bytes es) @ event_bytes z) =
      Some (e, running', concat (map event_bytes es) @ event_bytes z)"
    using parse_event_bytes [of e running] by (metis list.pred_inject(2))
  then show ?case using Cons by (subst parse_events.simps) simp
qed

lemma write_track_closed: "write_track es = concat (map event_bytes (close_track es))"
proof -
  have "write_vlq 0 = [0]" by (subst write_vlq_step) simp
  then show ?thesis
    by (simp add: write_track_def close_track_def event_bytes_def [abs_def] end_of_track_def)
qed

lemma close_track_split:
  assumes "wf_track es"
  obtains init z where "close_track es = init @ [z]" "list_all wf_event init" "wf_event z"
    "list_all (\<lambda>e. \<not> is_end_of_track (ev_kind e)) init" "is_end_of_track (ev_kind z)"
proof (cases "ends_track es")
  case True
  then obtain init z where "es = init @ [z]" by (cases es rule: rev_cases) (auto simp: ends_track_def)
  with True assms that [of init z] show ?thesis
    by (simp add: close_track_def wf_track_def ends_track_def)
next
  case False
  have "list_all (\<lambda>e. \<not> is_end_of_track (ev_kind e)) es"
    using assms False by (cases es rule: rev_cases) (auto simp: wf_track_def ends_track_def)
  with False assms that [of es "\<lparr>ev_delta = 0, ev_kind = end_of_track\<rparr>"] show ?thesis
    by (simp add: close_track_def wf_track_def wf_event_def end_of_track_def)
qed

lemma parse_write_track: "wf_track es \<Longrightarrow> parse_track (write_track es) = Some (close_track es)"
  by (erule close_track_split) (simp add: write_track_closed parse_track_def parse_events_bytes)


lemma be_u32_to_be: "be_u32 (to_be_u32 v) = v"
proof (rule bit_word_eqI)
  fix n assume "n < LENGTH(32)"
  then consider "n < 8" | "8 \<le> n" "n < 16" | "16 \<le> n" "n < 24" | "24 \<le> n" "n < 32" by fastforce
  then show "bit (be_u32 (to_be_u32 v)) n = bit v n"
    by cases (simp_all add: be_u32_def to_be_u32_def bit_simps less_diff_conv2)
qed

lemma be_u16_to_be: "be_u16 (to_be_u16 v) = v"
  by (auto intro!: bit_word_eqI simp: be_u16_def to_be_u16_def bit_simps)

lemma rd_u32_to_be [simp]: "rd_u32 (to_be_u32 v @ r) = Some (v, r)"
proof -
  have "length (to_be_u32 v) = 4" by (simp add: to_be_u32_def)
  then have "rd_take (to_be_u32 v @ r) 4 = Some (to_be_u32 v, r)" by (metis rd_take_append)
  then show ?thesis by (simp add: rd_u32_def be_u32_to_be)
qed

lemma parse_chunks_write:
  assumes "list_all wf_track ts"
  shows "parse_chunks i (concat (map write_chunk ts)) = Inr (map close_track ts)"
  using assms
proof (induction ts arbitrary: i)
  case Nil
  then show ?case by (simp add: parse_chunks.simps rd_take_def)
next
  case (Cons t ts)
  let ?rest = "concat (map write_chunk ts)" and ?n = "of_nat (length (write_track t)) :: u32"
  have t: "rd_take (mtrk @ r) 4 = Some (mtrk, r)" for r by (simp add: rd_take_def mtrk_def)
  have "unat ?n = length (write_track t)"
    using Cons.prems by (simp add: wf_track_def unat_of_nat take_bit_nat_eq_self)
  then have "rd_take (write_track t @ ?rest) (unat ?n) = Some (write_track t, ?rest)" by simp
  then show ?case
    using Cons parse_write_track [of t]
    by (subst parse_chunks.simps) (simp add: t write_chunk_def [of t] Let_def)
qed

definition close_file :: "midi_file \<Rightarrow> midi_file" where
  "close_file f = f\<lparr>tracks := map close_track (tracks f)\<rparr>"

definition wf_file :: "midi_file \<Rightarrow> bool" where
  "wf_file f = (0 < sint (ppq f) \<and> list_all wf_track (tracks f))"

lemma ppq_positive: "0 < sint (p :: u16) \<Longrightarrow> max p 1 = p"
  by (rule max_absorb1) (cases "p = 0", auto simp: word_le_nat_alt Suc_le_eq unat_gt_0)

lemma parse_write:
  assumes "wf_file f"
  shows "parse (write_file f) = Inr (close_file f)"
proof -
  let ?h = "to_be_u16 1 @ to_be_u16 (of_nat (length (tracks f))) @ to_be_u16 (ppq f)"
  let ?body = "concat (map write_chunk (tracks f))"
  have m: "rd_take (mthd @ r) 4 = Some (mthd, r)" for r by (simp add: rd_take_def mthd_def)
  have h: "rd_take (?h @ ?body) 6 = Some (?h, ?body)" "length ?h = 6" "[?h ! 4, ?h ! 5] = to_be_u16 (ppq f)"
    by (simp_all add: rd_take_def to_be_u16_def)
  have "write_file f = mthd @ to_be_u32 6 @ ?h @ ?body"
    using assms by (simp add: write_file_def wf_file_def ppq_positive)
  then show ?thesis
    using assms h by (simp add: parse_def m wf_file_def Let_def be_u16_to_be parse_chunks_write close_file_def del: append_assoc)
qed


subsection \<open>What the parser accepts\<close>

lemma vlq_bound_step:
  "drop_bit (7 * j) v = 0 \<Longrightarrow> drop_bit (7 * Suc j) (push_bit 7 v OR ucast ((b :: u8) AND 0x7F)) = 0" for v :: u32
proof (rule bit_word_eqI)
  fix n
  assume v: "drop_bit (7 * j) v = 0"
  have "\<not> bit v (7 * j + n)" using arg_cong [OF v, of "\<lambda>w. bit w n"] by (simp add: bit_simps)
  then show "bit (drop_bit (7 * Suc j) (push_bit 7 v OR ucast (b AND 0x7F))) n = bit 0 n"
    unfolding mask7 by (simp add: bit_simps)
qed

lemma vlq_loop_bound:
  "vlq_loop k v r = Some (x, r') \<Longrightarrow> drop_bit (7 * j) v = 0 \<Longrightarrow> drop_bit (7 * (j + k)) x = 0"
proof (induction k arbitrary: v r j)
  case (Suc k)
  obtain b r1 where r: "r = b # r1" using Suc.prems(1) by (cases r) auto
  let ?v = "push_bit 7 v OR ucast (b AND 0x7F)"
  have v: "drop_bit (7 * Suc j) ?v = 0" by (rule vlq_bound_step [OF Suc.prems(2)])
  show ?case
  proof (cases "b AND 0x80 = 0")
    case True
    then have "x = ?v" using Suc.prems(1) r by (simp add: Let_def)
    moreover have "drop_bit (7 * (j + Suc k)) ?v = drop_bit (7 * k) (drop_bit (7 * Suc j) ?v)"
      by (simp add: drop_bit_drop_bit algebra_simps)
    ultimately show ?thesis by (simp only: v drop_bit_of_0)
  next
    case False
    then show ?thesis using Suc.prems(1) r Suc.IH [of ?v r1 "Suc j"] v by (simp add: Let_def)
  qed
qed simp

lemma rd_vlq_bound: "rd_vlq r = Some (x, r') \<Longrightarrow> unat x < 2 ^ 28"
proof -
  assume "rd_vlq r = Some (x, r')"
  then have "drop_bit 28 x = 0" using vlq_loop_bound [of 4 0 r x r' 0] by (simp add: rd_vlq_def)
  then have "unat x div 2 ^ 28 = 0" by (metis drop_bit_eq_div unat_0 unat_drop_bit_eq)
  then show ?thesis by (simp add: div_eq_0_iff)
qed

definition running_ok :: "u8 option \<Rightarrow> bool" where
  "running_ok running = (case running of None \<Rightarrow> True | Some s \<Rightarrow> status_ok s)"

lemma channel_data_len_pos: "Suc (channel_data_len s - 1) = channel_data_len s"
  by (simp add: channel_data_len_def Let_def)

lemma parse_kind_wf:
  assumes "parse_kind running b r = Some (k, running', r')" and "running_ok running"
  shows "wf_kind k \<and> running_ok running'"
proof -
  consider "b = 0xFF" | "b = 0xF0 \<or> b = 0xF7" | "status_ok b" | "b < 0x80"
    by (cases "b < 0x80") (auto simp: status_ok_def not_less)
  then show ?thesis
  proof cases
    case 1
    then show ?thesis using assms(1)
      by (auto simp: parse_kind_def running_ok_def split: option.splits prod.splits dest!: rd_vlq_bound rd_take_shorter)
  next
    case 2
    then show ?thesis using assms(1)
      by (auto simp: parse_kind_def running_ok_def split: option.splits prod.splits dest!: rd_vlq_bound rd_take_shorter)
  next
    case 3
    then show ?thesis using assms(1)
      by (auto simp: parse_kind_def running_ok_def status_ok_def split: option.splits dest!: rd_take_shorter)
  next
    case 4
    then have "b \<noteq> 0xFF" "b \<noteq> 0xF0" "b \<noteq> 0xF7" "\<not> 0x80 \<le> b" by auto
    then show ?thesis using assms channel_data_len_pos
      by (auto simp: parse_kind_def running_ok_def split: option.splits dest!: rd_take_shorter)
  qed
qed

lemma parse_event_wf:
  "parse_event running r = Some (e, running', r') \<Longrightarrow> running_ok running \<Longrightarrow> wf_event e \<and> running_ok running'"
  unfolding parse_event_def wf_event_def
  by (auto split: option.splits prod.splits dest!: rd_vlq_bound dest: parse_kind_wf)

lemma parse_events_wf:
  "parse_events running r = Some es \<Longrightarrow> running_ok running \<Longrightarrow>
     list_all wf_event es \<and> list_all (\<lambda>e. \<not> is_end_of_track (ev_kind e)) (butlast es)"
proof (induction running r arbitrary: es rule: parse_events.induct)
  case (1 running r)
  show ?case
  proof (cases "r = []")
    case True
    then show ?thesis using "1.prems"(1) by (simp add: parse_events.simps)
  next
    case False
    then obtain e running' r' where e: "parse_event running r = Some (e, running', r')"
      using "1.prems"(1) by (subst (asm) parse_events.simps) (auto split: option.splits)
    note wf = parse_event_wf [OF e "1.prems"(2)]
    show ?thesis
    proof (cases "is_end_of_track (ev_kind e)")
      case True
      then show ?thesis using "1.prems"(1) False e wf by (subst (asm) parse_events.simps) auto
    next
      case not_end: False
      then obtain es' where "parse_events running' r' = Some es'" "es = e # es'"
        using "1.prems"(1) False e by (subst (asm) parse_events.simps) (auto split: option.splits)
      then show ?thesis using "1.IH" [OF False e refl refl not_end] wf not_end by auto
    qed
  qed
qed

lemma parse_chunks_wf:
  "parse_chunks i r = Inr ts \<Longrightarrow>
     list_all (\<lambda>t. list_all wf_event t \<and> list_all (\<lambda>e. \<not> is_end_of_track (ev_kind e)) (butlast t)) ts"
proof (induction i r arbitrary: ts rule: parse_chunks.induct)
  case (1 i r)
  have step: "parse_track body = Some t \<Longrightarrow>
      list_all wf_event t \<and> list_all (\<lambda>e. \<not> is_end_of_track (ev_kind e)) (butlast t)" for body t
    using parse_events_wf by (simp add: parse_track_def running_ok_def)
  show ?case
    using "1.prems" "1.IH" step by (subst (asm) parse_chunks.simps) (auto split: option.splits if_splits sum.splits)
qed


lemma parse_wf:
  assumes "parse bs = Inr f" and "list_all (\<lambda>t. length (write_track t) < 2 ^ 32) (tracks f)"
  shows "wf_file f"
proof -
  have "0 < sint (ppq f) \<and> (\<exists>r. parse_chunks 0 r = Inr (tracks f))"
    using assms(1) by (auto simp: parse_def Let_def split: option.splits if_splits sum.splits) blast
  then show ?thesis
    using parse_chunks_wf assms(2) by (fastforce simp: wf_file_def wf_track_def list_all_iff)
qed

lemma close_track_idem [simp]: "close_track (close_track es) = close_track es"
  by (simp add: close_track_def ends_track_def end_of_track_def)

lemma wf_close_track: "wf_track es \<Longrightarrow> wf_track (close_track es)"
proof -
  assume wf: "wf_track es"
  have "write_track (close_track es) = write_track es" by (simp add: write_track_closed)
  then show ?thesis using wf by (rule_tac close_track_split [OF wf]) (simp add: wf_track_def)
qed

lemma wf_close_file: "wf_file f \<Longrightarrow> wf_file (close_file f)"
  by (simp add: wf_file_def close_file_def list_all_iff wf_close_track)

lemma close_file_idem [simp]: "close_file (close_file f) = close_file f"
  by (simp add: close_file_def comp_def)

lemma vlq_loop_continued:
  "\<forall>b\<in>set bs. b AND 0x80 \<noteq> 0 \<Longrightarrow> k \<le> length bs \<Longrightarrow> vlq_loop k v (bs @ r) = None"
proof (induction bs arbitrary: k v)
  case (Cons b bs)
  then show ?case by (cases k) (auto simp: Let_def)
qed simp

lemma vlq_loop_too_long: "k < length (vlq_digits v) \<Longrightarrow> vlq_loop k 0 (write_vlq v @ r) = None"
proof (cases "drop_bit 7 v = 0")
  case True
  assume "k < length (vlq_digits v)"
  then show ?thesis using True by (subst (asm) vlq_digits.simps) simp
next
  case False
  assume "k < length (vlq_digits v)"
  then have "k \<le> length (vlq_high (drop_bit 7 v))"
    using False by (subst (asm) vlq_digits.simps) (simp add: vlq_high_def)
  moreover have "\<forall>b\<in>set (vlq_high (drop_bit 7 v)). b AND 0x80 \<noteq> 0"
    by (auto simp: vlq_high_def high_bit)
  ultimately show ?thesis using False vlq_loop_continued by (subst write_vlq_step) simp
qed

subsection \<open>Properties\<close>

text \<open>
  Reading a file that was written gives the file back, with an end-of-track marker
  appended to the tracks that lacked one: for every file whose time base is positive as a
  signed number, whose deltas and payload lengths are below \<open>2 ^ 28\<close>, whose channel messages
  have the data bytes that their status announces, whose tracks have no end marker but at their
  end and take less than 4 GiB.
\<close>

theorem midi_write_parse:
  assumes "wf_file f"
  shows "parse (write_file f) = Inr (close_file f)"
  by (rule parse_write [OF assms])

lemmas write_vlq_bytes = write_vlq_def vlq_digits.simps

definition two_notes :: midi_file where
  "two_notes = \<lparr>ppq = 96, tracks = [[\<lparr>ev_delta = 0, ev_kind = Midi [0x90, 60, 100]\<rparr>,
     \<lparr>ev_delta = 100000, ev_kind = Midi [0x80, 60, 0]\<rparr>]]\<rparr>"

theorem midi_write_parse_witness:
  "wf_file two_notes \<and> parse (write_file two_notes) = Inr (close_file two_notes)"
proof -
  have "wf_file two_notes"
    by (simp add: two_notes_def wf_file_def wf_track_def wf_event_def status_ok_def write_vlq_bytes
        channel_data_len_def write_track_def ends_track_def)
  then show ?thesis using midi_write_parse [of two_notes] by simp
qed

text \<open>
  C18: A file read and written again comes back the same, whatever its bytes were (running
  status, a foreign chunk, a longer header, a long-form length): the second reading gives the
  first one with its tracks closed, and from then on reading and writing change nothing.
\<close>

theorem midi_reread:
  assumes "parse bs = Inr f" and "list_all (\<lambda>t. length (write_track t) < 2 ^ 32) (tracks f)"
  shows "parse (write_file f) = Inr (close_file f) \<and> parse (write_file (close_file f)) = Inr (close_file f)"
  using parse_write [OF parse_wf [OF assms]] parse_write [OF wf_close_file [OF parse_wf [OF assms]]] by simp

text \<open>Two notes that share one status byte, as most sequencers write them.\<close>

definition running_bytes :: bytes where
  "running_bytes = mthd @ [0, 0, 0, 6, 0, 1, 0, 1, 0, 96] @ mtrk @ [0, 0, 0, 11] @
     [0, 0x90, 60, 100, 24, 64, 100, 0, 0xFF, 0x2F, 0]"

theorem midi_reread_witness:
  "\<exists>f. parse running_bytes = Inr f \<and> parse (write_file f) = Inr (close_file f)"
proof -
  let ?f = "\<lparr>ppq = 96, tracks = [[\<lparr>ev_delta = 0, ev_kind = Midi [0x90, 60, 100]\<rparr>,
    \<lparr>ev_delta = 24, ev_kind = Midi [0x90, 64, 100]\<rparr>, \<lparr>ev_delta = 0, ev_kind = end_of_track\<rparr>]]\<rparr>"
  have "parse running_bytes = Inr ?f"
    by code_simp
  moreover have "list_all (\<lambda>t. length (write_track t) < 2 ^ 32) (tracks ?f)"
    by (simp add: write_vlq_bytes write_track_def ends_track_def end_of_track_def)
  ultimately show ?thesis using midi_reread [of running_bytes ?f] by blast
qed

text \<open>
  A variable-length quantity carries 28 bits: what \<open>write_vlq\<close> writes fits its
  five-byte buffer, and is read back as the value exactly when that is below \<open>2 ^ 28\<close>; a larger
  \<open>u32\<close> is written as five bytes, which the reader refuses.
\<close>

theorem vlq_carries_28_bits:
  "length (vlq_digits v) \<le> 5 \<and>
   rd_vlq (write_vlq v @ r) = (if unat v < 2 ^ 28 then Some (v, r) else None)"
proof
  have "unat v < 2 ^ LENGTH(32)" by (rule unsigned_less)
  then have "unat v < 128 ^ Suc 4" by simp
  then show "length (vlq_digits v) \<le> 5" using vlq_digits_length [of v 4] by simp
  show "rd_vlq (write_vlq v @ r) = (if unat v < 2 ^ 28 then Some (v, r) else None)"
    using vlq_digits_length [of v 3] vlq_loop_too_long [of 4 v r]
    by (auto simp: rd_vlq_write) (simp add: rd_vlq_def)
qed

end
