(* ===== verification/Song.thy ===== *)
theory Song
  imports Prelude Complex_Main "HOL-Library.Log_Nat"
begin

text \<open>
  The music a step sequencer holds (\<open>crates/wk-sequence/src/lib.rs\<close>): notes, tracks, patterns and
  the song with its chain, the operations that edit them, and the list of \<open>f32\<close> values the host
  persists. An \<open>i32\<close> is an \<open>int\<close> and a \<open>usize\<close> a \<open>nat\<close>: the invariant \<open>song_ok\<close> keeps every
  number of a song between 0 and 127, so that no addition of the source comes near the ends of
  its type. \<open>clamp\<close> is only ever called with its bounds in order where the invariant holds
  (\<open>add_note_bounds\<close>).
\<close>

subsection \<open>Floating point numbers that are stored\<close>

text \<open>
  An \<open>f32\<close> by its value: what the source does with one is to compare it, to clamp it, to make it
  from an integer (rounding to 24 significant bits, ties to even) and to cast it to one
  (truncating, saturating, \<open>NaN\<close> to 0). The two zeros compare equal and are one value.
\<close>

datatype f32 = NaN | Infinity bool | Finite rat

definition f32_round :: "int \<Rightarrow> int" where
  "f32_round n =
     (if \<bar>n\<bar> \<le> 2 ^ 24 then n
      else
        (let s = 2 ^ (floorlog 2 (nat \<bar>n\<bar>) - 24); q = \<bar>n\<bar> div s; r = \<bar>n\<bar> mod s
         in sgn n * s * (if s < 2 * r \<or> (2 * r = s \<and> odd q) then q + 1 else q)))"

definition f32_of :: "int \<Rightarrow> f32" where
  "f32_of n = Finite (of_int (f32_round n))"

definition rat_trunc :: "rat \<Rightarrow> int" where
  "rat_trunc q = (if 0 \<le> q then \<lfloor>q\<rfloor> else \<lceil>q\<rceil>)"

fun f32_cast :: "int \<Rightarrow> int \<Rightarrow> f32 \<Rightarrow> int" where
  "f32_cast lo hi NaN = 0"
| "f32_cast lo hi (Infinity neg) = (if neg then lo else hi)"
| "f32_cast lo hi (Finite q) = max lo (min hi (rat_trunc q))"

definition as_i32 :: "f32 \<Rightarrow> int" where
  "as_i32 = f32_cast (- (2 ^ 31)) (2 ^ 31 - 1)"

definition as_usize :: "f32 \<Rightarrow> nat" where
  "as_usize x = nat (f32_cast 0 (2 ^ 64 - 1) x)"

definition as_u8 :: "f32 \<Rightarrow> u8" where
  "as_u8 x = of_int (f32_cast 0 255 x)"

fun f32_ge :: "f32 \<Rightarrow> rat \<Rightarrow> bool" where
  "f32_ge NaN b = False"
| "f32_ge (Infinity neg) b = (\<not> neg)"
| "f32_ge (Finite q) b = (b \<le> q)"

fun f32_clamp :: "rat \<Rightarrow> rat \<Rightarrow> f32 \<Rightarrow> f32" where
  "f32_clamp lo hi NaN = NaN"
| "f32_clamp lo hi (Infinity neg) = Finite (if neg then lo else hi)"
| "f32_clamp lo hi (Finite q) = Finite (max lo (min hi q))"

definition clamp :: "int \<Rightarrow> int \<Rightarrow> int \<Rightarrow> int" where
  "clamp lo hi x = max lo (min hi x)"

subsection \<open>Limits\<close>

definition max_tracks :: nat where "max_tracks = 8"

definition max_patterns :: nat where "max_patterns = 16"

definition max_chain :: nat where "max_chain = 64"

definition min_steps :: int where "min_steps = 1"

definition max_steps :: int where "max_steps = 64"

definition min_bpm :: rat where "min_bpm = 20"

definition max_bpm :: rat where "max_bpm = 300"

lemmas limits = max_tracks_def max_patterns_def max_chain_def min_steps_def max_steps_def min_bpm_def max_bpm_def

subsection \<open>Notes, tracks and patterns\<close>

record song_note =
  nt_step :: int
  nt_pitch :: int
  nt_len :: int
  nt_vel :: u8

definition covers :: "song_note \<Rightarrow> int \<Rightarrow> int \<Rightarrow> bool" where
  "covers n p steps = (nt_step n \<le> p \<and> p < min (nt_step n + nt_len n) steps)"

definition note_end :: "song_note \<Rightarrow> int \<Rightarrow> int" where
  "note_end n steps = min (nt_step n + nt_len n) steps"

record track =
  tr_channel :: u8
  tr_muted :: bool

definition track_new :: "u8 \<Rightarrow> track" where
  "track_new channel = \<lparr>tr_channel = min channel 15, tr_muted = False\<rparr>"

record pattern =
  pt_steps :: int
  pt_notes :: "song_note list list"

definition pattern_empty :: "int \<Rightarrow> pattern" where
  "pattern_empty steps = \<lparr>pt_steps = clamp min_steps max_steps steps, pt_notes = replicate max_tracks []\<rparr>"

definition pattern_track :: "pattern \<Rightarrow> nat \<Rightarrow> song_note list" where
  "pattern_track p t = (case list_get (pt_notes p) t of None \<Rightarrow> [] | Some ns \<Rightarrow> ns)"

definition note_at :: "pattern \<Rightarrow> nat \<Rightarrow> int \<Rightarrow> int \<Rightarrow> nat option" where
  "note_at p t step pitch =
     (case list_get (pt_notes p) t of
        None \<Rightarrow> None
      | Some ns \<Rightarrow> List.find (\<lambda>i. nt_pitch (ns ! i) = pitch \<and> covers (ns ! i) step (pt_steps p)) (rev [0..<length ns]))"

definition clamp_note :: "int \<Rightarrow> song_note \<Rightarrow> song_note" where
  "clamp_note steps n =
     (let step = clamp 0 (steps - 1) (nt_step n)
      in \<lparr>nt_step = step, nt_pitch = clamp 0 127 (nt_pitch n),
          nt_len = clamp 1 (max (steps - step) 1) (nt_len n), nt_vel = max (nt_vel n) 1\<rparr>)"

definition add_note :: "pattern \<Rightarrow> nat \<Rightarrow> song_note \<Rightarrow> pattern \<times> nat option" where
  "add_note p t n =
     (case list_get (pt_notes p) t of
        None \<Rightarrow> (p, None)
      | Some ns \<Rightarrow> (p\<lparr>pt_notes := (pt_notes p)[t := ns @ [clamp_note (pt_steps p) n]]\<rparr>, Some (length ns)))"

subsection \<open>Songs\<close>

record song =
  sg_bpm :: f32
  sg_tracks :: "track list"
  sg_patterns :: "pattern list"
  sg_chain :: "nat list"

definition song_new :: song where
  "song_new =
     \<lparr>sg_bpm = Finite 120, sg_tracks = map (\<lambda>i. track_new (of_nat i)) [0..<max_tracks],
      sg_patterns = [pattern_empty 16], sg_chain = []\<rparr>"

definition song_set_bpm :: "song \<Rightarrow> f32 \<Rightarrow> song" where
  "song_set_bpm s bpm = s\<lparr>sg_bpm := f32_clamp min_bpm max_bpm bpm\<rparr>"

definition add_pattern :: "song \<Rightarrow> nat \<Rightarrow> song \<times> nat option" where
  "add_pattern s like =
     (if max_patterns \<le> length (sg_patterns s) then (s, None)
      else
        (let steps = (case list_get (sg_patterns s) like of None \<Rightarrow> 16 | Some p \<Rightarrow> pt_steps p)
         in (s\<lparr>sg_patterns := sg_patterns s @ [pattern_empty steps]\<rparr>, Some (length (sg_patterns s)))))"

definition clone_pattern :: "song \<Rightarrow> nat \<Rightarrow> song \<times> nat option" where
  "clone_pattern s index =
     (if max_patterns \<le> length (sg_patterns s) then (s, None)
      else
        (case list_get (sg_patterns s) index of
           None \<Rightarrow> (s, None)
         | Some p \<Rightarrow> (s\<lparr>sg_patterns := sg_patterns s @ [p]\<rparr>, Some (length (sg_patterns s)))))"

definition song_channel :: "song \<Rightarrow> nat \<Rightarrow> u8" where
  "song_channel s t = (case list_get (sg_tracks s) t of None \<Rightarrow> 0 | Some tr \<Rightarrow> tr_channel tr)"

definition song_muted :: "song \<Rightarrow> nat \<Rightarrow> bool" where
  "song_muted s t = (case list_get (sg_tracks s) t of None \<Rightarrow> False | Some tr \<Rightarrow> tr_muted tr)"

subsection \<open>Restoring\<close>

text \<open>\<open>chunks_exact\<close>: the whole chunks, a shorter rest dropped.\<close>

definition chunks_exact :: "nat \<Rightarrow> 'a list \<Rightarrow> 'a list list" where
  "chunks_exact k xs = map (\<lambda>i. take k (drop (i * k) xs)) [0..<length xs div k]"

definition saved_vel :: "f32 \<Rightarrow> u8" where
  "saved_vel x = of_int (clamp 1 127 (as_i32 x))"

definition from_flat_notes :: "f32 \<Rightarrow> int \<Rightarrow> f32 list \<Rightarrow> nat \<Rightarrow> song" where
  "from_flat_notes bpm steps body stride =
     (let s = song_set_bpm song_new bpm;
          p = (hd (sg_patterns s))\<lparr>pt_steps := clamp min_steps max_steps steps\<rparr>;
          p' = fold (\<lambda>t q.
                 fst (add_note q 0
                   \<lparr>nt_step = as_i32 (t ! 0), nt_pitch = as_i32 (t ! 1), nt_len = as_i32 (t ! 2),
                    nt_vel = (if stride = 4 then saved_vel (t ! 3) else 100)\<rparr>)) (chunks_exact stride body) p
      in s\<lparr>sg_patterns := [p']\<rparr>)"

text \<open>The loops of \<open>from_options_v2\<close>; \<open>None\<close> when the values run out.\<close>

fun read_tracks :: "nat \<Rightarrow> nat \<Rightarrow> track list \<Rightarrow> f32 list \<Rightarrow> (track list \<times> f32 list) option" where
  "read_tracks i 0 ts r = Some (ts, r)"
| "read_tracks i (Suc n) ts (channel # muted # r) =
     read_tracks (i + 1) n (ts[i := \<lparr>tr_channel = min (as_u8 channel) 15, tr_muted = (muted \<noteq> Finite 0)\<rparr>]) r"
| "read_tracks i (Suc n) ts r = None"

fun read_notes :: "nat \<Rightarrow> pattern \<Rightarrow> f32 list \<Rightarrow> (pattern \<times> f32 list) option" where
  "read_notes 0 p r = Some (p, r)"
| "read_notes (Suc n) p (t # step # pitch # len # vel # r) =
     read_notes n
       (fst (add_note p (min (as_usize t) (max_tracks - 1))
          \<lparr>nt_step = as_i32 step, nt_pitch = as_i32 pitch, nt_len = as_i32 len, nt_vel = saved_vel vel\<rparr>)) r"
| "read_notes (Suc n) p r = None"

fun read_patterns :: "nat \<Rightarrow> f32 list \<Rightarrow> (pattern list \<times> f32 list) option" where
  "read_patterns 0 r = Some ([], r)"
| "read_patterns (Suc n) (steps # count # r) =
     (case read_notes (as_usize count) (pattern_empty (clamp min_steps max_steps (as_i32 steps))) r of
        None \<Rightarrow> None
      | Some (p, r') \<Rightarrow>
          (case read_patterns n r' of None \<Rightarrow> None | Some (ps, r'') \<Rightarrow> Some (p # ps, r'')))"
| "read_patterns (Suc n) r = None"

fun from_options_v2 :: "f32 list \<Rightarrow> song option" where
  "from_options_v2 (bpm # tracks # patterns # chain # r) =
     (let n_tracks = min (as_usize tracks) max_tracks;
          n_patterns = min (as_usize patterns) max_patterns;
          n_chain = min (as_usize chain) max_chain;
          s = song_set_bpm song_new bpm
      in
      (case read_tracks 0 n_tracks (sg_tracks s) r of
         None \<Rightarrow> None
       | Some (ts, r1) \<Rightarrow>
           (let ch = map as_usize (take n_chain r1)
            in
            (case read_patterns (max n_patterns 1) (drop n_chain r1) of
               None \<Rightarrow> None
             | Some (ps, r2) \<Rightarrow>
                 (let ps' = (if ps = [] then [pattern_empty 16] else ps)
                  in Some (s\<lparr>sg_tracks := ts, sg_patterns := ps', sg_chain := filter (\<lambda>i. i < length ps') ch\<rparr>))))))"
| "from_options_v2 r = None"

definition from_options :: "f32 list \<Rightarrow> song" where
  "from_options vals =
     (case vals of
        tag # version # rest \<Rightarrow>
          if tag = Finite (- 1) \<and> f32_ge version 2 then
            (case from_options_v2 rest of None \<Rightarrow> song_new | Some s \<Rightarrow> s)
          else
            (case rest of
               bpm # steps # body \<Rightarrow>
                 if tag = Finite (- 1) \<and> f32_ge version 1 then from_flat_notes bpm (as_i32 steps) body 4
                 else from_flat_notes (Finite 120) 16 vals 3
             | _ \<Rightarrow> from_flat_notes (Finite 120) 16 vals 3)
      | _ \<Rightarrow> from_flat_notes (Finite 120) 16 vals 3)"

subsection \<open>Saving\<close>

definition save_note :: "nat \<Rightarrow> song_note \<Rightarrow> f32 list" where
  "save_note t n =
     [f32_of (int t), f32_of (nt_step n), f32_of (nt_pitch n), f32_of (nt_len n), f32_of (uint (nt_vel n))]"

definition save_pattern :: "pattern \<Rightarrow> f32 list" where
  "save_pattern p =
     f32_of (pt_steps p) # f32_of (int (sum_list (map length (pt_notes p)))) #
     concat (map (\<lambda>(t, ns). concat (map (save_note t) ns)) (enumerate 0 (pt_notes p)))"

definition save_track :: "track \<Rightarrow> f32 list" where
  "save_track t = [f32_of (uint (tr_channel t)), Finite (if tr_muted t then 1 else 0)]"

definition to_options :: "song \<Rightarrow> f32 list" where
  "to_options s =
     [Finite (- 1), Finite 2, sg_bpm s, f32_of (int (length (sg_tracks s))),
      f32_of (int (length (sg_patterns s))), f32_of (int (length (sg_chain s)))] @
     concat (map save_track (sg_tracks s)) @
     map (\<lambda>i. f32_of (int i)) (sg_chain s) @
     concat (map save_pattern (sg_patterns s))"


subsection \<open>The invariant\<close>

definition note_ok :: "int \<Rightarrow> song_note \<Rightarrow> bool" where
  "note_ok steps n =
     (0 \<le> nt_step n \<and> 1 \<le> nt_len n \<and> nt_step n + nt_len n \<le> steps \<and> 0 \<le> nt_pitch n \<and> nt_pitch n \<le> 127 \<and>
      1 \<le> nt_vel n)"

definition pattern_ok :: "pattern \<Rightarrow> bool" where
  "pattern_ok p =
     (min_steps \<le> pt_steps p \<and> pt_steps p \<le> max_steps \<and> length (pt_notes p) = max_tracks \<and>
      list_all (list_all (note_ok (pt_steps p))) (pt_notes p))"

definition bpm_ok :: "f32 \<Rightarrow> bool" where
  "bpm_ok b = (case b of NaN \<Rightarrow> True | Infinity _ \<Rightarrow> False | Finite q \<Rightarrow> min_bpm \<le> q \<and> q \<le> max_bpm)"

definition song_ok :: "song \<Rightarrow> bool" where
  "song_ok s =
     (bpm_ok (sg_bpm s) \<and> length (sg_tracks s) = max_tracks \<and> list_all (\<lambda>t. tr_channel t \<le> 15) (sg_tracks s) \<and>
      sg_patterns s \<noteq> [] \<and> length (sg_patterns s) \<le> max_patterns \<and> list_all pattern_ok (sg_patterns s) \<and>
      length (sg_chain s) \<le> max_chain \<and> list_all (\<lambda>i. i < length (sg_patterns s)) (sg_chain s))"

lemma clamp_note_ok: "1 \<le> steps \<Longrightarrow> note_ok steps (clamp_note steps n)"
  by (auto simp: note_ok_def clamp_note_def clamp_def Let_def)

text \<open>Every call of \<open>clamp\<close> in \<open>add_note\<close> has its bounds in order.\<close>

lemma add_note_bounds:
  assumes "pattern_ok p"
  shows "0 \<le> pt_steps p - 1" "1 \<le> max (pt_steps p - clamp 0 (pt_steps p - 1) x) 1"
  using assms by (auto simp: pattern_ok_def min_steps_def)

lemma list_all_update: "list_all P xs \<Longrightarrow> P x \<Longrightarrow> list_all P (xs[i := x])"
  using set_update_subset_insert [of xs i x] by (auto simp: list_all_iff)

lemma add_note_ok: "pattern_ok p \<Longrightarrow> pattern_ok (fst (add_note p t n))"
  using clamp_note_ok [of "pt_steps p" n]
  by (auto simp: add_note_def list_get_def pattern_ok_def min_steps_def list_all_length [of "list_all _"]
      nth_list_update split: option.splits)

lemma pattern_empty_ok [simp]: "pattern_ok (pattern_empty steps)"
  by (auto simp: pattern_ok_def pattern_empty_def clamp_def limits list_all_iff)

lemma bpm_clamp_ok [simp]: "bpm_ok (f32_clamp min_bpm max_bpm b)"
  by (cases b) (auto simp: bpm_ok_def limits)

lemma song_new_ok [simp]: "song_ok song_new"
  by (auto simp: song_ok_def song_new_def bpm_ok_def limits track_new_def list_all_iff)

lemma fold_add_ok: "pattern_ok p \<Longrightarrow> pattern_ok (fold (\<lambda>t q. fst (add_note q 0 (f t))) ts p)"
  by (induction ts arbitrary: p) (auto simp: add_note_ok)

lemma from_flat_notes_ok: "song_ok (from_flat_notes bpm steps body stride)"
proof -
  have "pattern_ok ((hd (sg_patterns song_new))\<lparr>pt_steps := clamp min_steps max_steps steps\<rparr>)"
    by (auto simp: song_new_def pattern_empty_def pattern_ok_def clamp_def limits list_all_iff)
  note fold_add_ok [OF this]
  then show ?thesis
    using song_new_ok by (simp add: from_flat_notes_def song_set_bpm_def Let_def song_ok_def)
      (simp add: limits song_new_def)
qed

lemma read_tracks_ok:
  "read_tracks i n ts r = Some (ts', r') \<Longrightarrow> list_all (\<lambda>t. tr_channel t \<le> 15) ts \<Longrightarrow>
     length ts' = length ts \<and> list_all (\<lambda>t. tr_channel t \<le> 15) ts'"
  by (induction i n ts r rule: read_tracks.induct) (simp_all add: list_all_update)

lemma read_notes_ok: "read_notes n p r = Some (p', r') \<Longrightarrow> pattern_ok p \<Longrightarrow> pattern_ok p'"
  by (induction n p r rule: read_notes.induct) (auto simp: add_note_ok)

lemma read_patterns_ok: "read_patterns n r = Some (ps, r') \<Longrightarrow> list_all pattern_ok ps \<and> length ps = n"
  by (induction n r arbitrary: ps rule: read_patterns.induct)
    (auto split: option.splits dest!: read_notes_ok)

lemma from_options_v2_ok:
  assumes "from_options_v2 r = Some s"
  shows "song_ok s"
proof -
  obtain bpm tracks patterns chain r0 where r: "r = bpm # tracks # patterns # chain # r0"
    using assms by (cases r rule: from_options_v2.cases) auto
  obtain ts r1 where ts: "read_tracks 0 (min (as_usize tracks) max_tracks) (sg_tracks song_new) r0 = Some (ts, r1)"
    using assms by (auto simp: r Let_def song_set_bpm_def split: option.splits)
  obtain ps r2 where
    ps: "read_patterns (max (min (as_usize patterns) max_patterns) 1) (drop (min (as_usize chain) max_chain) r1) = Some (ps, r2)"
    using assms ts by (auto simp: r Let_def song_set_bpm_def split: option.splits)
  let ?ch = "filter (\<lambda>i. i < length ps) (map as_usize (take (min (as_usize chain) max_chain) r1))"
  note P = read_patterns_ok [OF ps]
  have "ps \<noteq> []" using P by auto
  then have s: "s = (song_set_bpm song_new bpm)\<lparr>sg_tracks := ts, sg_patterns := ps, sg_chain := ?ch\<rparr>"
    using assms ts ps by (simp add: r Let_def song_set_bpm_def)
  have "length ?ch \<le> max_chain" by (rule le_trans [OF length_filter_le]) simp
  moreover have "list_all (\<lambda>t. tr_channel t \<le> 15) (sg_tracks song_new)" "length (sg_tracks song_new) = max_tracks"
    using song_new_ok by (simp_all add: song_ok_def)
  moreover note read_tracks_ok [OF ts] P \<open>ps \<noteq> []\<close>
  moreover have "max_patterns \<noteq> 0" by (simp add: limits)
  ultimately show ?thesis by (auto simp: s song_ok_def song_set_bpm_def list_all_iff)
qed

lemma add_pattern_ok: "song_ok s \<Longrightarrow> song_ok (fst (add_pattern s like))"
  by (auto simp: add_pattern_def song_ok_def Let_def list_all_iff)

lemma clone_pattern_ok: "song_ok s \<Longrightarrow> song_ok (fst (clone_pattern s index))"
  by (auto simp: clone_pattern_def song_ok_def list_all_iff list_get_def)


subsection \<open>What was saved is restored\<close>

lemma f32_cast_of: "\<bar>n\<bar> \<le> 2 ^ 24 \<Longrightarrow> f32_cast lo hi (f32_of n) = max lo (min hi n)"
  by (simp add: f32_of_def f32_round_def rat_trunc_def)

lemma as_usize_f32_of: "n \<le> 2 ^ 24 \<Longrightarrow> as_usize (f32_of (int n)) = n"
  by (simp add: as_usize_def f32_cast_of)

lemma as_i32_f32_of: "\<bar>n\<bar> \<le> 2 ^ 24 \<Longrightarrow> as_i32 (f32_of n) = n"
  by (simp add: as_i32_def f32_cast_of)

lemma as_u8_f32_of: "as_u8 (f32_of (uint w)) = w" for w :: u8
proof -
  have "0 \<le> uint w" "uint w \<le> 255" using uint_bounded [of w] by auto
  then show ?thesis by (simp add: as_u8_def f32_cast_of)
qed

lemma read_saved_tracks:
  "i + length us \<le> length ts \<Longrightarrow> list_all (\<lambda>t. tr_channel t \<le> 15) us \<Longrightarrow>
     read_tracks i (length us) ts (concat (map save_track us) @ r) = Some (take i ts @ us @ drop (i + length us) ts, r)"
proof (induction us arbitrary: i ts)
  case (Cons u us)
  obtain c m where u: "u = \<lparr>tr_channel = c, tr_muted = m\<rparr>" by (cases u)
  have "take (Suc i) (ts[i := u]) = take i ts @ [u]"
    using Cons.prems by (simp add: take_Suc_conv_app_nth)
  with Cons show ?case
    by (cases m) (simp_all add: u save_track_def [of "\<lparr>tr_channel = c, tr_muted = _\<rparr>"] as_u8_f32_of min_absorb1)
qed simp

definition vel_ok :: "song_note \<Rightarrow> bool" where
  "vel_ok n = (nt_vel n \<le> 127)"

lemma saved_vel_f32_of: "1 \<le> v \<Longrightarrow> v \<le> 127 \<Longrightarrow> saved_vel (f32_of (uint v)) = v" for v :: u8
proof -
  assume v: "1 \<le> v" "v \<le> 127"
  then have "1 \<le> uint v" "uint v \<le> 127" by (simp_all add: word_le_def)
  then show ?thesis by (simp add: saved_vel_def as_i32_f32_of clamp_def)
qed

lemma clamp_note_id: "note_ok steps n \<Longrightarrow> clamp_note steps n = n"
  by (cases n) (auto simp: note_ok_def clamp_note_def clamp_def Let_def max_def)

text \<open>Reading the values of a list of notes, each with its track, adds them one by one.\<close>

definition add_pair :: "nat \<times> song_note \<Rightarrow> pattern \<Rightarrow> pattern" where
  "add_pair = (\<lambda>(t, n) p. fst (add_note p t n))"

lemma read_saved_notes:
  assumes "\<forall>(t, n) \<in> set ps. t < max_tracks \<and> note_ok steps n \<and> vel_ok n" and "steps \<le> max_steps"
  shows "read_notes (length ps) p (concat (map (\<lambda>(t, n). save_note t n) ps) @ r) = Some (fold add_pair ps p, r)"
  using assms(1)
proof (induction ps arbitrary: p)
  case (Cons q ps)
  obtain t n where q: "q = (t, n)" by (cases q)
  have n: "t < 8" "note_ok steps n" "vel_ok n" using Cons.prems q by (auto simp: max_tracks_def)
  have "\<lparr>nt_step = as_i32 (f32_of (nt_step n)), nt_pitch = as_i32 (f32_of (nt_pitch n)),
      nt_len = as_i32 (f32_of (nt_len n)), nt_vel = saved_vel (f32_of (uint (nt_vel n)))\<rparr> = n"
    using n(2,3) assms(2) by (cases n) (auto simp: note_ok_def vel_ok_def max_steps_def as_i32_f32_of saved_vel_f32_of)
  moreover have "min (as_usize (f32_of (int t))) (max_tracks - 1) = t"
    using n(1) as_usize_f32_of [of t] by (simp add: max_tracks_def)
  ultimately show ?case
    using Cons by (simp add: q save_note_def [of t n] add_pair_def)
qed simp

lemma fold_add_pair_track:
  assumes "t < length (pt_notes p)" and "list_all (note_ok (pt_steps p)) ns"
  shows "fold add_pair (map (Pair t) ns) p = p\<lparr>pt_notes := (pt_notes p)[t := pt_notes p ! t @ ns]\<rparr>"
  using assms
proof (induction ns arbitrary: p)
  case (Cons n ns)
  then show ?case by (simp add: add_pair_def add_note_def list_get_def clamp_note_id)
qed simp

definition track_pairs :: "song_note list list \<Rightarrow> (nat \<times> song_note) list" where
  "track_pairs nss = concat (map (\<lambda>(t, ns). map (Pair t) ns) (enumerate 0 nss))"

lemma track_pairs_snoc: "track_pairs (nss @ [ns]) = track_pairs nss @ map (Pair (length nss)) ns"
  by (simp add: track_pairs_def enumerate_append_eq)

lemma fold_track_pairs:
  "length nss \<le> k \<Longrightarrow> list_all (list_all (note_ok steps)) nss \<Longrightarrow>
     fold add_pair (track_pairs nss) \<lparr>pt_steps = steps, pt_notes = replicate k []\<rparr> =
       \<lparr>pt_steps = steps, pt_notes = nss @ replicate (k - length nss) []\<rparr>"
proof (induction nss rule: rev_induct)
  case (snoc ns nss)
  have "replicate (k - length nss) [] = [] # replicate (k - Suc (length nss)) ([] :: song_note list)"
    using snoc.prems(1) by (metis Suc_diff_Suc Suc_le_lessD length_append_singleton replicate_Suc)
  with snoc show ?case
    by (simp add: track_pairs_snoc fold_add_pair_track list_update_append)
qed (simp add: track_pairs_def)


definition saveable :: "song \<Rightarrow> bool" where
  "saveable s =
     (song_ok s \<and> sg_bpm s \<noteq> NaN \<and>
      list_all (\<lambda>p. list_all (list_all vel_ok) (pt_notes p) \<and> sum_list (map length (pt_notes p)) \<le> 2 ^ 24) (sg_patterns s))"

lemma enumerate_Suc_pairs: "enumerate (Suc k) xs = map (\<lambda>(i, x). (Suc i, x)) (enumerate k xs)"
  by (induction xs arbitrary: k) auto

lemma save_pattern_pairs:
  "save_pattern p = f32_of (pt_steps p) # f32_of (int (length (track_pairs (pt_notes p)))) #
     concat (map (\<lambda>(t, n). save_note t n) (track_pairs (pt_notes p)))"
proof -
  have "length (concat (map (\<lambda>(t, ns). map (Pair t) ns) (enumerate k nss))) = sum_list (map length nss)" for k and nss :: "song_note list list"
    by (induction nss arbitrary: k) auto
  moreover have "concat (map (\<lambda>(t, ns). concat (map (save_note t) ns)) (enumerate k nss)) =
      concat (map (\<lambda>(t, n). save_note t n) (concat (map (\<lambda>(t, ns). map (Pair t) ns) (enumerate k nss))))" for k and nss
    by (induction nss arbitrary: k) (auto simp: comp_def)
  ultimately show ?thesis by (simp add: save_pattern_def track_pairs_def)
qed

lemma track_pairs_ok:
  assumes "list_all (list_all P) nss" and "(t, n) \<in> set (track_pairs nss)"
  shows "t < length nss \<and> P n"
  using assms by (induction nss rule: rev_induct) (auto simp: track_pairs_snoc list_all_iff, simp add: track_pairs_def)

lemma length_track_pairs: "length (track_pairs nss) = sum_list (map length nss)"
  by (induction nss rule: rev_induct) (auto simp: track_pairs_snoc, simp add: track_pairs_def)

lemma read_saved_pattern:
  assumes "pattern_ok p" and "list_all (list_all vel_ok) (pt_notes p)" and "sum_list (map length (pt_notes p)) \<le> 2 ^ 24"
  shows "read_patterns (Suc n) (save_pattern p @ r) =
    (case read_patterns n r of None \<Rightarrow> None | Some (ps, r') \<Rightarrow> Some (p # ps, r'))"
proof -
  let ?ps = "track_pairs (pt_notes p)"
  have b: "1 \<le> pt_steps p" "pt_steps p \<le> 64" "length (pt_notes p) = max_tracks"
    "list_all (list_all (note_ok (pt_steps p))) (pt_notes p)"
    using assms(1) by (simp_all add: pattern_ok_def limits)
  have e: "pattern_empty (clamp min_steps max_steps (as_i32 (f32_of (pt_steps p)))) =
      \<lparr>pt_steps = pt_steps p, pt_notes = replicate max_tracks []\<rparr>"
    using b by (simp add: pattern_empty_def as_i32_f32_of clamp_def limits)
  have c: "as_usize (f32_of (int (length ?ps))) = length ?ps"
    using assms(3) as_usize_f32_of [of "length ?ps"] by (simp add: length_track_pairs)
  have "\<forall>(t, m) \<in> set ?ps. t < max_tracks \<and> note_ok (pt_steps p) m \<and> vel_ok m"
    using track_pairs_ok [OF b(4)] track_pairs_ok [OF assms(2)] b(3) by auto
  moreover have "pt_steps p \<le> max_steps" using b(2) by (simp add: max_steps_def)
  moreover note read_saved_notes [of ?ps "pt_steps p" "\<lparr>pt_steps = pt_steps p, pt_notes = replicate max_tracks []\<rparr>" r]
  moreover have "fold add_pair ?ps \<lparr>pt_steps = pt_steps p, pt_notes = replicate max_tracks []\<rparr> = p"
    using fold_track_pairs [OF _ b(4), of max_tracks] b(3) by simp
  ultimately show ?thesis by (simp add: save_pattern_pairs e c)
qed

lemma read_saved_patterns:
  "list_all (\<lambda>p. pattern_ok p \<and> list_all (list_all vel_ok) (pt_notes p) \<and> sum_list (map length (pt_notes p)) \<le> 2 ^ 24) ps \<Longrightarrow>
     read_patterns (length ps) (concat (map save_pattern ps)) = Some (ps, [])"
  by (induction ps) (simp_all add: read_saved_pattern del: read_patterns.simps(2))

lemma saved_is_restored:
  assumes "saveable s"
  shows "from_options (to_options s) = s"
proof -
  have ok: "song_ok s" using assms by (simp add: saveable_def)
  have bpm: "f32_clamp min_bpm max_bpm (sg_bpm s) = sg_bpm s"
    using assms by (cases "sg_bpm s") (auto simp: saveable_def song_ok_def bpm_ok_def)
  have l: "length (sg_tracks s) = 8" "length (sg_patterns s) \<le> 16" "length (sg_chain s) \<le> 64" "sg_patterns s \<noteq> []"
    using ok by (simp_all add: song_ok_def limits)
  have u: "as_usize (f32_of (int (length (sg_tracks s)))) = 8"
      "as_usize (f32_of (int (length (sg_patterns s)))) = length (sg_patterns s)"
      "as_usize (f32_of (int (length (sg_chain s)))) = length (sg_chain s)"
    using l as_usize_f32_of [of "length (sg_tracks s)"] by (simp_all add: as_usize_f32_of)
  let ?r = "map (\<lambda>i. f32_of (int i)) (sg_chain s) @ concat (map save_pattern (sg_patterns s))"
  have t: "read_tracks 0 8 (sg_tracks song_new) (concat (map save_track (sg_tracks s)) @ ?r) = Some (sg_tracks s, ?r)"
    using read_saved_tracks [of 0 "sg_tracks s" "sg_tracks song_new" ?r] ok l(1) song_new_ok
    by (simp add: song_ok_def max_tracks_def)
  have c: "map as_usize (take (length (sg_chain s)) ?r) = sg_chain s"
  proof -
    have "\<forall>i \<in> set (sg_chain s). as_usize (f32_of (int i)) = i"
      using ok l(2) by (force simp: song_ok_def list_all_iff intro!: as_usize_f32_of)
    then show ?thesis by (simp add: map_idI)
  qed
  have p: "read_patterns (length (sg_patterns s)) (concat (map save_pattern (sg_patterns s))) = Some (sg_patterns s, [])"
    using assms by (intro read_saved_patterns) (auto simp: saveable_def song_ok_def list_all_iff)
  have f: "filter (\<lambda>i. i < length (sg_patterns s)) (sg_chain s) = sg_chain s"
    using ok by (simp add: song_ok_def list_all_iff filter_id_conv)
  have m: "max (length (sg_patterns s)) 1 = length (sg_patterns s)" using l(4) by (cases "sg_patterns s") auto
  show ?thesis
    using l t c p f m u bpm by (simp add: from_options_def to_options_def song_set_bpm_def limits Let_def min_absorb1)
qed


subsection \<open>Properties\<close>

text \<open>
  C30: Whatever values the host hands back, restoring gives a song the sequencer can play: of
  any list of numbers (an older layout, a truncated one, infinities and NaNs included) it makes
  eight tracks on channels 0 to 15, one to sixteen patterns of one to sixty-four steps whose
  notes lie inside them, and a chain of at most sixty-four entries that all name a pattern.
  Adding a note, an empty pattern or a copy of one keeps that.
\<close>

theorem restored_song_is_ok:
  "song_ok (from_options vals) \<and>
   (\<forall>s like. song_ok s \<longrightarrow> song_ok (fst (add_pattern s like)) \<and> song_ok (fst (clone_pattern s like))) \<and>
   (\<forall>p t n. pattern_ok p \<longrightarrow> pattern_ok (fst (add_note p t n)))"
proof -
  have "song_ok (from_options vals)"
    using from_options_v2_ok by (auto simp: from_options_def from_flat_notes_ok split: list.split option.split)
  then show ?thesis by (simp add: add_pattern_ok clone_pattern_ok add_note_ok)
qed

theorem restored_song_is_ok_witness:
  "song_ok (from_options [Finite (- 1), NaN, Infinity True]) \<and> song_ok (fst (add_pattern song_new 0))"
  using restored_song_is_ok [of "[Finite (- 1), NaN, Infinity True]"] song_new_ok by blast

text \<open>
  C29: A saved song is restored exactly: for every song with the invariant, whose tempo is a
  number and whose velocities are MIDI velocities (at most 127), reading what was written gives
  the same tempo, tracks, patterns and chain, with the notes of every track in their order.
  The number of notes of a pattern must survive its conversion to \<open>f32\<close>, as every number up to
  \<open>2 ^ 24\<close> does.
\<close>

theorem song_options_roundtrip:
  assumes "saveable s"
  shows "from_options (to_options s) = s"
  by (rule saved_is_restored [OF assms])

definition one_bar :: song where
  "one_bar = song_new\<lparr>sg_patterns :=
     [\<lparr>pt_steps = 8, pt_notes = [[], [], [\<lparr>nt_step = 3, nt_pitch = 60, nt_len = 2, nt_vel = 100\<rparr>], [], [], [], [], []]\<rparr>],
     sg_chain := [0, 0]\<rparr>"

theorem song_options_roundtrip_witness:
  "saveable one_bar \<and> from_options (to_options one_bar) = one_bar"
proof -
  have "saveable one_bar"
    using song_new_ok
    by (simp add: saveable_def one_bar_def song_ok_def limits vel_ok_def pattern_ok_def note_ok_def)
      (simp add: song_new_def)
  then show ?thesis using song_options_roundtrip [of one_bar] by simp
qed

definition hidden_bar :: pattern where
  "hidden_bar =
     \<lparr>pt_steps = 8, pt_notes = [[\<lparr>nt_step = 10, nt_pitch = 60, nt_len = 2, nt_vel = 100\<rparr>], [], [], [], [], [], [], []]\<rparr>"

definition restored_bar :: pattern where
  "restored_bar = hd (sg_patterns (from_options (to_options (song_new\<lparr>sg_patterns := [hidden_bar]\<rparr>))))"

text \<open>
  A note that a shortened pattern hides comes back after a reload. Shortening a pattern to
  eight steps leaves a note at step ten where it was, and nothing plays it; saved and restored,
  the same note lies on the last step of the pattern and sounds there.
\<close>

theorem hidden_note_returns:
  "(\<forall>i. note_at hidden_bar 0 i 60 = None) \<and> note_at restored_bar 0 7 60 = Some 0"
proof
  show "\<forall>i. note_at hidden_bar 0 i 60 = None"
    by (simp add: note_at_def hidden_bar_def list_get_def covers_def)
  show "note_at restored_bar 0 7 60 = Some 0" by code_simp
qed

end
