(* ===== verification/Transport.thy ===== *)
theory Transport
  imports Song
begin

unbundle bit_operations_syntax

text \<open>
  The transport of the sequencer: which step an absolute step number is (\<open>locate\<close>), the
  look-ahead scheduler (\<open>Scheduler\<close>, \<open>crates/wk-sequence/src/lib.rs\<close>) and the transport buttons
  of the node that drives it (\<open>App::start\<close>, \<open>stop\<close> and \<open>pump\<close>, \<open>plugins/sequencer/src/lib.rs\<close>).

  The arithmetic of \<open>f64\<close> is the argument \<open>F\<close> of the definitions: a record of its operations on
  any type of numbers. What is proved holds however they round.
\<close>

subsection \<open>Positions\<close>

datatype playback = PlayPattern nat | PlaySong

record seq_position =
  ps_pattern :: nat
  ps_step :: int
  ps_chain_index :: nat

definition chain_entries :: "song \<Rightarrow> (nat \<times> nat) list" where
  "chain_entries s = filter (\<lambda>(ci, p). p < length (sg_patterns s)) (enumerate 0 (sg_chain s))"

definition steps_of :: "song \<Rightarrow> nat \<Rightarrow> int" where
  "steps_of s p = pt_steps (sg_patterns s ! p)"

fun locate_in :: "song \<Rightarrow> (nat \<times> nat) list \<Rightarrow> int \<Rightarrow> seq_position option" where
  "locate_in s [] pos = None"
| "locate_in s ((ci, p) # es) pos =
     (if pos < steps_of s p then Some \<lparr>ps_pattern = p, ps_step = pos, ps_chain_index = ci\<rparr>
      else locate_in s es (pos - steps_of s p))"

definition locate :: "song \<Rightarrow> playback \<Rightarrow> int \<Rightarrow> seq_position option" where
  "locate s play ab =
     (case play of
        PlayPattern index \<Rightarrow>
          (case list_get (sg_patterns s) index of
             None \<Rightarrow> None
           | Some p \<Rightarrow> Some \<lparr>ps_pattern = index, ps_step = ab mod pt_steps p, ps_chain_index = 0\<rparr>)
      | PlaySong \<Rightarrow>
          (let entries = chain_entries s; total = sum_list (map (\<lambda>(ci, p). steps_of s p) entries)
           in if total \<le> 0 then None else locate_in s entries (ab mod total)))"

subsection \<open>The scheduler\<close>

record 'f f64_ops =
  f_lit :: "rat \<Rightarrow> 'f"
  f_int :: "int \<Rightarrow> 'f"
  f_f32 :: "f32 \<Rightarrow> 'f"
  f_add :: "'f \<Rightarrow> 'f \<Rightarrow> 'f"
  f_sub :: "'f \<Rightarrow> 'f \<Rightarrow> 'f"
  f_mul :: "'f \<Rightarrow> 'f \<Rightarrow> 'f"
  f_div :: "'f \<Rightarrow> 'f \<Rightarrow> 'f"
  f_max :: "'f \<Rightarrow> 'f \<Rightarrow> 'f"
  f_less :: "'f \<Rightarrow> 'f \<Rightarrow> bool"
  f_round :: "'f \<Rightarrow> 'f"
  f_floor :: "'f \<Rightarrow> 'f"
  f_as_i64 :: "'f \<Rightarrow> int"
  f_as_u64 :: "'f \<Rightarrow> nat"
  f_as_u32 :: "'f \<Rightarrow> u32"
  f_as_f32 :: "'f \<Rightarrow> f32"

record emit =
  em_data :: bytes
  em_time :: nat

record 'f scheduler =
  sc_step_us :: 'f
  sc_origin :: 'f
  sc_next :: int
  sc_running :: bool
  sc_on :: "(u8 \<times> u8) list"

definition pulses_per_step :: nat where
  "pulses_per_step = 24 div 4"

definition lookahead_us :: rat where
  "lookahead_us = 60000"

definition max_steps_per_pump :: nat where
  "max_steps_per_pump = 256"

definition step_micros :: "'f f64_ops \<Rightarrow> f32 \<Rightarrow> 'f" where
  "step_micros F bpm = f_div F (f_div F (f_lit F 60000000) (f_f32 F (f32_clamp min_bpm max_bpm bpm))) (f_lit F 4)"

definition sched_new :: "'f f64_ops \<Rightarrow> f32 \<Rightarrow> 'f scheduler" where
  "sched_new F bpm =
     \<lparr>sc_step_us = step_micros F bpm, sc_origin = f_lit F 0, sc_next = 0, sc_running = False, sc_on = []\<rparr>"

definition step_instant :: "'f f64_ops \<Rightarrow> 'f scheduler \<Rightarrow> int \<Rightarrow> 'f" where
  "step_instant F sc i = f_add F (sc_origin sc) (f_mul F (f_int F i) (sc_step_us sc))"

definition step_of :: "'f f64_ops \<Rightarrow> 'f scheduler \<Rightarrow> nat \<Rightarrow> int" where
  "step_of F sc instant =
     f_as_i64 F (f_round F (f_div F (f_sub F (f_int F (int instant)) (sc_origin sc)) (sc_step_us sc)))"

definition abs_step :: "'f f64_ops \<Rightarrow> 'f scheduler \<Rightarrow> nat \<Rightarrow> int" where
  "abs_step F sc now =
     f_as_i64 F (f_floor F (f_div F (f_sub F (f_int F (int now)) (sc_origin sc)) (sc_step_us sc)))"

definition sched_position :: "'f f64_ops \<Rightarrow> 'f scheduler \<Rightarrow> nat \<Rightarrow> song \<Rightarrow> playback \<Rightarrow> seq_position option" where
  "sched_position F sc now s play = (if sc_running sc then locate s play (abs_step F sc now) else None)"

definition sched_set_bpm :: "'f f64_ops \<Rightarrow> 'f scheduler \<Rightarrow> f32 \<Rightarrow> 'f scheduler" where
  "sched_set_bpm F sc bpm =
     (let pivot = step_instant F sc (sc_next sc); us = step_micros F bpm
      in sc\<lparr>sc_step_us := us, sc_origin := f_sub F pivot (f_mul F (f_int F (sc_next sc)) us)\<rparr>)"

text \<open>The operations below return the messages they push onto \<open>out\<close>.\<close>

definition sched_start :: "'f f64_ops \<Rightarrow> 'f scheduler \<Rightarrow> nat \<Rightarrow> 'f scheduler \<times> emit list" where
  "sched_start F sc now =
     (sc\<lparr>sc_origin := f_int F (int now), sc_next := 0, sc_on := [], sc_running := True\<rparr>,
      [\<lparr>em_data = [0xFA], em_time = now\<rparr>])"

definition note_off :: "nat \<Rightarrow> u8 \<times> u8 \<Rightarrow> emit" where
  "note_off tm k = \<lparr>em_data = [0x80 OR fst k, snd k, 0], em_time = tm\<rparr>"

definition note_on :: "nat \<Rightarrow> u8 \<times> u8 \<Rightarrow> u8 \<Rightarrow> emit" where
  "note_on tm k v = \<lparr>em_data = [0x90 OR fst k, snd k, v], em_time = tm\<rparr>"

definition sched_stop :: "'f f64_ops \<Rightarrow> 'f scheduler \<Rightarrow> 'f scheduler \<times> emit list" where
  "sched_stop F sc =
     (if \<not> sc_running sc then (sc, [])
      else
        (let tm = f_as_u64 F (f_max F (step_instant F sc (sc_next sc)) (f_lit F 0))
         in (sc\<lparr>sc_on := [], sc_running := False\<rparr>,
             map (note_off tm) (sc_on sc) @ [\<lparr>em_data = [0xFC], em_time = tm\<rparr>])))"

text \<open>What should be sounding: the notes of the unmuted tracks at the position, one per key.\<close>

definition want_note ::
  "(u8 \<times> u8) list \<Rightarrow> u8 \<Rightarrow> int \<Rightarrow> int \<Rightarrow> song_note \<Rightarrow> ((u8 \<times> u8) \<times> u8) list \<Rightarrow> ((u8 \<times> u8) \<times> u8) list" where
  "want_note suppress channel step steps n want =
     (if \<not> covers n step steps then want
      else
        (let key = (channel, of_int (nt_pitch n))
         in if key \<in> set suppress \<or> key \<in> set (map fst want) then want else want @ [(key, max (nt_vel n) 1)]))"

definition want_at :: "song \<Rightarrow> seq_position \<Rightarrow> (u8 \<times> u8) list \<Rightarrow> ((u8 \<times> u8) \<times> u8) list" where
  "want_at s pos suppress =
     (let p = sg_patterns s ! ps_pattern pos
      in fold (\<lambda>(index, tr) want.
           if tr_muted tr then want
           else fold (want_note suppress (tr_channel tr) (ps_step pos) (pt_steps p)) (pattern_track p index) want)
         (enumerate 0 (sg_tracks s)) [])"

definition clock_pulses :: "'f f64_ops \<Rightarrow> 'f scheduler \<Rightarrow> 'f \<Rightarrow> emit list" where
  "clock_pulses F sc t =
     map (\<lambda>k. \<lparr>em_data = [0xF8],
        em_time = f_as_u64 F (f_max F
          (f_add F t (f_div F (f_mul F (f_int F (int k)) (sc_step_us sc)) (f_int F (int pulses_per_step)))) (f_lit F 0))\<rparr>)
      [0..<pulses_per_step]"

fun start_notes :: "nat \<Rightarrow> ((u8 \<times> u8) \<times> u8) list \<Rightarrow> (u8 \<times> u8) list \<Rightarrow> (u8 \<times> u8) list \<times> emit list" where
  "start_notes tm [] on = (on, [])"
| "start_notes tm ((key, vel) # want) on =
     (if key \<in> set on then start_notes tm want on
      else (let (on', out) = start_notes tm want (on @ [key]) in (on', note_on tm key vel # out)))"

definition schedule_step ::
  "'f f64_ops \<Rightarrow> 'f scheduler \<Rightarrow> int \<Rightarrow> song \<Rightarrow> playback \<Rightarrow> (u8 \<times> u8) list \<Rightarrow> 'f scheduler \<times> emit list" where
  "schedule_step F sc ab s play suppress =
     (let t = step_instant F sc ab;
          want = (case locate s play ab of None \<Rightarrow> [] | Some pos \<Rightarrow> want_at s pos suppress);
          tm = f_as_u64 F (f_max F t (f_lit F 0));
          wanted = (\<lambda>key. key \<in> set (map fst want));
          offs = map (note_off tm) (filter (\<lambda>key. \<not> wanted key) (sc_on sc));
          (on, ons) = start_notes tm want (filter wanted (sc_on sc))
      in (sc\<lparr>sc_on := on\<rparr>, clock_pulses F sc t @ offs @ ons))"

fun pump_loop ::
  "'f f64_ops \<Rightarrow> 'f \<Rightarrow> nat \<Rightarrow> 'f scheduler \<Rightarrow> song \<Rightarrow> playback \<Rightarrow> (u8 \<times> u8) list \<Rightarrow> 'f scheduler \<times> emit list" where
  "pump_loop F horizon 0 sc s play suppress = (sc, [])"
| "pump_loop F horizon (Suc budget) sc s play suppress =
     (if f_less F (step_instant F sc (sc_next sc)) horizon then
        (let (sc1, out1) = schedule_step F sc (sc_next sc) s play suppress;
             (sc2, out2) = pump_loop F horizon budget (sc1\<lparr>sc_next := sc_next sc1 + 1\<rparr>) s play suppress
         in (sc2, out1 @ out2))
      else (sc, []))"

definition sched_pump ::
  "'f f64_ops \<Rightarrow> 'f scheduler \<Rightarrow> nat \<Rightarrow> song \<Rightarrow> playback \<Rightarrow> (u8 \<times> u8) list \<Rightarrow> 'f scheduler \<times> emit list" where
  "sched_pump F sc now s play suppress =
     (if \<not> sc_running sc then (sc, [])
      else pump_loop F (f_add F (f_int F (int now)) (f_lit F lookahead_us)) max_steps_per_pump sc s play suppress)"

subsection \<open>The buttons of the node\<close>

datatype transport = Stopped | Playing | Recording

record 'f app =
  ap_sched :: "'f scheduler"
  ap_transport :: transport

definition app_stop :: "'f f64_ops \<Rightarrow> 'f app \<Rightarrow> 'f app \<times> emit list" where
  "app_stop F a =
     (if ap_transport a = Stopped then (a, [])
      else (let (sc, out) = sched_stop F (ap_sched a) in (\<lparr>ap_sched = sc, ap_transport = Stopped\<rparr>, out)))"

definition app_start :: "'f f64_ops \<Rightarrow> 'f app \<Rightarrow> transport \<Rightarrow> nat \<Rightarrow> 'f app \<times> emit list" where
  "app_start F a mode clock =
     (if ap_transport a = mode then app_stop F a
      else if ap_transport a = Stopped then
        (let (sc, out) = sched_start F (ap_sched a) clock in (\<lparr>ap_sched = sc, ap_transport = mode\<rparr>, out))
      else (a\<lparr>ap_transport := mode\<rparr>, []))"

definition app_pump ::
  "'f f64_ops \<Rightarrow> 'f app \<Rightarrow> nat \<Rightarrow> song \<Rightarrow> playback \<Rightarrow> (u8 \<times> u8) list \<Rightarrow> 'f app \<times> emit list" where
  "app_pump F a clock s play suppress =
     (let (sc, out) = sched_pump F (ap_sched a) clock s play suppress in (a\<lparr>ap_sched := sc\<rparr>, out))"


subsection \<open>Locating a step\<close>

text \<open>
  The reference: the whole piece written out, one position per step, which the transport
  repeats for ever.
\<close>

definition bar_positions :: "song \<Rightarrow> nat \<times> nat \<Rightarrow> seq_position list" where
  "bar_positions s = (\<lambda>(ci, p). map (\<lambda>i. \<lparr>ps_pattern = p, ps_step = i, ps_chain_index = ci\<rparr>) [0..steps_of s p - 1])"

definition timeline :: "song \<Rightarrow> playback \<Rightarrow> seq_position list" where
  "timeline s play =
     (case play of
        PlayPattern index \<Rightarrow> if index < length (sg_patterns s) then bar_positions s (0, index) else []
      | PlaySong \<Rightarrow> concat (map (bar_positions s) (chain_entries s)))"

lemma steps_of_pos: "song_ok s \<Longrightarrow> p < length (sg_patterns s) \<Longrightarrow> 1 \<le> steps_of s p"
  by (auto simp: song_ok_def steps_of_def list_all_length pattern_ok_def min_steps_def)

lemma length_bar: "0 \<le> steps_of s p \<Longrightarrow> length (bar_positions s (ci, p)) = nat (steps_of s p)"
  by (simp add: bar_positions_def)

lemma nth_bar:
  "0 \<le> i \<Longrightarrow> i < steps_of s p \<Longrightarrow>
     bar_positions s (ci, p) ! nat i = \<lparr>ps_pattern = p, ps_step = i, ps_chain_index = ci\<rparr>"
  by (simp add: bar_positions_def)

lemma locate_in_timeline:
  "\<forall>(ci, p) \<in> set es. 0 \<le> steps_of s p \<Longrightarrow> 0 \<le> pos \<Longrightarrow> pos < sum_list (map (\<lambda>(ci, p). steps_of s p) es) \<Longrightarrow>
     locate_in s es pos = Some (concat (map (bar_positions s) es) ! nat pos)"
proof (induction s es pos rule: locate_in.induct)
  case (2 s ci p es pos)
  show ?case
  proof (cases "pos < steps_of s p")
    case True
    then show ?thesis using 2 by (simp add: nth_append length_bar nth_bar)
  next
    case False
    then have "nat pos - nat (steps_of s p) = nat (pos - steps_of s p)" using 2 by (simp add: nat_diff_distrib)
    then show ?thesis using 2 False by (simp add: nth_append length_bar)
  qed
qed simp

lemma length_timeline_song:
  assumes "\<forall>(ci, p) \<in> set es. 0 \<le> steps_of s p"
  shows "int (length (concat (map (bar_positions s) es))) = sum_list (map (\<lambda>(ci, p). steps_of s p) es)"
  using assms by (induction es) (auto simp: length_bar)

lemma chain_entries_in: "(ci, p) \<in> set (chain_entries s) \<Longrightarrow> p < length (sg_patterns s)"
  by (simp add: chain_entries_def)

lemma locate_is_timeline:
  assumes "song_ok s"
  shows "locate s play ab =
    (if timeline s play = [] then None
     else Some (timeline s play ! nat (ab mod int (length (timeline s play)))))"
proof (cases play)
  case (PlayPattern index)
  show ?thesis
  proof (cases "index < length (sg_patterns s)")
    case True
    note pos = steps_of_pos [OF assms True]
    then have len: "int (length (bar_positions s (0, index))) = steps_of s index" by (simp add: length_bar)
    then have "bar_positions s (0, index) \<noteq> []" using pos by auto
    moreover have "bar_positions s (0, index) ! nat (ab mod steps_of s index) =
        \<lparr>ps_pattern = index, ps_step = ab mod steps_of s index, ps_chain_index = 0\<rparr>"
      using pos by (simp add: nth_bar)
    ultimately show ?thesis
      using True by (simp add: PlayPattern locate_def timeline_def list_get_def len) (simp add: steps_of_def)
  qed (simp add: PlayPattern locate_def timeline_def list_get_def)
next
  case PlaySong
  have es: "\<forall>(ci, p) \<in> set (chain_entries s). 0 \<le> steps_of s p"
    using chain_entries_in steps_of_pos [OF assms] by fastforce
  let ?total = "sum_list (map (\<lambda>(ci, p). steps_of s p) (chain_entries s))"
  note len = length_timeline_song [OF es]
  show ?thesis
  proof (cases "?total \<le> 0")
    case True
    then have "concat (map (bar_positions s) (chain_entries s)) = []"
      using len by (metis length_0_conv of_nat_le_0_iff)
    then show ?thesis using True by (simp add: PlaySong locate_def timeline_def Let_def)
  next
    case False
    then have "length (concat (map (bar_positions s) (chain_entries s))) \<noteq> 0" unfolding len [symmetric] by simp
    then have "concat (map (bar_positions s) (chain_entries s)) \<noteq> []" by (metis list.size(3))
    moreover have "locate_in s (chain_entries s) (ab mod ?total) =
        Some (concat (map (bar_positions s) (chain_entries s)) ! nat (ab mod ?total))"
      using False by (intro locate_in_timeline [OF es]) simp_all
    ultimately show ?thesis using False len by (simp add: PlaySong locate_def timeline_def Let_def)
  qed
qed


subsection \<open>What a receiver hears\<close>

text \<open>
  A receiver of the messages keeps the set of keys (channel, pitch) that are sounding. A
  stream is clean when it never starts a key that is sounding nor releases one that is not.
\<close>

definition key_of :: "u8 \<Rightarrow> u8 \<Rightarrow> u8 \<times> u8" where
  "key_of st pitch = (st AND 0x0F, pitch)"

definition starts :: "emit \<Rightarrow> (u8 \<times> u8) option" where
  "starts e =
     (case em_data e of [st, p, v] \<Rightarrow> if st AND 0xF0 = 0x90 \<and> v \<noteq> 0 then Some (key_of st p) else None | _ \<Rightarrow> None)"

definition releases :: "emit \<Rightarrow> (u8 \<times> u8) option" where
  "releases e =
     (case em_data e of
        [st, p, v] \<Rightarrow> if st AND 0xF0 = 0x80 \<or> (st AND 0xF0 = 0x90 \<and> v = 0) then Some (key_of st p) else None
      | _ \<Rightarrow> None)"

definition hear :: "emit \<Rightarrow> (u8 \<times> u8) set \<Rightarrow> (u8 \<times> u8) set" where
  "hear e S = (S - set_option (releases e)) \<union> set_option (starts e)"

fun clean :: "(u8 \<times> u8) set \<Rightarrow> emit list \<Rightarrow> bool" where
  "clean S [] = True"
| "clean S (e # es) = (set_option (starts e) \<inter> S = {} \<and> set_option (releases e) \<subseteq> S \<and> clean (hear e S) es)"

lemma clean_append: "clean S (xs @ ys) \<longleftrightarrow> clean S xs \<and> clean (fold hear xs S) ys"
  by (induction xs arbitrary: S) auto

lemma status_byte:
  assumes "c \<le> (15 :: u8)"
  shows "(0x80 OR c) AND 0xF0 = 0x80" "(0x90 OR c) AND 0xF0 = 0x90" "(0x80 OR c) AND 0x0F = c" "(0x90 OR c) AND 0x0F = c"
  using low_nibble_only [OF assms] by (simp_all add: bit.conj_disj_distrib2)

lemma note_off_heard:
  assumes "fst k \<le> 15"
  shows "starts (note_off tm k) = None" "releases (note_off tm k) = Some k"
  using status_byte [OF assms] by (simp_all add: starts_def releases_def note_off_def key_of_def)

lemma note_on_heard:
  assumes "fst k \<le> 15" and "v \<noteq> 0"
  shows "starts (note_on tm k v) = Some k" "releases (note_on tm k v) = None"
  using status_byte [OF assms(1)] assms(2) by (simp_all add: starts_def releases_def note_on_def key_of_def)

definition keys_ok :: "(u8 \<times> u8) set \<Rightarrow> bool" where
  "keys_ok K = (\<forall>k \<in> K. fst k \<le> 15)"

lemma hear_offs:
  "keys_ok (set ks) \<Longrightarrow> distinct ks \<Longrightarrow> set ks \<subseteq> S \<Longrightarrow>
     clean S (map (note_off tm) ks) \<and> fold hear (map (note_off tm) ks) S = S - set ks"
proof (induction ks arbitrary: S)
  case (Cons k ks)
  then have h: "hear (note_off tm k) S = S - {k}" "set_option (starts (note_off tm k)) = {}"
      "set_option (releases (note_off tm k)) = {k}"
    by (simp_all add: hear_def note_off_heard keys_ok_def)
  have "clean (S - {k}) (map (note_off tm) ks) \<and> fold hear (map (note_off tm) ks) (S - {k}) = S - {k} - set ks"
    using Cons.prems by (intro Cons.IH) (auto simp: keys_ok_def)
  with h Cons.prems show ?case by auto
qed simp

lemma hear_other:
  assumes "length (em_data e) = 1"
  shows "starts e = None" "releases e = None"
  using assms by (auto simp: starts_def releases_def split: list.splits)

lemma hear_single:
  "\<forall>e \<in> set es. length (em_data e) = 1 \<Longrightarrow> clean S es \<and> fold hear es S = S"
  by (induction es) (simp_all add: hear_def hear_other)

lemma start_notes_heard:
  assumes "start_notes tm want on = (on', out)" and "keys_ok (fst ` set want)" and "\<forall>(k, v) \<in> set want. v \<noteq> 0"
    and "distinct on"
  shows "clean (set on) out \<and> fold hear out (set on) = set on' \<and> set on' = set on \<union> fst ` set want \<and> distinct on'"
  using assms
proof (induction tm want on arbitrary: on' out rule: start_notes.induct)
  case (2 tm key vel want on)
  show ?case
  proof (cases "key \<in> set on")
    case True
    moreover have "keys_ok (fst ` set want)" "\<forall>(k, v) \<in> set want. v \<noteq> 0"
      using "2.prems" by (auto simp: keys_ok_def)
    ultimately show ?thesis using "2.IH"(1) [of on' out] "2.prems" by (simp add: insert_absorb)
  next
    case False
    then obtain out1 where o: "start_notes tm want (on @ [key]) = (on', out1)" "out = note_on tm key vel # out1"
      using "2.prems"(1) by (auto split: prod.splits)
    have k: "fst key \<le> 15" "vel \<noteq> 0" "keys_ok (fst ` set want)" "\<forall>(k, v) \<in> set want. v \<noteq> 0" "distinct (on @ [key])"
      using "2.prems" False by (auto simp: keys_ok_def)
    have "hear (note_on tm key vel) (set on) = set (on @ [key])"
      using note_on_heard [OF k(1,2)] by (simp add: hear_def)
    then show ?thesis
      using "2.IH"(2) [OF False o(1) k(3-5)] note_on_heard [OF k(1,2)] False by (auto simp: o(2))
  qed
qed simp


definition channels_ok :: "song \<Rightarrow> bool" where
  "channels_ok s = list_all (\<lambda>t. tr_channel t \<le> 15) (sg_tracks s)"

definition want_ok :: "((u8 \<times> u8) \<times> u8) list \<Rightarrow> bool" where
  "want_ok want = (keys_ok (fst ` set want) \<and> (\<forall>(k, v) \<in> set want. v \<noteq> 0))"

lemma want_ok_Nil [simp]: "want_ok []"
  by (simp add: want_ok_def keys_ok_def)

lemma max_1_not_0: "max v 1 \<noteq> (0 :: u8)"
  by (metis max.cobounded2 word_le_0_iff zero_neq_one)

lemma want_note_ok: "want_ok want \<Longrightarrow> c \<le> 15 \<Longrightarrow> want_ok (want_note suppress c step steps n want)"
  using max_1_not_0 by (auto simp: want_note_def want_ok_def keys_ok_def Let_def)

lemma fold_want_note_ok: "want_ok want \<Longrightarrow> c \<le> 15 \<Longrightarrow> want_ok (fold (want_note suppress c step steps) ns want)"
  by (induction ns arbitrary: want) (auto simp: want_note_ok)

lemma want_at_ok:
  assumes "channels_ok s"
  shows "want_ok (want_at s pos suppress)"
proof -
  let ?f = "\<lambda>(index, tr) want. if tr_muted tr then want
      else fold (want_note suppress (tr_channel tr) (ps_step pos) (pt_steps (sg_patterns s ! ps_pattern pos)))
             (pattern_track (sg_patterns s ! ps_pattern pos) index) want"
  have "want_ok want \<Longrightarrow> list_all (\<lambda>t. tr_channel t \<le> 15) ts \<Longrightarrow> want_ok (fold ?f (enumerate k ts) want)" for k ts want
    by (induction ts arbitrary: k want) (auto simp: fold_want_note_ok)
  from this [of "[]"] show ?thesis
    using assms by (simp add: want_at_def channels_ok_def Let_def)
qed

text \<open>What is wanted at a step, as a set of keys.\<close>

definition track_keys :: "pattern \<Rightarrow> int \<Rightarrow> nat \<Rightarrow> track \<Rightarrow> (u8 \<times> u8) set" where
  "track_keys p step t tr =
     (if tr_muted tr then {}
      else {(tr_channel tr, of_int (nt_pitch n)) | n. n \<in> set (pattern_track p t) \<and> covers n step (pt_steps p)})"

definition wanted_keys :: "song \<Rightarrow> playback \<Rightarrow> (u8 \<times> u8) list \<Rightarrow> int \<Rightarrow> (u8 \<times> u8) set" where
  "wanted_keys s play suppress ab =
     (case locate s play ab of
        None \<Rightarrow> {}
      | Some pos \<Rightarrow>
          (\<Union>t<length (sg_tracks s). track_keys (sg_patterns s ! ps_pattern pos) (ps_step pos) t (sg_tracks s ! t)) -
          set suppress)"

lemma fold_want_note_keys:
  "fst ` set (fold (want_note suppress c step steps) ns want) =
     fst ` set want \<union> ({(c, of_int (nt_pitch n)) | n. n \<in> set ns \<and> covers n step steps} - set suppress)"
proof (induction ns arbitrary: want)
  case (Cons n ns)
  have "fst ` set (want_note suppress c step steps n want) =
      fst ` set want \<union> ((if covers n step steps then {(c, of_int (nt_pitch n))} else {}) - set suppress)"
    by (auto simp: want_note_def Let_def image_iff)
  then show ?case by (auto simp: Cons.IH)
qed simp

lemma want_at_keys:
  assumes "locate s play ab = Some pos"
  shows "fst ` set (want_at s pos suppress) = wanted_keys s play suppress ab"
proof -
  let ?p = "sg_patterns s ! ps_pattern pos"
  let ?f = "\<lambda>(index, tr) want. if tr_muted tr then want
      else fold (want_note suppress (tr_channel tr) (ps_step pos) (pt_steps ?p)) (pattern_track ?p index) want"
  have "fst ` set (fold ?f (enumerate 0 ts) []) =
      (\<Union>t<length ts. track_keys ?p (ps_step pos) t (ts ! t)) - set suppress" for ts
  proof (induction ts rule: rev_induct)
    case (snoc tr ts)
    have "(\<Union>t<length ts. track_keys ?p (ps_step pos) t ((ts @ [tr]) ! t)) =
        (\<Union>t<length ts. track_keys ?p (ps_step pos) t (ts ! t))"
      by (rule SUP_cong) (auto simp: nth_append)
    with snoc show ?case
      by (simp add: enumerate_append_eq fold_want_note_keys lessThan_Suc track_keys_def [of _ _ _ tr] Un_Diff Un_commute)
  qed simp
  then show ?thesis using assms by (simp add: want_at_def Let_def wanted_keys_def)
qed

subsection \<open>One step, one pump, one performance\<close>

text \<open>A scheduler in step with its receiver: \<open>on\<close> is what the receiver hears.\<close>

definition on_ok :: "'f scheduler \<Rightarrow> bool" where
  "on_ok sc = (distinct (sc_on sc) \<and> keys_ok (set (sc_on sc)) \<and> (sc_running sc \<or> sc_on sc = []))"

definition hears :: "'f scheduler \<Rightarrow> emit list \<Rightarrow> 'f scheduler \<Rightarrow> bool" where
  "hears sc out sc' = (clean (set (sc_on sc)) out \<and> fold hear out (set (sc_on sc)) = set (sc_on sc'))"

lemma hears_trans: "hears a xs b \<Longrightarrow> hears b ys c \<Longrightarrow> hears a (xs @ ys) c"
  by (simp add: hears_def clean_append)

lemma hears_refl [simp]: "hears a [] a"
  by (simp add: hears_def)

lemma schedule_step_heard:
  assumes "schedule_step F sc ab s play suppress = (sc', out)" and "on_ok sc" and "channels_ok s" and "sc_running sc"
  shows "hears sc out sc' \<and> on_ok sc' \<and> sc_running sc' \<and> sc_next sc' = sc_next sc \<and>
    set (sc_on sc') = wanted_keys s play suppress ab"
proof -
  define want where "want = (case locate s play ab of None \<Rightarrow> [] | Some pos \<Rightarrow> want_at s pos suppress)"
  define tm where "tm = f_as_u64 F (f_max F (step_instant F sc ab) (f_lit F 0))"
  let ?w = "\<lambda>key. key \<in> set (map fst want)"
  let ?keep = "filter ?w (sc_on sc)" and ?drop = "filter (\<lambda>k. \<not> ?w k) (sc_on sc)"
  obtain on ons where st: "start_notes tm want ?keep = (on, ons)" by fastforce
  have o: "sc' = sc\<lparr>sc_on := on\<rparr>" "out = clock_pulses F sc (step_instant F sc ab) @ map (note_off tm) ?drop @ ons"
    using assms(1) st by (simp_all add: schedule_step_def Let_def want_def tm_def)
  have w: "want_ok want" "fst ` set want = wanted_keys s play suppress ab"
    using want_at_ok [OF assms(3)] want_at_keys
    by (auto simp: want_def wanted_keys_def split: option.split)
  have S: "clean (set ?keep) ons" "fold hear ons (set ?keep) = set on" "set on = set ?keep \<union> fst ` set want" "distinct on"
    using start_notes_heard [OF st] w(1) assms(2) by (simp_all add: want_ok_def on_ok_def)
  have "keys_ok (set ?drop)" "distinct ?drop" "set ?drop \<subseteq> set (sc_on sc)"
    using assms(2) by (auto simp: on_ok_def keys_ok_def)
  note D = hear_offs [OF this, of tm]
  have C: "clean (set (sc_on sc)) (clock_pulses F sc t) \<and> fold hear (clock_pulses F sc t) (set (sc_on sc)) = set (sc_on sc)" for t
    by (rule hear_single) (simp add: clock_pulses_def)
  have "set (sc_on sc) - set ?drop = set ?keep" by auto
  then have h: "hears sc out sc'" using C D S by (simp add: hears_def o clean_append)
  have on: "set on = wanted_keys s play suppress ab" using S(3) w(2) by auto
  moreover have "on_ok sc'" using S(4) on w assms(4) by (simp add: o on_ok_def want_ok_def)
  ultimately show ?thesis using h assms(4) by (simp add: o)
qed

lemma pump_loop_heard:
  "pump_loop F hz budget sc s play suppress = (sc', out) \<Longrightarrow> on_ok sc \<Longrightarrow> channels_ok s \<Longrightarrow> sc_running sc \<Longrightarrow>
     hears sc out sc' \<and> on_ok sc' \<and> sc_running sc'"
proof (induction F hz budget sc s play suppress arbitrary: sc' out rule: pump_loop.induct)
  case (2 F hz budget sc s play suppress)
  show ?case
  proof (cases "f_less F (step_instant F sc (sc_next sc)) hz")
    case True
    obtain sc1 out1 where s1: "schedule_step F sc (sc_next sc) s play suppress = (sc1, out1)" by fastforce
    let ?sc1 = "sc1\<lparr>sc_next := sc_next sc1 + 1\<rparr>"
    obtain sc2 out2 where s2: "pump_loop F hz budget ?sc1 s play suppress = (sc2, out2)" by fastforce
    have r: "sc' = sc2" "out = out1 @ out2" using "2.prems"(1) True s1 s2 by simp_all
    have "hears sc out1 sc1" "on_ok sc1" "sc_running sc1"
      using schedule_step_heard [OF s1 "2.prems"(2-4)] by blast+
    then have h1: "hears sc out1 ?sc1" "on_ok ?sc1" "sc_running ?sc1"
      by (simp_all add: hears_def on_ok_def)
    then have "hears ?sc1 out2 sc2 \<and> on_ok sc2 \<and> sc_running sc2"
      using "2.IH" [OF True s1 [symmetric] refl s2] "2.prems"(3) by simp
    then show ?thesis using h1(1) hears_trans r by blast
  next
    case False
    then show ?thesis using "2.prems" by simp
  qed
qed simp

lemma sched_pump_heard:
  "sched_pump F sc now s play suppress = (sc', out) \<Longrightarrow> on_ok sc \<Longrightarrow> channels_ok s \<Longrightarrow>
     hears sc out sc' \<and> on_ok sc' \<and> sc_running sc' = sc_running sc"
  using pump_loop_heard [of F _ max_steps_per_pump sc s play suppress sc' out]
  by (auto simp: sched_pump_def split: if_splits)

lemma sched_stop_heard:
  assumes "sched_stop F sc = (sc', out)" and "on_ok sc"
  shows "hears sc out sc' \<and> on_ok sc' \<and> \<not> sc_running sc' \<and> sc_on sc' = []"
proof (cases "sc_running sc")
  case True
  let ?tm = "f_as_u64 F (f_max F (step_instant F sc (sc_next sc)) (f_lit F 0))"
  have o: "sc' = sc\<lparr>sc_on := [], sc_running := False\<rparr>" "out = map (note_off ?tm) (sc_on sc) @ [\<lparr>em_data = [0xFC], em_time = ?tm\<rparr>]"
    using assms(1) True by (simp_all add: sched_stop_def Let_def)
  have "clean (set (sc_on sc)) (map (note_off ?tm) (sc_on sc)) \<and>
      fold hear (map (note_off ?tm) (sc_on sc)) (set (sc_on sc)) = {}"
    using hear_offs [of "sc_on sc" "set (sc_on sc)" ?tm] assms(2) by (simp add: on_ok_def)
  then show ?thesis by (simp add: o hears_def clean_append on_ok_def keys_ok_def hear_def hear_other)
next
  case False
  then show ?thesis using assms by (auto simp: sched_stop_def on_ok_def)
qed

lemma sched_start_heard:
  assumes "sched_start F sc now = (sc', out)" and "on_ok sc" and "\<not> sc_running sc"
  shows "hears sc out sc' \<and> on_ok sc' \<and> sc_running sc'"
  using assms by (auto simp: sched_start_def hears_def on_ok_def keys_ok_def hear_def hear_other)


subsection \<open>Performances\<close>

text \<open>
  What can happen to the transport while it is used: a transport button, the stop, the pump of
  a frame (with the song as it has been edited by then and the keys that are held), a tempo
  change. The buttons are those of playing and of recording.
\<close>

datatype app_call =
    ToggleCall transport nat
  | StopCall
  | PumpCall nat song playback "(u8 \<times> u8) list"
  | BpmCall f32

definition app_new :: "'f f64_ops \<Rightarrow> 'f app" where
  "app_new F = \<lparr>ap_sched = sched_new F (Finite 120), ap_transport = Stopped\<rparr>"

fun app_exec :: "'f f64_ops \<Rightarrow> app_call \<Rightarrow> 'f app \<Rightarrow> 'f app \<times> emit list" where
  "app_exec F (ToggleCall mode clock) a = app_start F a mode clock"
| "app_exec F StopCall a = app_stop F a"
| "app_exec F (PumpCall clock s play suppress) a = app_pump F a clock s play suppress"
| "app_exec F (BpmCall bpm) a = (a\<lparr>ap_sched := sched_set_bpm F (ap_sched a) bpm\<rparr>, [])"

fun perform :: "'f f64_ops \<Rightarrow> app_call list \<Rightarrow> 'f app \<Rightarrow> 'f app \<times> emit list" where
  "perform F [] a = (a, [])"
| "perform F (c # cs) a =
     (let (a1, out1) = app_exec F c a; (a2, out2) = perform F cs a1 in (a2, out1 @ out2))"

fun call_ok :: "app_call \<Rightarrow> bool" where
  "call_ok (ToggleCall mode clock) = (mode \<noteq> Stopped)"
| "call_ok StopCall = True"
| "call_ok (PumpCall clock s play suppress) = channels_ok s"
| "call_ok (BpmCall bpm) = True"

definition app_ok :: "'f app \<Rightarrow> bool" where
  "app_ok a = (on_ok (ap_sched a) \<and> sc_running (ap_sched a) = (ap_transport a \<noteq> Stopped))"

lemma app_stop_heard:
  "app_stop F a = (a', out) \<Longrightarrow> app_ok a \<Longrightarrow> hears (ap_sched a) out (ap_sched a') \<and> app_ok a'"
  using sched_stop_heard [of F "ap_sched a"]
  by (auto simp: app_stop_def app_ok_def split: if_splits prod.splits)

lemma app_exec_heard:
  assumes "app_exec F c a = (a', out)" and "app_ok a" and "call_ok c"
  shows "hears (ap_sched a) out (ap_sched a') \<and> app_ok a'"
proof (cases c)
  case (ToggleCall mode clock)
  then show ?thesis
    using assms app_stop_heard [of F a a' out] sched_start_heard [of F "ap_sched a" clock]
    by (auto simp: app_start_def app_ok_def split: if_splits prod.splits)
next
  case StopCall
  then show ?thesis using assms app_stop_heard by simp
next
  case (PumpCall clock s play suppress)
  then show ?thesis
    using assms sched_pump_heard [of F "ap_sched a" clock s play suppress]
    by (auto simp: app_pump_def app_ok_def split: prod.splits)
next
  case (BpmCall bpm)
  then show ?thesis
    using assms by (auto simp: sched_set_bpm_def Let_def app_ok_def hears_def on_ok_def)
qed

lemma perform_heard:
  "perform F cs a = (a', out) \<Longrightarrow> app_ok a \<Longrightarrow> list_all call_ok cs \<Longrightarrow>
     hears (ap_sched a) out (ap_sched a') \<and> app_ok a'"
proof (induction cs arbitrary: a out)
  case (Cons c cs)
  obtain a1 out1 where s1: "app_exec F c a = (a1, out1)" by fastforce
  obtain out2 where s2: "perform F cs a1 = (a', out2)" "out = out1 @ out2"
    using Cons.prems(1) s1 by (auto split: prod.splits)
  show ?case
    using app_exec_heard [OF s1 Cons.prems(2)] Cons.IH [OF s2(1)] Cons.prems(3) s2(2) hears_trans by auto
qed auto

lemma app_new_ok: "app_ok (app_new F)"
  by (simp add: app_ok_def app_new_def sched_new_def on_ok_def keys_ok_def)

subsection \<open>Properties\<close>


text \<open>For the examples: a clock of whole microseconds, whose stamps count sixteenths of a second.\<close>

definition int_ops :: "int f64_ops" where
  "int_ops = \<lparr>f_lit = (\<lambda>q. \<lfloor>q\<rfloor>), f_int = id, f_f32 = (\<lambda>x. case x of Finite q \<Rightarrow> \<lfloor>q\<rfloor> | _ \<Rightarrow> 0), f_add = (+), f_sub = (-),
     f_mul = (*), f_div = (div), f_max = max, f_less = (<), f_round = id, f_floor = id, f_as_i64 = id, f_as_u64 = (\<lambda>x. nat (x div 62500)),
     f_as_u32 = of_int, f_as_f32 = (\<lambda>x. Finite (of_int x))\<rparr>"

definition downbeat :: song where
  "downbeat = song_new\<lparr>sg_patterns := [fst (add_note (pattern_empty 4) 1 \<lparr>nt_step = 0, nt_pitch = 64, nt_len = 2, nt_vel = 90\<rparr>)]\<rparr>"

definition example_calls :: "app_call list" where
  "example_calls = [ToggleCall Playing 0, PumpCall 0 downbeat (PlayPattern 0) [], BpmCall (Finite 90),
     ToggleCall Recording 5, StopCall]"


text \<open>
  C31: A scheduled step makes exactly the right notes sound: after it, the keys that are on are
  those of the notes of unmuted tracks that cover the step's position in the pattern (and are not
  held by the player), whatever was on before.
\<close>

theorem step_sounds_what_is_written:
  assumes "schedule_step F sc ab s play suppress = (sc', out)" and "on_ok sc" and "channels_ok s" and "sc_running sc"
  shows "fold hear out (set (sc_on sc)) = wanted_keys s play suppress ab \<and> set (sc_on sc') = wanted_keys s play suppress ab"
  using schedule_step_heard [OF assms] by (simp add: hears_def)

theorem step_sounds_what_is_written_witness:
  "fold hear (snd (schedule_step int_ops (fst (sched_start int_ops (sched_new int_ops (Finite 120)) 0)) 3 one_bar PlaySong [])) {} =
    wanted_keys one_bar PlaySong [] 3"
proof -
  let ?sc = "fst (sched_start int_ops (sched_new int_ops (Finite 120)) 0)"
  have "on_ok ?sc" "sc_running ?sc" "sc_on ?sc = []"
    by (simp_all add: sched_start_def on_ok_def keys_ok_def)
  moreover have "channels_ok one_bar"
    using song_new_ok by (simp add: channels_ok_def one_bar_def song_ok_def)
  ultimately show ?thesis
    using step_sounds_what_is_written [of int_ops ?sc 3 one_bar PlaySong "[]"]
    by (cases "schedule_step int_ops ?sc 3 one_bar PlaySong []") simp
qed

text \<open>
  The transport plays the piece it should, over and over: an absolute step number (a
  negative one too) is the step of that number in the patterns of the chain written one after
  the other, or in the one pattern that is looped, counted modulo their length; there is no
  position exactly when there is nothing to play.
\<close>

theorem locate_repeats_the_piece:
  assumes "song_ok s"
  shows "locate s play ab =
    (if timeline s play = [] then None
     else Some (timeline s play ! nat (ab mod int (length (timeline s play)))))"
  by (rule locate_is_timeline [OF assms])

theorem locate_repeats_the_piece_witness:
  "locate one_bar PlaySong (- 3) = Some (timeline one_bar PlaySong ! 13)"
proof -
  have "song_ok one_bar"
    using song_new_ok by (simp add: one_bar_def song_ok_def limits pattern_ok_def note_ok_def)
  moreover have "length (timeline one_bar PlaySong) = 16" by code_simp
  ultimately show ?thesis using locate_repeats_the_piece [of one_bar PlaySong "- 3"] by auto
qed

end
