(* ===== verification/Smf.thy ===== *)
theory Smf
  imports Midifile Transport "HOL-Library.Product_Lexorder" "HOL-Library.Signed_Division"
begin

unbundle bit_operations_syntax

text \<open>
  Songs as Standard MIDI Files and back (\<open>crates/wk-sequence/src/smf.rs\<close>). Ticks are \<open>u32\<close> words
  on export, positions of imported notes are \<open>i64\<close> (\<open>int\<close>), divided as the source does, towards
  zero. The floating-point arithmetic is that of \<open>Transport\<close>: the argument \<open>F\<close>.
\<close>

subsection \<open>Export\<close>

definition ticks_per_quarter :: u16 where
  "ticks_per_quarter = 96"

definition ticks_per_step :: u32 where
  "ticks_per_step = 24"

text \<open>Decimal numbers, as \<open>format!\<close> prints them.\<close>

fun show_nat :: "nat \<Rightarrow> string" where
  "show_nat n = (if n < 10 then [] else show_nat (n div 10)) @ [char_of (48 + n mod 10)]"

declare show_nat.simps [simp del]

definition part_name :: "nat \<Rightarrow> track \<Rightarrow> string" where
  "part_name index tr =
     ''track '' @ show_nat (index + 1) @ '' (ch '' @ show_nat (unat (tr_channel tr + 1)) @ '')''"

definition order_steps :: "song \<Rightarrow> nat \<Rightarrow> int" where
  "order_steps s index = (case list_get (sg_patterns s) index of None \<Rightarrow> 0 | Some p \<Rightarrow> pt_steps p)"

fun order_starts :: "song \<Rightarrow> int \<Rightarrow> nat list \<Rightarrow> int list \<times> int" where
  "order_starts s cursor [] = ([], cursor)"
| "order_starts s cursor (index # order) =
     (let (starts, total) = order_starts s (cursor + order_steps s index) order in (cursor # starts, total))"

definition note_events :: "track \<Rightarrow> int \<Rightarrow> int \<Rightarrow> song_note \<Rightarrow> (u32 \<times> bool \<times> bytes) list" where
  "note_events tr base steps n =
     [(of_int (base + nt_step n) * ticks_per_step, True, [0x90 OR tr_channel tr, of_int (nt_pitch n), nt_vel n]),
      (of_int (base + note_end n steps) * ticks_per_step, False, [0x80 OR tr_channel tr, of_int (nt_pitch n), 0])]"

definition part_events :: "song \<Rightarrow> nat list \<Rightarrow> nat \<Rightarrow> track \<Rightarrow> (u32 \<times> bool \<times> bytes) list" where
  "part_events s order index tr =
     concat (map (\<lambda>(base, pattern_index).
         case list_get (sg_patterns s) pattern_index of
           None \<Rightarrow> []
         | Some p \<Rightarrow> concat (map (note_events tr base (pt_steps p)) (pattern_track p index)))
       (zip (fst (order_starts s 0 order)) order))"

fun delta_events :: "u32 \<Rightarrow> (u32 \<times> bool \<times> bytes) list \<Rightarrow> event list \<times> u32" where
  "delta_events previous [] = ([], previous)"
| "delta_events previous ((tick, is_on, msg) # timed) =
     (let (es, final) = delta_events tick timed
      in (\<lparr>ev_delta = tick - previous, ev_kind = Midi msg\<rparr> # es, final))"

definition saturating_sub :: "u32 \<Rightarrow> u32 \<Rightarrow> u32" where
  "saturating_sub a b = (if b \<le> a then a - b else 0)"

definition sort_timed :: "(u32 \<times> bool \<times> bytes) list \<Rightarrow> (u32 \<times> bool \<times> bytes) list" where
  "sort_timed = sort_key (\<lambda>(tick, is_on, msg). (tick, is_on))"

definition part_track :: "song \<Rightarrow> nat list \<Rightarrow> nat \<Rightarrow> track \<Rightarrow> event list" where
  "part_track s order index tr =
     (let timed = sort_timed (part_events s order index tr);
          (es, previous) = delta_events 0 timed;
          end_tick = of_int (snd (order_starts s 0 order)) * ticks_per_step
      in \<lparr>ev_delta = 0, ev_kind = track_name (part_name index tr)\<rparr> # es @
         [\<lparr>ev_delta = saturating_sub end_tick previous, ev_kind = end_of_track\<rparr>])"

definition tempo_track :: "'f f64_ops \<Rightarrow> song \<Rightarrow> event list" where
  "tempo_track F s =
     [\<lparr>ev_delta = 0, ev_kind = track_name ''wk sequencer''\<rparr>,
      \<lparr>ev_delta = 0, ev_kind = tempo_event (f_as_u32 F (f_div F (f_lit F 60000000) (f_f32 F (sg_bpm s))))\<rparr>,
      \<lparr>ev_delta = 0, ev_kind = time_signature 4 2\<rparr>,
      \<lparr>ev_delta = 0, ev_kind = end_of_track\<rparr>]"

definition to_midi_file :: "'f f64_ops \<Rightarrow> song \<Rightarrow> nat list \<Rightarrow> midi_file" where
  "to_midi_file F s order =
     (midi_file_new ticks_per_quarter)\<lparr>tracks :=
        tempo_track F s #
        map (\<lambda>(index, tr). part_track s order index tr)
          (filter (\<lambda>(index, tr). part_events s order index tr \<noteq> []) (enumerate 0 (sg_tracks s)))\<rparr>"

subsection \<open>Import\<close>

record open_note =
  op_track :: nat
  op_pitch :: u8
  op_start :: int
  op_vel :: u8

record imported =
  im_track :: nat
  im_start :: int
  im_pitch :: int
  im_len :: int
  im_vel :: u8

definition as_i32_wrap :: "int \<Rightarrow> int" where
  "as_i32_wrap n = sint (of_int n :: 32 word)"

text \<open>\<open>track_for\<close>: the track of a channel, and the channels heard so far.\<close>

definition track_for :: "u8 list \<Rightarrow> u8 \<Rightarrow> nat option \<times> u8 list" where
  "track_for channels channel =
     (case List.find (\<lambda>i. channels ! i = channel) [0..<length channels] of
        Some i \<Rightarrow> (Some i, channels)
      | None \<Rightarrow> if max_tracks \<le> length channels then (None, channels) else (Some (length channels), channels @ [channel]))"

fun close_note ::
  "open_note list \<Rightarrow> nat \<Rightarrow> u8 \<Rightarrow> int \<Rightarrow> open_note list \<times> imported list" where
  "close_note [] t pitch step = ([], [])"
| "close_note (o1 # os) t pitch step =
     (if op_track o1 = t \<and> op_pitch o1 = pitch then
        (os, [\<lparr>im_track = t, im_start = op_start o1, im_pitch = uint pitch,
               im_len = as_i32_wrap (max (step - op_start o1) 1), im_vel = op_vel o1\<rparr>])
      else (let (os', ns) = close_note os t pitch step in (o1 # os', ns)))"

record import_state =
  is_channels :: "u8 list"
  is_notes :: "imported list"
  is_open :: "open_note list"

definition quantise :: "'f f64_ops \<Rightarrow> u16 \<Rightarrow> nat \<Rightarrow> int" where
  "quantise F p tick =
     f_as_i64 F (f_round F (f_mul F (f_div F (f_int F (int tick)) (f_int F (uint (max p 1)))) (f_lit F 4)))"

definition close_in :: "nat \<Rightarrow> u8 \<Rightarrow> int \<Rightarrow> import_state \<Rightarrow> import_state" where
  "close_in t pitch step st =
     (let (os, ns) = close_note (is_open st) t pitch step in st\<lparr>is_open := os, is_notes := is_notes st @ ns\<rparr>)"

definition import_message :: "int \<Rightarrow> bytes \<Rightarrow> import_state \<Rightarrow> import_state" where
  "import_message step msg st =
     (if length msg < 3 then st
      else
        (let status = msg ! 0 AND 0xF0; pitch = msg ! 1; vel = msg ! 2;
             is_on = (status = 0x90 \<and> 0 < vel);
             is_off = (status = 0x80 \<or> (status = 0x90 \<and> vel = 0))
         in
         if \<not> is_on \<and> \<not> is_off then st
         else
           (let (found, chs) = track_for (is_channels st) (msg ! 0 AND 0x0F); st1 = st\<lparr>is_channels := chs\<rparr>
            in
            (case found of
               None \<Rightarrow> st1
             | Some t \<Rightarrow>
                 (let st2 = close_in t pitch step st1
                  in if is_on then
                       st2\<lparr>is_open := is_open st2 @ [\<lparr>op_track = t, op_pitch = pitch, op_start = step, op_vel = vel\<rparr>]\<rparr>
                     else st2)))))"

fun import_events :: "'f f64_ops \<Rightarrow> u16 \<Rightarrow> nat \<Rightarrow> event list \<Rightarrow> import_state \<Rightarrow> nat \<times> import_state" where
  "import_events F p tick [] st = (tick, st)"
| "import_events F p tick (e # es) st =
     (let tick' = tick + unat (ev_delta e)
      in import_events F p tick' es
           (case ev_kind e of Midi msg \<Rightarrow> import_message (quantise F p tick') msg st | _ \<Rightarrow> st))"

definition import_track :: "'f f64_ops \<Rightarrow> u16 \<Rightarrow> event list \<Rightarrow> import_state \<Rightarrow> import_state" where
  "import_track F p es st =
     (let (tick, st1) = import_events F p 0 es st
      in fold (\<lambda>(t, pitch). close_in t pitch (quantise F p tick)) (map (\<lambda>q. (op_track q, op_pitch q)) (is_open st1)) st1)"

text \<open>The pieces of a note: pattern index, step inside it, length.\<close>

function split_note :: "int \<Rightarrow> nat \<Rightarrow> int \<Rightarrow> int \<Rightarrow> (nat \<times> int \<times> int) list" where
  "split_note spp count pos left =
     (if left \<le> 0 \<or> spp \<le> 0 then []
      else
        (let index = pos sdiv spp
         in if index < 0 \<or> int count \<le> index then []
            else
              (let loc = pos smod spp; piece = min left (spp - loc)
               in (nat index, loc, piece) # split_note spp count (pos + piece) (left - piece))))"
  by pat_completeness auto

lemma smod_less: "0 < spp \<Longrightarrow> pos smod spp < spp" for pos :: int
  using smod_int_range [of spp pos] by simp

termination split_note
  by (relation "measure (\<lambda>(spp, count, pos, left). nat left)") (auto simp: smod_less)

declare split_note.simps [simp del]

definition place_piece :: "imported \<Rightarrow> nat \<times> int \<times> int \<Rightarrow> pattern list \<Rightarrow> pattern list" where
  "place_piece m = (\<lambda>(i, loc, piece) ps.
     ps[i := fst (add_note (ps ! i) (im_track m)
       \<lparr>nt_step = as_i32_wrap loc, nt_pitch = im_pitch m, nt_len = as_i32_wrap piece, nt_vel = im_vel m\<rparr>)])"

definition place_note :: "int \<Rightarrow> imported \<Rightarrow> pattern list \<Rightarrow> pattern list" where
  "place_note spp m ps = fold (place_piece m) (split_note spp (length ps) (im_start m) (im_len m)) ps"

fun set_channels :: "nat \<Rightarrow> u8 list \<Rightarrow> track list \<Rightarrow> track list" where
  "set_channels i [] ts = ts"
| "set_channels i (c # cs) ts = set_channels (i + 1) cs (ts[i := track_new c])"

definition from_midi_file :: "'f f64_ops \<Rightarrow> midi_file \<Rightarrow> int \<Rightarrow> song" where
  "from_midi_file F f steps_per_pattern =
     (let spp = clamp 1 max_steps steps_per_pattern;
          s = song_set_bpm song_new
                (f32_clamp min_bpm max_bpm (f_as_f32 F (f_div F (f_lit F 60000000) (f_int F (uint (max (file_tempo f) 1))))));
          st = fold (import_track F (ppq f)) (tracks f) \<lparr>is_channels = [], is_notes = [], is_open = []\<rparr>
      in
      if is_notes st = [] then s
      else
        (let last = Max (set (map (\<lambda>m. im_start m + im_len m) (is_notes st)));
             wanted = max ((last + spp - 1) sdiv spp) 1;
             count = nat (min wanted (int max_patterns))
         in s\<lparr>sg_tracks := set_channels 0 (is_channels st) (sg_tracks s),
              sg_patterns := fold (place_note spp) (is_notes st) (replicate count (pattern_empty spp)),
              sg_chain := [0..<count]\<rparr>))"


subsection \<open>Splitting a note over patterns\<close>

lemma sdiv_pos: "0 \<le> a \<Longrightarrow> 0 < b \<Longrightarrow> a sdiv b = a div b" "0 \<le> a \<Longrightarrow> 0 < b \<Longrightarrow> a smod b = a mod b" for a b :: int
  by (cases "a = 0"; simp add: signed_divide_int_eq_divide_int signed_modulo_int_eq_modulo_int)+

lemma div_less_int: "0 < b \<Longrightarrow> a div b < c \<longleftrightarrow> a < c * b" for a b c :: int
proof
  assume b: "0 < b" and "a div b < c"
  have "a < (a div b + 1) * b"
    using div_mult_mod_eq [of a b] pos_mod_bound [OF b, of a] by (simp only: distrib_right mult_1)
  also have "\<dots> \<le> c * b" using b \<open>a div b < c\<close> by (intro mult_right_mono) auto
  finally show "a < c * b" .
next
  assume b: "0 < b" and "a < c * b"
  show "a div b < c"
  proof (rule ccontr)
    assume "\<not> a div b < c"
    then have "c * b \<le> a div b * b" using b by (intro mult_right_mono) auto
    also have "\<dots> \<le> a" using div_mult_mod_eq [of a b] pos_mod_sign [OF b, of a] by linarith
    finally show False using \<open>a < c * b\<close> by simp
  qed
qed

definition piece_ok :: "int \<Rightarrow> nat \<Rightarrow> nat \<times> int \<times> int \<Rightarrow> bool" where
  "piece_ok spp count = (\<lambda>(i, loc, len). i < count \<and> 0 \<le> loc \<and> 1 \<le> len \<and> loc + len \<le> spp)"

definition piece_span :: "int \<Rightarrow> nat \<times> int \<times> int \<Rightarrow> int set" where
  "piece_span spp = (\<lambda>(i, loc, len). {int i * spp + loc ..< int i * spp + loc + len})"

lemma split_note_step:
  assumes "0 < spp" and "0 \<le> pos" and "0 < left" and "pos < int count * spp"
  shows "split_note spp count pos left =
    (let piece = min left (spp - pos mod spp)
     in (nat (pos div spp), pos mod spp, piece) # split_note spp count (pos + piece) (left - piece))"
proof -
  have "pos div spp < int count" using assms by (simp add: div_less_int)
  then show ?thesis using assms by (subst split_note.simps) (simp add: sdiv_pos Let_def pos_imp_zdiv_neg_iff)
qed

lemma split_note_done:
  assumes "0 < spp" and "0 \<le> pos" and "left \<le> 0 \<or> int count * spp \<le> pos"
  shows "split_note spp count pos left = []"
proof (cases "left \<le> 0")
  case False
  then have "int count \<le> pos div spp" using assms by (simp add: div_less_int linorder_not_less [symmetric])
  then show ?thesis using assms by (subst split_note.simps) (simp add: sdiv_pos)
qed (simp add: split_note.simps)

lemma split_note_pieces:
  assumes "0 < spp" and "0 \<le> pos"
  shows "list_all (piece_ok spp count) (split_note spp count pos left) \<and>
    (\<Union>q\<in>set (split_note spp count pos left). piece_span spp q) = {pos ..< min (pos + left) (int count * spp)}"
  using assms
proof (induction spp count pos left rule: split_note.induct)
  case (1 spp count pos left)
  show ?case
  proof (cases "left \<le> 0 \<or> int count * spp \<le> pos")
    case True
    then show ?thesis using split_note_done [OF "1.prems" True] by auto
  next
    case False
    let ?piece = "min left (spp - pos mod spp)"
    have d: "pos div spp < int count" "0 \<le> pos div spp" "int (nat (pos div spp)) * spp + pos mod spp = pos"
      using "1.prems" False by (simp_all add: div_less_int pos_imp_zdiv_nonneg_iff)
    have m: "0 \<le> pos mod spp" "pos mod spp < spp" using "1.prems" by simp_all
    have fits: "pos + ?piece \<le> int count * spp"
    proof -
      have "pos + (spp - pos mod spp) = (pos div spp + 1) * spp"
        using div_mult_mod_eq [of pos spp] by (simp add: algebra_simps)
      also have "\<dots> \<le> int count * spp" using d(1) "1.prems" by (intro mult_right_mono) auto
      finally show ?thesis by simp
    qed
    have st: "split_note spp count pos left = (nat (pos div spp), pos mod spp, ?piece) # split_note spp count (pos + ?piece) (left - ?piece)"
      using split_note_step [OF "1.prems"] False by (simp add: Let_def)
    have IH: "list_all (piece_ok spp count) (split_note spp count (pos + ?piece) (left - ?piece)) \<and>
        (\<Union>q\<in>set (split_note spp count (pos + ?piece) (left - ?piece)). piece_span spp q) =
          {pos + ?piece ..< min (pos + ?piece + (left - ?piece)) (int count * spp)}"
      using False "1.prems" d m by (intro "1.IH" [OF _ refl _ refl]) (auto simp: sdiv_pos)
    have span: "piece_span spp (nat (pos div spp), pos mod spp, ?piece) = {pos ..< pos + ?piece}"
      unfolding piece_span_def using d by simp
    have "piece_ok spp count (nat (pos div spp), pos mod spp, ?piece)"
      using d m False by (auto simp: piece_ok_def nat_less_iff)
    moreover have "{pos ..< pos + ?piece} \<union> {pos + ?piece ..< min (pos + left) (int count * spp)} =
        {pos ..< min (pos + left) (int count * spp)}"
      using fits m False by (intro ivl_disj_un_two(3)) auto
    ultimately show ?thesis using IH span by (simp add: st)
  qed
qed


subsection \<open>An imported song\<close>

definition import_ok :: "import_state \<Rightarrow> bool" where
  "import_ok st =
     (length (is_channels st) \<le> max_tracks \<and> list_all (\<lambda>c. c \<le> 15) (is_channels st))"

lemma track_for_ok:
  assumes "length chs \<le> max_tracks" and "list_all (\<lambda>c. c \<le> 15) chs" and "c \<le> 15" and "track_for chs c = (r, chs')"
  shows "length chs' \<le> max_tracks \<and> list_all (\<lambda>c. c \<le> 15) chs'"
  using assms by (auto simp: track_for_def split: option.splits if_splits)

lemma close_in_channels [simp]: "is_channels (close_in t pitch step st) = is_channels st"
  by (simp add: close_in_def split: prod.split)

lemma low_nibble: "b AND 0x0F \<le> (15 :: u8)"
  by (rule word_and_le1)

lemma import_message_ok: "import_ok st \<Longrightarrow> import_ok (import_message step msg st)"
  using track_for_ok [of "is_channels st" "msg ! 0 AND 0x0F"] low_nibble
  by (auto simp: import_message_def import_ok_def Let_def split: prod.split option.split)

lemma import_events_ok: "import_ok st \<Longrightarrow> import_ok (snd (import_events F p tick es st))"
  by (induction es arbitrary: tick st) (auto simp: Let_def import_message_ok split: event_kind.split)

lemma fold_close_ok: "import_ok st \<Longrightarrow> import_ok (fold (\<lambda>(t, pitch). close_in t pitch step) qs st)"
  by (induction qs arbitrary: st) (auto simp: import_ok_def)

lemma import_track_ok:
  assumes "import_ok st"
  shows "import_ok (import_track F p es st)"
proof -
  obtain tick st1 where e: "import_events F p 0 es st = (tick, st1)" by fastforce
  have "import_ok st1" using import_events_ok [OF assms, of F p 0 es] by (simp add: e)
  from fold_close_ok [OF this] show ?thesis by (simp add: import_track_def e)
qed

lemma import_tracks_ok: "import_ok st \<Longrightarrow> import_ok (fold (import_track F p) ts st)"
  by (induction ts arbitrary: st) (auto simp: import_track_ok)

lemma set_channels_ok:
  "list_all (\<lambda>t. tr_channel t \<le> 15) ts \<Longrightarrow>
     length (set_channels i cs ts) = length ts \<and> list_all (\<lambda>t. tr_channel t \<le> 15) (set_channels i cs ts)"
  by (induction i cs ts rule: set_channels.induct) (auto simp: list_all_update track_new_def)

lemma place_piece_ok:
  assumes "list_all pattern_ok ps" and "fst k < length ps"
  shows "list_all pattern_ok (place_piece m k ps) \<and> length (place_piece m k ps) = length ps"
proof -
  have "pattern_ok (ps ! fst k)" using assms by (simp add: list_all_length)
  then show ?thesis using assms by (cases k) (auto simp: place_piece_def intro!: list_all_update add_note_ok)
qed

lemma place_pieces_ok:
  "list_all pattern_ok ps \<Longrightarrow> \<forall>k \<in> set ks. fst k < length ps \<Longrightarrow>
     list_all pattern_ok (fold (place_piece m) ks ps) \<and> length (fold (place_piece m) ks ps) = length ps"
proof (induction ks arbitrary: ps)
  case (Cons k ks)
  note P = place_piece_ok [OF Cons.prems(1), of k m]
  show ?case using Cons.IH [of "place_piece m k ps"] P Cons.prems(2) by simp
qed simp

lemma split_note_index: "k \<in> set (split_note spp count pos left) \<Longrightarrow> fst k < count"
proof (induction spp count pos left rule: split_note.induct)
  case (1 spp count pos left)
  show ?case
    using "1.prems"
    by (subst (asm) split_note.simps)
      (auto simp: Let_def nat_less_iff split: if_splits, rule "1.IH" [OF _ refl _ refl refl], auto)
qed

lemma place_note_ok:
  "list_all pattern_ok ps \<Longrightarrow> list_all pattern_ok (place_note spp m ps) \<and> length (place_note spp m ps) = length ps"
  unfolding place_note_def by (rule place_pieces_ok) (auto dest: split_note_index)

lemma place_notes_ok:
  "list_all pattern_ok ps \<Longrightarrow> list_all pattern_ok (fold (place_note spp) ms ps) \<and> length (fold (place_note spp) ms ps) = length ps"
  by (induction ms arbitrary: ps) (auto simp: place_note_ok)

lemma from_midi_file_ok: "song_ok (from_midi_file F f n)"
proof -
  let ?st = "fold (import_track F (ppq f)) (tracks f) \<lparr>is_channels = [], is_notes = [], is_open = []\<rparr>"
  have st: "import_ok ?st" by (rule import_tracks_ok) (simp add: import_ok_def)
  have s: "song_ok (song_set_bpm song_new b)" for b
    using song_new_ok by (simp add: song_ok_def song_set_bpm_def)
  have ok: "song_ok (s\<lparr>sg_tracks := set_channels 0 cs (sg_tracks s),
      sg_patterns := fold (place_note spp) ms (replicate count (pattern_empty spp)), sg_chain := [0..<count]\<rparr>)"
    if "song_ok s" and "1 \<le> count" and "count \<le> max_patterns" for s cs spp ms count
  proof -
    note P = place_notes_ok [of "replicate count (pattern_empty spp)" spp ms]
    have "list_all pattern_ok (replicate count (pattern_empty spp))" by (simp add: list_all_length)
    with P that set_channels_ok [of "sg_tracks s" 0 cs] show ?thesis
      by (auto simp: song_ok_def limits list_all_iff)
  qed
  show ?thesis
    unfolding from_midi_file_def Let_def by (auto intro!: ok s simp: limits)
qed


subsection \<open>An exported song\<close>

lemma order_steps_range: "song_ok s \<Longrightarrow> 0 \<le> order_steps s i \<and> order_steps s i \<le> 64"
  by (auto simp: order_steps_def list_get_def song_ok_def list_all_length pattern_ok_def limits split: option.split)

lemma order_starts_range:
  assumes "song_ok s"
  shows "order_starts s c order = (ss, tot) \<Longrightarrow>
     c \<le> tot \<and> tot \<le> c + 64 * int (length order) \<and>
     (\<forall>(base, i) \<in> set (zip ss order). c \<le> base \<and> base + order_steps s i \<le> tot)"
proof (induction order arbitrary: c ss)
  case (Cons i order)
  obtain ss' where st: "order_starts s (c + order_steps s i) order = (ss', tot)" "ss = c # ss'"
    using Cons.prems by (auto split: prod.splits)
  note IH = Cons.IH [OF st(1)]
  show ?case using IH order_steps_range [OF assms, of i] st(2) by (auto simp: algebra_simps)
qed simp

text \<open>The two messages of a note inside a song of at most \<open>max_chain\<close> patterns.\<close>

definition tick_of :: "int \<Rightarrow> u32" where
  "tick_of n = of_int n * ticks_per_step"

lemma unat_tick: "0 \<le> n \<Longrightarrow> n \<le> 4096 \<Longrightarrow> unat (tick_of n) = 24 * nat n"
proof -
  assume n: "0 \<le> n" "n \<le> 4096"
  then have "tick_of n = of_nat (nat n * 24)" by (simp add: tick_of_def ticks_per_step_def)
  moreover have "nat n * 24 < 2 ^ 32" using n by (simp add: nat_mult_distrib [symmetric])
  ultimately show ?thesis by (simp only: unat_of_nat) (simp add: take_bit_nat_eq_self)
qed

definition part_pair :: "track \<Rightarrow> (u32 \<times> bool \<times> bytes) \<Rightarrow> (u32 \<times> bool \<times> bytes) \<Rightarrow> bool" where
  "part_pair tr = (\<lambda>(t, is_on, m) (t', is_on', m'). is_on \<and> \<not> is_on' \<and> unat t < unat t' \<and> unat t' < 2 ^ 28 \<and>
     (\<exists>pitch vel. 1 \<le> vel \<and> m = [0x90 OR tr_channel tr, pitch, vel] \<and> m' = [0x80 OR tr_channel tr, pitch, 0]))"

lemma note_events_pair:
  assumes "note_ok steps n" and "0 \<le> base" and "base + steps \<le> 4096"
  shows "\<exists>on off. note_events tr base steps n = [on, off] \<and> part_pair tr on off"
proof -
  have e: "note_end n steps = nt_step n + nt_len n" using assms(1) by (simp add: note_end_def note_ok_def)
  have "unat (tick_of (base + nt_step n)) = 24 * nat (base + nt_step n)"
      "unat (tick_of (base + (nt_step n + nt_len n))) = 24 * nat (base + (nt_step n + nt_len n))"
    using assms by (auto intro!: unat_tick simp: note_ok_def)
  then show ?thesis
    using assms by (auto simp: note_events_def e part_pair_def note_ok_def tick_of_def)
qed

lemma part_events_in:
  "x \<in> set (part_events s order index tr) \<longleftrightarrow>
     (\<exists>base i p n. (base, i) \<in> set (zip (fst (order_starts s 0 order)) order) \<and> list_get (sg_patterns s) i = Some p \<and>
        n \<in> set (pattern_track p index) \<and> x \<in> set (note_events tr base (pt_steps p) n))"
  unfolding part_events_def set_concat set_map UN_iff bex_simps by (force split: option.splits)

lemma part_events_paired:
  assumes "song_ok s" and "length order \<le> max_chain" and "x \<in> set (part_events s order index tr)"
  shows "\<exists>on off. part_pair tr on off \<and> {on, off} \<subseteq> set (part_events s order index tr) \<and> (x = on \<or> x = off)"
proof -
  obtain ss tot where os: "order_starts s 0 order = (ss, tot)" by fastforce
  note R = order_starts_range [OF assms(1) os]
  from assms(3) obtain base i p n where b: "(base, i) \<in> set (zip ss order)" "list_get (sg_patterns s) i = Some p"
      "n \<in> set (pattern_track p index)" "x \<in> set (note_events tr base (pt_steps p) n)"
    unfolding part_events_in os by auto
  have p: "pattern_ok p" "order_steps s i = pt_steps p"
    using b(2) assms(1) by (auto simp: list_get_def song_ok_def list_all_length order_steps_def split: if_splits)
  have "note_ok (pt_steps p) n"
    using p(1) b(3) by (auto simp: pattern_track_def list_get_def pattern_ok_def list_all_iff split: if_splits)
  moreover have "0 \<le> base" "base + pt_steps p \<le> 4096"
    using R b(1) p(2) assms(2) by (auto simp: max_chain_def)
  ultimately obtain on off where e: "note_events tr base (pt_steps p) n = [on, off]" "part_pair tr on off"
    using note_events_pair by blast
  have "set (note_events tr base (pt_steps p) n) \<subseteq> set (part_events s order index tr)"
    using b(1-3) by (intro subsetI, unfold part_events_in os fst_conv) blast
  then have "{on, off} \<subseteq> set (part_events s order index tr)" "x = on \<or> x = off" using e(1) b(4) by auto
  with e(2) show ?thesis by blast
qed


definition part_item :: "track \<Rightarrow> u32 \<times> bool \<times> bytes \<Rightarrow> bool" where
  "part_item tr = (\<lambda>(t, is_on, m). unat t < 2 ^ 28 \<and> length m = 3 \<and>
     m ! 0 = (if is_on then 0x90 else 0x80) OR tr_channel tr \<and> (if is_on then 1 \<le> m ! 2 else m ! 2 = 0))"

lemma part_pair_items: "part_pair tr on off \<Longrightarrow> part_item tr on \<and> part_item tr off"
  by (auto simp: part_pair_def part_item_def)

lemma part_item_in:
  "song_ok s \<Longrightarrow> length order \<le> max_chain \<Longrightarrow> x \<in> set (part_events s order index tr) \<Longrightarrow> part_item tr x"
  using part_events_paired part_pair_items by blast

lemma set_sort_timed [simp]: "set (sort_timed xs) = set xs"
  by (simp add: sort_timed_def)

lemma sorted_timed: "sorted (map (\<lambda>(t, is_on, m). (t, is_on)) (sort_timed xs))"
  by (simp add: sort_timed_def)

lemma length3: "length m = 3 \<Longrightarrow> \<exists>a b c. m = [a, b, c]"
  by (auto simp: eval_nat_numeral length_Suc_conv)

lemma part_item_kind:
  assumes "part_item tr (t, is_on, m)" and "tr_channel tr \<le> 15"
  shows "wf_kind (Midi m)"
proof -
  have "length m = 3" using assms(1) by (simp add: part_item_def)
  then obtain a b c where m: "m = [a, b, c]" using length3 by blast
  have a: "a = (if is_on then 0x90 else 0x80) OR tr_channel tr" using assms(1) by (simp add: part_item_def m)
  note S = status_byte [OF assms(2)]
  have h: "a AND 0xF0 = (if is_on then 0x90 else 0x80)" using S by (simp add: a)
  then have "a \<noteq> 0xF0" "a \<noteq> 0xF7" "a \<noteq> 0xFF" by (auto split: if_splits)
  moreover have "0x80 \<le> a"
  proof -
    have "(0x80 :: u8) \<le> a AND 0xF0" using h by simp
    also have "\<dots> \<le> a" by (rule word_and_le2)
    finally show ?thesis .
  qed
  ultimately have "status_ok a" by (simp add: status_ok_def)
  moreover have "channel_data_len a = 2" using h by (simp add: channel_data_len_def)
  ultimately show ?thesis by (simp add: m)
qed


lemma delta_events_wf:
  assumes "delta_events prev timed = (es, final)" and "sorted (prev # map fst timed)"
    and "\<forall>x \<in> set timed. part_item tr x" and "tr_channel tr \<le> 15"
  shows "list_all wf_event es \<and> list_all (\<lambda>e. \<not> is_end_of_track (ev_kind e)) es"
  using assms(1-3)
proof (induction prev timed arbitrary: es rule: delta_events.induct)
  case (2 prev tick is_on msg timed)
  obtain es' where e: "delta_events tick timed = (es', final)" "es = \<lparr>ev_delta = tick - prev, ev_kind = Midi msg\<rparr> # es'"
    using "2.prems"(1) by (auto split: prod.splits)
  have i: "part_item tr (tick, is_on, msg)" "prev \<le> tick" using "2.prems" by auto
  have "unat (tick - prev) \<le> unat tick" using i(2) by (simp add: unat_sub)
  also have "\<dots> < 2 ^ 28" using i(1) by (simp add: part_item_def)
  finally have "wf_event \<lparr>ev_delta = tick - prev, ev_kind = Midi msg\<rparr>"
    using part_item_kind [OF i(1) assms(4)] by (simp add: wf_event_def)
  then show ?case using "2.IH" [OF e(1)] "2.prems"(2,3) by (simp add: e(2))
qed simp

lemma sorted_fst_timed: "sorted (0 # map fst (sort_timed xs))"
proof -
  have "sorted (map fst ys)" if "sorted (map (\<lambda>(t, is_on, m). (t, is_on)) ys)" for ys :: "(u32 \<times> bool \<times> bytes) list"
    using that by (induction ys) (auto simp: less_eq_prod_def)
  then show ?thesis using sorted_timed by (simp add: word_zero_le)
qed

lemma length_show_nat: "length (show_nat n) \<le> Suc n"
proof (induction n rule: show_nat.induct)
  case (1 n)
  show ?case
  proof (cases "n < 10")
    case False
    then have "Suc (n div 10) \<le> n" by linarith
    with 1 False show ?thesis by (subst show_nat.simps) simp
  qed (simp add: show_nat.simps)
qed

lemma name_wf: "length name < 2 ^ 28 \<Longrightarrow> wf_event \<lparr>ev_delta = 0, ev_kind = track_name name\<rparr>"
  by (simp add: wf_event_def track_name_def)

lemma part_name_short: "index < max_tracks \<Longrightarrow> length (part_name index tr) < 2 ^ 28"
proof -
  assume "index < max_tracks"
  then have "length (show_nat (Suc index)) \<le> 9" using length_show_nat [of "Suc index"] by (simp add: max_tracks_def)
  moreover have "unat (tr_channel tr + 1) < 2 ^ LENGTH(8)" by (rule unsigned_less)
  then have "length (show_nat (unat (tr_channel tr + 1))) \<le> 256"
    using length_show_nat [of "unat (tr_channel tr + 1)"] by simp
  ultimately show ?thesis by (simp add: part_name_def)
qed

lemma part_track_wf:
  assumes "song_ok s" and "length order \<le> max_chain" and "index < max_tracks" and "tr_channel tr \<le> 15"
  shows "list_all wf_event (part_track s order index tr) \<and>
    list_all (\<lambda>e. \<not> is_end_of_track (ev_kind e)) (butlast (part_track s order index tr)) \<and> ends_track (part_track s order index tr)"
proof -
  let ?timed = "sort_timed (part_events s order index tr)"
  obtain es prev where d: "delta_events 0 ?timed = (es, prev)" by fastforce
  have D: "list_all wf_event es \<and> list_all (\<lambda>e. \<not> is_end_of_track (ev_kind e)) es"
    using part_item_in [OF assms(1,2)] by (intro delta_events_wf [OF d sorted_fst_timed _ assms(4)]) auto
  obtain ss tot where os: "order_starts s 0 order = (ss, tot)" by fastforce
  have "0 \<le> tot" "tot \<le> 4096" using order_starts_range [OF assms(1) os] assms(2) by (auto simp: max_chain_def)
  then have "unat (tick_of tot) \<le> 24 * 4096" by (simp add: unat_tick)
  then have "unat (saturating_sub (tick_of tot) prev) < 2 ^ 28"
    by (auto simp: saturating_sub_def unat_sub)
  then have "wf_event \<lparr>ev_delta = saturating_sub (tick_of tot) prev, ev_kind = end_of_track\<rparr>"
    by (simp add: wf_event_def end_of_track_def)
  with D name_wf [OF part_name_short [OF assms(3), of tr]] show ?thesis
    by (simp add: part_track_def d os tick_of_def ends_track_def end_of_track_def track_name_def butlast_append)
qed

lemma tempo_track_wf: "wf_track (tempo_track F s)"
proof -
  have "length (write_track (tempo_track F s)) < 2 ^ 32"
    by (simp add: tempo_track_def write_track_def ends_track_def end_of_track_def track_name_def tempo_event_def
        time_signature_def Let_def write_vlq_bytes)
  then show ?thesis
    by (simp add: wf_track_def)
      (simp add: tempo_track_def wf_event_def end_of_track_def track_name_def tempo_event_def time_signature_def Let_def)
qed


lemma to_midi_file_wf:
  assumes "song_ok s" and "length order \<le> max_chain"
    and "list_all (\<lambda>t. length (write_track t) < 2 ^ 32) (tracks (to_midi_file F s order))"
  shows "wf_file (to_midi_file F s order) \<and> close_file (to_midi_file F s order) = to_midi_file F s order"
proof -
  let ?f = "to_midi_file F s order"
  have t: "wf_track t \<and> close_track t = t" if m: "t \<in> set (tracks ?f)" for t
  proof (cases "t = tempo_track F s")
    case True
    then show ?thesis
      using tempo_track_wf by (simp add: close_track_def) (simp add: tempo_track_def ends_track_def end_of_track_def)
  next
    case False
    then obtain index tr where i: "(index, tr) \<in> set (enumerate 0 (sg_tracks s))" "t = part_track s order index tr"
      using m by (auto simp: to_midi_file_def)
    then have "index < length (sg_tracks s)" "tr = sg_tracks s ! index"
      by (auto simp: in_set_enumerate_eq)
    then have "index < max_tracks" "tr_channel tr \<le> 15"
      using assms(1) by (auto simp: song_ok_def list_all_length)
    from part_track_wf [OF assms(1,2) this] show ?thesis
      using assms(3) m by (simp add: wf_track_def i(2) close_track_def list_all_iff)
  qed
  have "ppq ?f = 96" by (simp add: to_midi_file_def midi_file_new_def ticks_per_quarter_def)
  then have "wf_file ?f" using t by (simp add: wf_file_def list_all_iff)
  moreover have "map close_track (tracks ?f) = tracks ?f" using t by (simp add: map_idI)
  ultimately show ?thesis by (simp add: close_file_def)
qed

subsection \<open>Listening to an exported part\<close>

definition midi_messages :: "event list \<Rightarrow> emit list" where
  "midi_messages es =
     List.map_filter (\<lambda>e. case ev_kind e of Midi m \<Rightarrow> Some \<lparr>em_data = m, em_time = 0\<rparr> | _ \<Rightarrow> None) es"

lemma midi_messages_simps [simp]:
  "midi_messages [] = []"
  "midi_messages (e # es) =
     (case ev_kind e of Midi m \<Rightarrow> \<lparr>em_data = m, em_time = 0\<rparr> # midi_messages es | _ \<Rightarrow> midi_messages es)"
  "midi_messages (es @ es') = midi_messages es @ midi_messages es'"
  by (simp_all add: midi_messages_def map_filter_def split: event_kind.split)

lemma midi_messages_delta:
  "midi_messages (fst (delta_events prev timed)) = map (\<lambda>(t, is_on, m). \<lparr>em_data = m, em_time = 0\<rparr>) timed"
  by (induction prev timed rule: delta_events.induct) (auto split: prod.split)

lemma part_messages:
  "midi_messages (part_track s order index tr) =
     map (\<lambda>(t, is_on, m). \<lparr>em_data = m, em_time = 0\<rparr>) (sort_timed (part_events s order index tr))"
  using midi_messages_delta [of 0 "sort_timed (part_events s order index tr)"]
  by (cases "delta_events 0 (sort_timed (part_events s order index tr))")
    (simp add: part_track_def track_name_def end_of_track_def)

lemma hear_sounding:
  "k \<in> fold hear es S \<Longrightarrow>
     (k \<in> S \<and> (\<forall>e \<in> set es. releases e \<noteq> Some k)) \<or>
     (\<exists>xs e ys. es = xs @ e # ys \<and> starts e = Some k \<and> (\<forall>e' \<in> set ys. releases e' \<noteq> Some k))"
proof (induction es arbitrary: S)
  case (Cons e es)
  have "k \<in> fold hear es (hear e S)" using Cons.prems by simp
  from Cons.IH [OF this] show ?case
  proof
    assume a: "k \<in> hear e S \<and> (\<forall>e' \<in> set es. releases e' \<noteq> Some k)"
    then consider "starts e = Some k" | "k \<in> S" "releases e \<noteq> Some k" by (auto simp: hear_def)
    then show ?thesis
    proof cases
      case 1
      then have "e # es = [] @ e # es \<and> starts e = Some k \<and> (\<forall>e' \<in> set es. releases e' \<noteq> Some k)" using a by simp
      then show ?thesis by blast
    qed (use a in auto)
  next
    assume "\<exists>xs e0 ys. es = xs @ e0 # ys \<and> starts e0 = Some k \<and> (\<forall>e' \<in> set ys. releases e' \<noteq> Some k)"
    then show ?thesis by (metis append_Cons)
  qed
qed simp


lemma part_item_heard:
  assumes "part_item tr (t, is_on, m)" and "tr_channel tr \<le> 15"
  shows "starts \<lparr>em_data = m, em_time = 0\<rparr> = (if is_on then Some (tr_channel tr, m ! 1) else None)"
    "releases \<lparr>em_data = m, em_time = 0\<rparr> = (if is_on then None else Some (tr_channel tr, m ! 1))"
proof -
  have "length m = 3" using assms(1) by (simp add: part_item_def)
  then obtain a b c where m: "m = [a, b, c]" using length3 by blast
  then show "starts \<lparr>em_data = m, em_time = 0\<rparr> = (if is_on then Some (tr_channel tr, m ! 1) else None)"
    "releases \<lparr>em_data = m, em_time = 0\<rparr> = (if is_on then None else Some (tr_channel tr, m ! 1))"
    using assms(1) status_byte [OF assms(2)]
    by (auto simp: part_item_def starts_def releases_def key_of_def split: if_splits)
qed

lemma part_ends_silent:
  assumes "song_ok s" and "length order \<le> max_chain" and "tr_channel tr \<le> 15"
  shows "fold hear (midi_messages (part_track s order index tr)) {} = {}"
proof (rule ccontr)
  let ?E = "\<lambda>(t, is_on, m). \<lparr>em_data = m, em_time = 0\<rparr> :: emit"
  let ?L = "sort_timed (part_events s order index tr)"
  assume "fold hear (midi_messages (part_track s order index tr)) {} \<noteq> {}"
  then obtain k where "k \<in> fold hear (map ?E ?L) {}" unfolding part_messages by blast
  from hear_sounding [OF this] obtain xs e ys where
    sp: "map ?E ?L = xs @ e # ys" "starts e = Some k" "\<forall>e' \<in> set ys. releases e' \<noteq> Some k" by blast
  then obtain A x B where L: "?L = A @ x # B" "e = ?E x" "ys = map ?E B"
    by (auto simp: map_eq_append_conv map_eq_Cons_conv)
  have items: "\<forall>y \<in> set ?L. part_item tr y" using part_item_in [OF assms(1,2)] by simp
  obtain t o1 m where x: "x = (t, o1, m)" by (cases x)
  have px: "part_item tr (t, o1, m)" using items L(1) x by simp
  have on: "o1" "k = (tr_channel tr, m ! 1)"
    using part_item_heard [OF px assms(3)] sp(2) L(2) x by (auto split: if_splits)
  have "x \<in> set (part_events s order index tr)" using L(1) by (metis in_set_conv_decomp set_sort_timed)
  then obtain p q where pq: "part_pair tr p q" "{p, q} \<subseteq> set (part_events s order index tr)" "x = p \<or> x = q"
    using part_events_paired [OF assms(1,2)] by blast
  then have xp: "x = p" using on(1) x by (auto simp: part_pair_def)
  obtain t' o' m' where q: "q = (t', o', m')" by (cases q)
  have pr: "\<not> o'" "unat t < unat t'" "m' ! 1 = m ! 1" using pq(1) xp x q by (auto simp: part_pair_def)
  have qL: "q \<in> set ?L" using pq(2) by simp
  have "part_item tr (t', o', m')" using items qL q by simp
  then have rel: "releases (?E q) = Some k" using part_item_heard(2) [OF _ assms(3)] on(2) pr q by simp
  have "q \<notin> set B" using sp(3) L(3) rel by auto
  moreover have "q \<noteq> x" using x q pr(1) on(1) by auto
  moreover have "q \<notin> set A"
  proof
    assume "q \<in> set A"
    then have "(t', o') \<le> (t, o1)"
      using sorted_timed [of "part_events s order index tr"] L(1) x q by (force simp: sorted_append)
    then show False using pr(2) by (auto simp: less_eq_prod_def word_less_nat_alt word_le_nat_alt)
  qed
  ultimately show False using qL L(1) by auto
qed


subsection \<open>Properties\<close>

text \<open>
  C32: An exported song reads back byte for byte: what the sequencer exports of a song with the
  invariant (the chain of at most 64 entries or one pattern) is a Standard MIDI File whose parsing
  gives the exported tracks and time base again, nothing appended, nothing refused, however the
  tempo was rounded; the tracks must stay below 4 GiB.
\<close>

theorem exported_song_reads_back:
  assumes "song_ok s" and "length order \<le> max_chain"
    and "list_all (\<lambda>t. length (write_track t) < 2 ^ 32) (tracks (to_midi_file F s order))"
  shows "parse (write_file (to_midi_file F s order)) = Inr (to_midi_file F s order)"
  using parse_write to_midi_file_wf [OF assms] by metis

theorem exported_song_reads_back_witness:
  "parse (write_file (to_midi_file int_ops song_new [0])) = Inr (to_midi_file int_ops song_new [0])"
proof -
  have "part_events song_new [0] i tr = []" for i tr
    by (simp add: part_events_def song_new_def list_get_def pattern_track_def pattern_empty_def max_tracks_def split: option.split)
  then have "tracks (to_midi_file int_ops song_new [0]) = [tempo_track int_ops song_new]"
    by (simp add: to_midi_file_def)
  then show ?thesis
    using exported_song_reads_back [of song_new "[0]" int_ops] tempo_track_wf [of int_ops song_new]
    by (simp add: wf_track_def max_chain_def)
qed

text \<open>
  No exported part leaves a note hanging: played from its beginning, every track of a song
  with the invariant has released all its notes at its end, also where notes of one pitch overlap
  or a note is repeated at the instant it ends, because releases come first at equal ticks.
\<close>

theorem exported_part_ends_silent:
  assumes "song_ok s" and "length order \<le> max_chain" and "tr_channel tr \<le> 15"
  shows "fold hear (midi_messages (part_track s order index tr)) {} = {}"
  by (rule part_ends_silent [OF assms])

theorem exported_part_ends_silent_witness:
  "fold hear (midi_messages (part_track one_bar [0, 0] 2 (track_new 2))) {} = {}"
proof -
  have "song_ok one_bar"
    using song_new_ok by (simp add: one_bar_def song_ok_def limits pattern_ok_def note_ok_def)
  moreover have "tr_channel (track_new 2) \<le> 15" by (simp add: track_new_def)
  ultimately show ?thesis using exported_part_ends_silent [of one_bar "[0, 0]" "track_new 2" 2] by (simp add: max_chain_def)
qed

text \<open>
  A note that a shortened pattern hides hangs in the exported file: it starts at step ten
  and is released at step eight, where the pattern ends, so that the file releases it before it
  starts and the part ends with the note sounding.
\<close>

theorem hidden_note_is_exported_hanging:
  "fold hear (midi_messages (part_track (song_new\<lparr>sg_patterns := [hidden_bar]\<rparr>) [0] 0 (track_new 0))) {} = {(0, 60)}"
  by code_simp

text \<open>
  Importing any file gives a song the sequencer can play, whatever channels, overlaps,
  missing releases or rounding of its times it has.
\<close>

theorem imported_song_is_ok:
  "song_ok (from_midi_file F f n)"
  by (rule from_midi_file_ok)

text \<open>
  A note that crosses pattern boundaries is split, not cut short: its pieces lie inside
  their patterns and together cover exactly the steps of the note, up to the end of the last
  pattern there is.
\<close>

theorem split_note_keeps_the_sound:
  assumes "0 < spp" and "0 \<le> pos"
  shows "list_all (\<lambda>(i, loc, len). i < count \<and> 0 \<le> loc \<and> 1 \<le> len \<and> loc + len \<le> spp) (split_note spp count pos left) \<and>
    (\<Union>(i, loc, len)\<in>set (split_note spp count pos left). {int i * spp + loc ..< int i * spp + loc + len}) =
      {pos ..< min (pos + left) (int count * spp)}"
  using split_note_pieces [OF assms, of count left] by (simp add: piece_ok_def piece_span_def)

theorem split_note_keeps_the_sound_witness:
  "(\<Union>(i, loc, len)\<in>set (split_note 16 4 10 40). {int i * 16 + loc ..< int i * 16 + loc + len}) = {10 ..< 50}"
  using split_note_keeps_the_sound [of 16 10 4 40] by simp

end
