(* ===== verification/Instancing.thy ===== *)
theory Instancing
  imports Wiring "HOL-Library.Product_Lexorder"
begin

unbundle bit_operations_syntax

text \<open>
  Workspace instancing: what a \<open>group\<close> node stands for. The data of a resolved document
  (\<open>NodeSnap\<close>, \<open>SnapKind\<close>, \<open>Workspace\<close> of \<open>crates/wk-server/src/workspace.rs\<close>), the names that
  node ids generate (\<open>nodename.rs\<close>), and the expansion of the groups into instances
  (\<open>instancing.rs\<close>).

  SHA-256 (the crate \<open>sha2\<close>) is the argument \<open>sha\<close> of the definitions that use it. Of a document
  the expansion reads its workspaces only, and a document is their list here. An error is the
  constructor with the data of its message. A search that need not end is a partial function,
  with \<open>None\<close> for not returning; so the outcome of an expansion is an \<open>option\<close> of a result.
\<close>

subsection \<open>Documents\<close>

datatype snap_kind =
    SkApp string "string option" "f32_bits list" "string list" "string option"
  | SkVolume string bool
  | SkBindMount string
  | SkPort u16
  | SkNet bool
  | SkRouter
  | SkIroh "string option" "string option"
  | SkVeilid "string option" "string option"
  | SkNote string
  | SkCapture
  | SkClipboard
  | SkApi
  | SkMidiIn string
  | SkMidiOut string
  | SkHostService string string
  | SkMulticast "string option" "string list"
  | SkInPort string port_kind
  | SkOutPort string port_kind
  | SkGroup string "string option" "(string \<times> node_id) list" "(string \<times> node_id) list"

record node_snap =
  sn_id :: node_id
  sn_pos :: "f32_bits \<times> f32_bits"
  sn_size :: "f32_bits \<times> f32_bits"
  sn_pos3d :: "(f32_bits \<times> f32_bits \<times> f32_bits \<times> f32_bits) option"
  sn_panel3d :: bool
  sn_kind :: snap_kind

record workspace =
  ws_id :: node_id
  ws_name :: "string option"
  ws_tab :: bool
  ws_nodes :: "node_snap list"
  ws_connections :: "link list"
  ws_mount_paths :: "(link \<times> string) list"
  ws_midi :: "link list"
  ws_midi_channels :: "(link \<times> u8) list"
  ws_serves :: "link list"
  ws_serve_ports :: "(link \<times> u16) list"
  ws_net_links :: "link list"
  ws_capture_links :: "link list"
  ws_clipboard_links :: "link list"
  ws_api_links :: "link list"

type_synonym document = "workspace list"

text \<open>\<open>Workspace::new\<close>, for the id it is given.\<close>

definition workspace_new :: "node_id \<Rightarrow> workspace" where
  "workspace_new i =
     \<lparr>ws_id = i, ws_name = None, ws_tab = True, ws_nodes = [], ws_connections = [], ws_mount_paths = [],
      ws_midi = [], ws_midi_channels = [], ws_serves = [], ws_serve_ports = [], ws_net_links = [],
      ws_capture_links = [], ws_clipboard_links = [], ws_api_links = []\<rparr>"

subsection \<open>Derived ids and generated names\<close>

definition be_bytes :: "nat \<Rightarrow> 'a::len word \<Rightarrow> bytes" where
  "be_bytes n w = map (\<lambda>i. ucast (drop_bit (8 * (n - 1 - i)) w)) [0..<n]"

definition be_u128 :: "bytes \<Rightarrow> u128" where
  "be_u128 bs = foldl (\<lambda>w b. push_bit 8 w OR ucast b) 0 bs"

text \<open>\<open>b"..."\<close>.\<close>

definition byte_string :: "string \<Rightarrow> bytes" where
  "byte_string s = map of_char s"

definition derive_id :: "(bytes \<Rightarrow> bytes) \<Rightarrow> node_id \<Rightarrow> node_id \<Rightarrow> node_id" where
  "derive_id sha inst inner =
     be_u128 (take 16 (sha (byte_string ''wk/instance-node/v1'' @ be_bytes 16 inst @ be_bytes 16 inner)))"

definition qualities :: "string list" where
  "qualities =
     [''amber'', ''bright'', ''brisk'', ''calm'', ''clever'', ''cosy'', ''curious'', ''deep'', ''eager'', ''easy'',
      ''fair'', ''gentle'', ''glad'', ''keen'', ''kind'', ''lively'', ''lucky'', ''merry'', ''mild'', ''neat'', ''nimble'',
      ''patient'', ''plain'', ''quick'', ''quiet'', ''ready'', ''smooth'', ''soft'', ''steady'', ''sunny'', ''warm'',
      ''wise'']"

definition things :: "string list" where
  "things =
     [''anchor'', ''arbor'', ''basin'', ''beacon'', ''birch'', ''bluff'', ''brook'', ''canyon'', ''cedar'', ''cinder'',
      ''cliff'', ''comet'', ''cove'', ''creek'', ''delta'', ''dune'', ''ember'', ''fern'', ''fjord'', ''forge'',
      ''garden'', ''glade'', ''grove'', ''harbor'', ''haven'', ''hollow'', ''island'', ''jetty'', ''lagoon'',
      ''lantern'', ''ledge'', ''maple'', ''meadow'', ''meander'', ''mesa'', ''moor'', ''narrows'', ''orbit'',
      ''orchard'', ''pebble'', ''pier'', ''pine'', ''plateau'', ''prairie'', ''quarry'', ''rapids'', ''reef'', ''ridge'',
      ''river'', ''shoal'', ''signal'', ''spire'', ''spring'', ''summit'', ''terrace'', ''thicket'', ''tide'',
      ''trellis'', ''tundra'', ''valley'', ''vault'', ''wharf'', ''willow'', ''window'']"

definition generated :: "(bytes \<Rightarrow> bytes) \<Rightarrow> node_id \<Rightarrow> nat \<Rightarrow> string" where
  "generated sha i k =
     (let d = sha (byte_string ''wk:node-name:v1'' @ be_bytes 16 i @ be_bytes 8 (of_nat k :: u64))
      in qualities ! (unat (d ! 0) mod length qualities) @ ''-'' @ things ! (unat (d ! 1) mod length things))"

subsection \<open>Names of groups\<close>

fun is_group :: "snap_kind \<Rightarrow> bool" where
  "is_group (SkGroup d n i o1) = True"
| "is_group k = False"

text \<open>The walk \<open>(0..).map(generated).find(not taken)\<close>: it goes on for as long as the names are taken.\<close>

partial_function (option) name_walk :: "(bytes \<Rightarrow> bytes) \<Rightarrow> node_id \<Rightarrow> string list \<Rightarrow> nat \<Rightarrow> string option" where
  "name_walk sha i taken k =
     (let c = generated sha i k in if c \<in> set taken then name_walk sha i taken (k + 1) else Some c)"

declare name_walk.simps [code]

fun group_name :: "snap_kind \<Rightarrow> string option" where
  "group_name (SkGroup d n i o1) = n"
| "group_name k = None"

fun name_groups :: "(bytes \<Rightarrow> bytes) \<Rightarrow> node_snap list \<Rightarrow> string list \<Rightarrow> string list option" where
  "name_groups sha [] taken = Some taken"
| "name_groups sha (n # ns) taken =
     (case (case group_name (sn_kind n) of Some chosen \<Rightarrow> Some chosen | None \<Rightarrow> name_walk sha (sn_id n) taken 0) of
        None \<Rightarrow> None
      | Some c \<Rightarrow> name_groups sha ns (taken @ [c]))"

definition groups_in :: "node_snap list \<Rightarrow> node_snap list" where
  "groups_in canvas = filter (\<lambda>n. is_group (sn_kind n)) canvas"

definition local_names :: "(bytes \<Rightarrow> bytes) \<Rightarrow> node_snap list \<Rightarrow> string list option" where
  "local_names sha canvas = name_groups sha (groups_in canvas) []"

subsection \<open>Kinds\<close>

fun port_of :: "snap_kind \<Rightarrow> (port_dir \<times> string \<times> port_kind) option" where
  "port_of (SkInPort name kind) = Some (In, name, kind)"
| "port_of (SkOutPort name kind) = Some (Out, name, kind)"
| "port_of k = None"

fun class_of :: "snap_kind \<Rightarrow> node_class" where
  "class_of (SkVolume n p) = NcFile"
| "class_of (SkBindMount p) = NcFile"
| "class_of (SkPort p) = NcPort"
| "class_of (SkNet g) = NcNet"
| "class_of SkRouter = NcRouter"
| "class_of (SkIroh s p) = NcUplink"
| "class_of (SkVeilid s p) = NcUplink"
| "class_of (SkMulticast i g) = NcUplink"
| "class_of SkCapture = NcCapture"
| "class_of SkClipboard = NcClipboard"
| "class_of SkApi = NcApi"
| "class_of (SkMidiIn d) = NcMidiSource"
| "class_of (SkMidiOut d) = NcMidiSink"
| "class_of (SkHostService n t) = NcHostSvc"
| "class_of (SkInPort n k) = NcBoundary In k"
| "class_of (SkOutPort n k) = NcBoundary Out k"
| "class_of (SkGroup d n i o1) = NcInstance"
| "class_of (SkApp d n o1 a t) = NcOther"
| "class_of (SkNote t) = NcOther"

fun kind_word :: "snap_kind \<Rightarrow> string" where
  "kind_word (SkApp d n o1 a t) = ''node''"
| "kind_word (SkVolume n p) = ''volume''"
| "kind_word (SkBindMount p) = ''bindmount''"
| "kind_word (SkPort p) = ''hostport''"
| "kind_word (SkNet g) = (if g then ''gateway'' else ''network'')"
| "kind_word SkRouter = ''router''"
| "kind_word (SkIroh s p) = ''iroh''"
| "kind_word (SkVeilid s p) = ''veilid''"
| "kind_word (SkNote t) = ''note''"
| "kind_word SkCapture = ''capture''"
| "kind_word SkClipboard = ''clipboard''"
| "kind_word SkApi = ''api''"
| "kind_word (SkMidiIn d) = ''midiin''"
| "kind_word (SkMidiOut d) = ''midiout''"
| "kind_word (SkHostService n t) = ''hostservice''"
| "kind_word (SkMulticast i g) = ''multicast''"
| "kind_word (SkInPort n k) = ''inport''"
| "kind_word (SkOutPort n k) = ''outport''"
| "kind_word (SkGroup d n i o1) = ''group''"

subsection \<open>Errors and sites\<close>

datatype site_label = InWorkspace "string option" node_id | InDefinition string

datatype expand_error =
    TwoDefinitions string node_id node_id
  | ContainsItself site_label string "string list"
  | TooDeep site_label string "string list"
  | NamesATab site_label string
  | NoDefinition site_label string
  | TooManyInstances site_label string
  | PortIsSource site_label string port_dir string string
  | OtherEdge site_label string port_dir string
  | NoSuchPort site_label string port_dir string
  | NotOnCanvas site_label string port_dir string node_id
  | CannotReach site_label string port_dir string string port_kind

record site =
  st_tab :: node_id
  st_label :: site_label
  st_canvas :: "node_snap list"

record inst =
  in_id :: node_id
  in_definition :: string
  in_name :: string
  in_defined_in :: node_id
  in_tab :: node_id
  in_parent :: "node_id option"
  in_path :: "string list"
  in_content :: workspace

definition max_depth :: nat where
  "max_depth = 16"

definition max_instances :: nat where
  "max_instances = 4096"

fun definitions_loop :: "workspace list \<Rightarrow> (string \<rightharpoonup> workspace) \<Rightarrow> expand_error + (string \<rightharpoonup> workspace)" where
  "definitions_loop [] defs = Inr defs"
| "definitions_loop (w # ws) defs =
     (case ws_name w of
        None \<Rightarrow> definitions_loop ws defs
      | Some name \<Rightarrow>
          (case defs name of
             Some first \<Rightarrow> Inl (TwoDefinitions name (ws_id first) (ws_id w))
           | None \<Rightarrow> definitions_loop ws (defs(name \<mapsto> w))))"

definition definitions :: "document \<Rightarrow> expand_error + (string \<rightharpoonup> workspace)" where
  "definitions doc = definitions_loop (filter (\<lambda>w. \<not> ws_tab w) doc) Map.empty"


subsection \<open>Boundary ports\<close>

type_synonym port_names = "(port_dir \<times> string) \<rightharpoonup> (node_id \<times> port_kind)"
type_synonym port_bindings = "node_id \<rightharpoonup> node_id list"

text \<open>The ports of a definition in file order: direction, name, kind, derived id.\<close>

definition port_entries :: "(bytes \<Rightarrow> bytes) \<Rightarrow> node_id \<Rightarrow> node_snap list \<Rightarrow> (port_dir \<times> string \<times> port_kind \<times> node_id) list" where
  "port_entries sha i nodes =
     List.map_filter (\<lambda>n. map_option (\<lambda>(dir, name, kind). (dir, name, kind, derive_id sha i (sn_id n))) (port_of (sn_kind n))) nodes"

text \<open>The maps that are filled from them; a later entry for a key replaces an earlier one.\<close>

definition entry_id :: "port_dir \<times> string \<times> port_kind \<times> node_id \<Rightarrow> node_id" where
  "entry_id = (\<lambda>(dir, name, kind, d). d)"

definition ports_named :: "(port_dir \<times> string \<times> port_kind \<times> node_id) list \<Rightarrow> port_names" where
  "ports_named es = map_of (rev (map (\<lambda>(dir, name, kind, d). ((dir, name), (d, kind))) es))"

definition ports_by_id :: "(port_dir \<times> string \<times> port_kind \<times> node_id) list \<Rightarrow> (node_id \<rightharpoonup> port_dir \<times> string)" where
  "ports_by_id es = map_of (rev (map (\<lambda>(dir, name, kind, d). (d, (dir, name))) es))"

definition ports_unbound :: "(port_dir \<times> string \<times> port_kind \<times> node_id) list \<Rightarrow> port_bindings" where
  "ports_unbound es = map_of (map (\<lambda>e. (entry_id e, [])) es)"

definition unique_links :: "workspace \<Rightarrow> (string \<times> link list) list" where
  "unique_links def =
     [(''serve'', ws_serves def), (''netlink'', ws_net_links def), (''capturelink'', ws_capture_links def),
      (''clipboardlink'', ws_clipboard_links def), (''apilink'', ws_api_links def)]"

fun source_error ::
  "site_label \<Rightarrow> string \<Rightarrow> (node_id \<rightharpoonup> port_dir \<times> string) \<Rightarrow> (node_id \<Rightarrow> node_id) \<Rightarrow> (string \<times> node_id) list \<Rightarrow> expand_error option" where
  "source_error label d by_id idf [] = None"
| "source_error label d by_id idf ((word, src) # rest) =
     (case by_id (idf src) of
        Some (dir, name) \<Rightarrow> Some (PortIsSource label d dir name word)
      | None \<Rightarrow> source_error label d by_id idf rest)"

definition link_sources :: "workspace \<Rightarrow> (string \<times> node_id) list" where
  "link_sources def = concat (map (\<lambda>(word, links). map (\<lambda>(src, _). (word, src)) links) (unique_links def))"

fun bind_wires ::
  "site \<Rightarrow> string \<Rightarrow> (node_id \<Rightarrow> node_id list) \<Rightarrow> port_names \<Rightarrow> (port_dir \<times> string \<times> node_id) list \<Rightarrow> port_bindings \<Rightarrow>
     expand_error + port_bindings" where
  "bind_wires st d outer named [] ports = Inr ports"
| "bind_wires st d outer named ((dir, name, endpoint) # rest) ports =
     (case named (dir, name) of
        None \<Rightarrow>
          Inl (if named (opposite dir, name) \<noteq> None then OtherEdge (st_label st) d dir name
               else NoSuchPort (st_label st) d dir name)
      | Some (port, kind) \<Rightarrow>
          (case List.find (\<lambda>n. sn_id n = endpoint) (st_canvas st) of
             None \<Rightarrow> Inl (NotOnCanvas (st_label st) d dir name endpoint)
           | Some far \<Rightarrow>
               if classify endpoint port (class_of (sn_kind far)) (NcBoundary (opposite dir) kind) = None
               then Inl (CannotReach (st_label st) d dir name (kind_word (sn_kind far)) kind)
               else
                 bind_wires st d outer named rest
                   (ports(port \<mapsto> (case ports port of None \<Rightarrow> [] | Some xs \<Rightarrow> xs) @ outer endpoint))))"

definition boundary_lines :: "(string \<times> node_id) list \<Rightarrow> (string \<times> node_id) list \<Rightarrow> (port_dir \<times> string \<times> node_id) list" where
  "boundary_lines in_wires out_wires = map (Pair In) in_wires @ map (Pair Out) out_wires"

subsection \<open>The content of an instance\<close>

definition sub_id :: "(bytes \<Rightarrow> bytes) \<Rightarrow> node_id \<Rightarrow> port_bindings \<Rightarrow> node_id \<Rightarrow> node_id list" where
  "sub_id sha i ports inner =
     (let derived = derive_id sha i inner in case ports derived of Some bound \<Rightarrow> bound | None \<Rightarrow> [derived])"

definition link_pairs :: "(node_id \<Rightarrow> node_id list) \<Rightarrow> link list \<Rightarrow> link list" where
  "link_pairs sub links = concat (map (\<lambda>(a, b). concat (map (\<lambda>x. map (Pair x) (sub b)) (sub a))) links)"

definition keyed :: "(node_id \<Rightarrow> node_id list) \<Rightarrow> (link \<times> 'v) list \<Rightarrow> (link \<times> 'v) list" where
  "keyed sub src = fold (\<lambda>(l, v) out. fold (\<lambda>p m. bt_insert p v m) (link_pairs sub [l]) out) src []"

fun scoped_kind :: "string \<Rightarrow> snap_kind \<Rightarrow> snap_kind" where
  "scoped_kind name (SkApp dep (Some own) options args token) = SkApp dep (Some (name @ ''-'' @ own)) options args token"
| "scoped_kind name k = k"

definition inst_nodes :: "(bytes \<Rightarrow> bytes) \<Rightarrow> node_id \<Rightarrow> string \<Rightarrow> node_snap list \<Rightarrow> node_snap list" where
  "inst_nodes sha i name nodes =
     map (\<lambda>n. n\<lparr>sn_id := derive_id sha i (sn_id n), sn_kind := scoped_kind name (sn_kind n)\<rparr>)
       (filter (\<lambda>n. port_of (sn_kind n) = None) (filter (\<lambda>n. \<not> is_group (sn_kind n)) nodes))"

definition inst_content :: "(bytes \<Rightarrow> bytes) \<Rightarrow> node_id \<Rightarrow> string \<Rightarrow> (node_id \<Rightarrow> node_id list) \<Rightarrow> workspace \<Rightarrow> workspace" where
  "inst_content sha i name sub def =
     (workspace_new i)\<lparr>
       ws_nodes := inst_nodes sha i name (ws_nodes def),
       ws_mount_paths := keyed sub (ws_mount_paths def),
       ws_serve_ports := keyed sub (ws_serve_ports def),
       ws_connections := link_pairs sub (ws_connections def),
       ws_midi := link_pairs sub (ws_midi def),
       ws_serves := link_pairs sub (ws_serves def),
       ws_net_links := link_pairs sub (ws_net_links def),
       ws_capture_links := link_pairs sub (ws_capture_links def),
       ws_clipboard_links := link_pairs sub (ws_clipboard_links def),
       ws_api_links := link_pairs sub (ws_api_links def)\<rparr>"

subsection \<open>Expansion\<close>

text \<open>
  The checks and the boundary wiring of \<open>Expander::group\<close>, up to its recursion: the definition
  and what is bound to its ports.
\<close>

definition open_group ::
  "(bytes \<Rightarrow> bytes) \<Rightarrow> document \<Rightarrow> (string \<rightharpoonup> workspace) \<Rightarrow> site \<Rightarrow> node_id \<Rightarrow> string \<Rightarrow> (port_dir \<times> string \<times> node_id) list \<Rightarrow>
     (node_id \<Rightarrow> node_id list) \<Rightarrow> string list \<Rightarrow> inst list \<Rightarrow> expand_error + (workspace \<times> port_bindings)" where
  "open_group sha doc defs st i d lines outer path out =
     (if d \<in> set path then Inl (ContainsItself (st_label st) d (dropWhile (\<lambda>x. x \<noteq> d) path @ [d]))
      else if max_depth \<le> length path then Inl (TooDeep (st_label st) d path)
      else
        (case defs d of
           None \<Rightarrow>
             Inl (if \<exists>w \<in> set doc. ws_tab w \<and> ws_name w = Some d then NamesATab (st_label st) d
                  else NoDefinition (st_label st) d)
         | Some def \<Rightarrow>
             if max_instances \<le> length out then Inl (TooManyInstances (st_label st) d)
             else
               (let es = port_entries sha i (ws_nodes def)
                in
                (case source_error (st_label st) d (ports_by_id es) (derive_id sha i) (link_sources def) of
                   Some er \<Rightarrow> Inl er
                 | None \<Rightarrow>
                     (case bind_wires st d outer (ports_named es) lines (ports_unbound es) of
                        Inl er \<Rightarrow> Inl er
                      | Inr ports \<Rightarrow> Inr (def, ports))))))"

lemma open_group_depth: "open_group sha doc defs st i d lines outer path out = Inr r \<Longrightarrow> length path < max_depth"
  by (auto simp: open_group_def split: if_splits)

definition make_inst ::
  "(bytes \<Rightarrow> bytes) \<Rightarrow> site \<Rightarrow> node_id \<Rightarrow> node_id option \<Rightarrow> string \<Rightarrow> string \<Rightarrow> string list \<Rightarrow> workspace \<Rightarrow> port_bindings \<Rightarrow> inst" where
  "make_inst sha st i parent d name path def ports =
     \<lparr>in_id = i, in_definition = d, in_name = name, in_defined_in = ws_id def, in_tab = st_tab st, in_parent = parent,
      in_path = path, in_content = inst_content sha i name (sub_id sha i ports) def\<rparr>"

type_synonym job = "node_snap \<times> node_id \<times> string"

definition nested_jobs :: "(bytes \<Rightarrow> bytes) \<Rightarrow> node_id \<Rightarrow> string \<Rightarrow> node_snap list \<Rightarrow> string list \<Rightarrow> job list" where
  "nested_jobs sha i name nodes names =
     map (\<lambda>(n, l). (n, derive_id sha i (sn_id n), name @ ''-'' @ l)) (zip (groups_in nodes) names)"

function expand_group ::
  "(bytes \<Rightarrow> bytes) \<Rightarrow> document \<Rightarrow> (string \<rightharpoonup> workspace) \<Rightarrow> site \<Rightarrow> node_id option \<Rightarrow> (node_id \<Rightarrow> node_id list) \<Rightarrow>
     string list \<Rightarrow> job \<Rightarrow> inst list \<Rightarrow> (expand_error + inst list) option"
and expand_groups ::
  "(bytes \<Rightarrow> bytes) \<Rightarrow> document \<Rightarrow> (string \<rightharpoonup> workspace) \<Rightarrow> site \<Rightarrow> node_id option \<Rightarrow> (node_id \<Rightarrow> node_id list) \<Rightarrow>
     string list \<Rightarrow> job list \<Rightarrow> inst list \<Rightarrow> (expand_error + inst list) option"
where
  "expand_group sha doc defs st parent outer path (node, i, name) out =
     (case sn_kind node of
        SkGroup d _ in_wires out_wires \<Rightarrow>
          (case open_group sha doc defs st i d (boundary_lines in_wires out_wires) outer path out of
             Inl er \<Rightarrow> Some (Inl er)
           | Inr (def, ports) \<Rightarrow>
               (case local_names sha (ws_nodes def) of
                  None \<Rightarrow> None
                | Some names \<Rightarrow>
                    expand_groups sha doc defs
                      \<lparr>st_tab = st_tab st, st_label = InDefinition d, st_canvas = ws_nodes def\<rparr>
                      (Some i) (sub_id sha i ports) (path @ [d]) (nested_jobs sha i name (ws_nodes def) names)
                      (out @ [make_inst sha st i parent d name (path @ [d]) def ports])))
      | _ \<Rightarrow> Some (Inr out))"
| "expand_groups sha doc defs st parent outer path [] out = Some (Inr out)"
| "expand_groups sha doc defs st parent outer path (j # js) out =
     (case expand_group sha doc defs st parent outer path j out of
        None \<Rightarrow> None
      | Some (Inl er) \<Rightarrow> Some (Inl er)
      | Some (Inr out') \<Rightarrow> expand_groups sha doc defs st parent outer path js out')"
  by pat_completeness auto

termination
  by (relation "measures
      [(\<lambda>x. case x of Inl (sha, doc, defs, st, parent, outer, path, j, out) \<Rightarrow> 2 * (max_depth + 1 - length path)
                    | Inr (sha, doc, defs, st, parent, outer, path, js, out) \<Rightarrow> 2 * (max_depth + 1 - length path) + 1),
       (\<lambda>x. case x of Inl _ \<Rightarrow> 0 | Inr (sha, doc, defs, st, parent, outer, path, js, out) \<Rightarrow> length js)]")
    (auto dest: open_group_depth)

definition tab_site :: "workspace \<Rightarrow> site" where
  "tab_site w = \<lparr>st_tab = ws_id w, st_label = InWorkspace (ws_name w) (ws_id w), st_canvas = ws_nodes w\<rparr>"

fun expand_tabs ::
  "(bytes \<Rightarrow> bytes) \<Rightarrow> document \<Rightarrow> (string \<rightharpoonup> workspace) \<Rightarrow> workspace list \<Rightarrow> inst list \<Rightarrow> (expand_error + inst list) option" where
  "expand_tabs sha doc defs [] out = Some (Inr out)"
| "expand_tabs sha doc defs (w # ws) out =
     (case local_names sha (ws_nodes w) of
        None \<Rightarrow> None
      | Some names \<Rightarrow>
          (case expand_groups sha doc defs (tab_site w) None (\<lambda>i. [i]) []
                  (map (\<lambda>(n, l). (n, sn_id n, l)) (zip (groups_in (ws_nodes w)) names)) out of
             None \<Rightarrow> None
           | Some (Inl er) \<Rightarrow> Some (Inl er)
           | Some (Inr out') \<Rightarrow> expand_tabs sha doc defs ws out'))"

definition expand :: "(bytes \<Rightarrow> bytes) \<Rightarrow> document \<Rightarrow> (expand_error + inst list) option" where
  "expand sha doc =
     (case definitions doc of
        Inl er \<Rightarrow> Some (Inl er)
      | Inr defs \<Rightarrow> expand_tabs sha doc defs (filter ws_tab doc) [])"


subsection \<open>What an expansion is\<close>

text \<open>
  Parents first: every instance of the list is written in a place (the id of the containing
  instance, its path) that is given or that an earlier instance of the list opens.
\<close>

fun placed :: "(node_id option \<times> string list) set \<Rightarrow> inst list \<Rightarrow> bool" where
  "placed S [] = True"
| "placed S (x # xs) =
     ((in_parent x, butlast (in_path x)) \<in> S \<and> placed (insert (Some (in_id x), in_path x) S) xs)"

definition opened :: "inst list \<Rightarrow> (node_id option \<times> string list) set" where
  "opened xs = (\<lambda>x. (Some (in_id x), in_path x)) ` set xs"

lemma opened_simps [simp]:
  "opened [] = {}" "opened (x # xs) = insert (Some (in_id x), in_path x) (opened xs)" "opened (xs @ ys) = opened xs \<union> opened ys"
  by (auto simp: opened_def)

lemma placed_mono: "placed S xs \<Longrightarrow> S \<subseteq> T \<Longrightarrow> placed T xs"
  by (induction xs arbitrary: S T) (auto, meson insert_mono)

lemma placed_append: "placed S (xs @ ys) \<longleftrightarrow> placed S xs \<and> placed (opened xs \<union> S) ys"
  by (induction xs arbitrary: S) auto

text \<open>An instance is its definition, at a place without repetition, with the content that its ports' bindings give.\<close>

definition inst_ok :: "(bytes \<Rightarrow> bytes) \<Rightarrow> (string \<rightharpoonup> workspace) \<Rightarrow> node_id \<Rightarrow> inst \<Rightarrow> bool" where
  "inst_ok sha defs tab x =
     (\<exists>def ports. defs (in_definition x) = Some def \<and> in_defined_in x = ws_id def \<and> in_tab x = tab \<and>
        in_path x \<noteq> [] \<and> last (in_path x) = in_definition x \<and> distinct (in_path x) \<and> length (in_path x) \<le> max_depth \<and>
        in_content x = inst_content sha (in_id x) (in_name x) (sub_id sha (in_id x) ports) def)"

text \<open>The groups of a canvas each have their instance.\<close>

definition answers :: "job \<Rightarrow> node_id option \<Rightarrow> string list \<Rightarrow> inst \<Rightarrow> bool" where
  "answers j parent path y =
     (case j of (n, i, name) \<Rightarrow> in_id y = i \<and> in_name y = name \<and> in_parent y = parent \<and>
        (\<exists>d g iw ow. sn_kind n = SkGroup d g iw ow \<and> in_path y = path @ [d]))"

definition complete :: "(bytes \<Rightarrow> bytes) \<Rightarrow> (string \<rightharpoonup> workspace) \<Rightarrow> inst list \<Rightarrow> inst \<Rightarrow> bool" where
  "complete sha defs xs x =
     (\<exists>def names. defs (in_definition x) = Some def \<and> local_names sha (ws_nodes def) = Some names \<and>
        (\<forall>j \<in> set (nested_jobs sha (in_id x) (in_name x) (ws_nodes def) names).
           \<exists>y \<in> set xs. answers j (Some (in_id x)) (in_path x) y))"

definition grown ::
  "(bytes \<Rightarrow> bytes) \<Rightarrow> (string \<rightharpoonup> workspace) \<Rightarrow> node_id \<Rightarrow> node_id option \<Rightarrow> string list \<Rightarrow> job list \<Rightarrow> inst list \<Rightarrow> inst list \<Rightarrow> bool" where
  "grown sha defs tab parent path js out out' =
     (\<exists>new. out' = out @ new \<and> placed {(parent, path)} new \<and> list_all (inst_ok sha defs tab) new \<and>
        list_all (complete sha defs new) new \<and> (\<forall>j \<in> set js. \<exists>y \<in> set new. answers j parent path y) \<and>
        (length out \<le> max_instances \<longrightarrow> length out' \<le> max_instances))"

lemma complete_mono: "complete sha defs xs x \<Longrightarrow> set xs \<subseteq> set ys \<Longrightarrow> complete sha defs ys x"
  by (simp add: complete_def) (meson subsetD)

lemma grown_Nil: "grown sha defs tab parent path [] out out"
  by (simp add: grown_def)

lemma grown_append:
  assumes "grown sha defs tab parent path js out out1" and "grown sha defs tab parent path ks out1 out2"
  shows "grown sha defs tab parent path (js @ ks) out out2"
proof -
  from assms(1) obtain n1 where 1: "out1 = out @ n1" "placed {(parent, path)} n1" "list_all (inst_ok sha defs tab) n1"
      "list_all (complete sha defs n1) n1" "\<forall>j \<in> set js. \<exists>y \<in> set n1. answers j parent path y"
      "length out \<le> max_instances \<longrightarrow> length out1 \<le> max_instances"
    by (auto simp: grown_def)
  from assms(2) obtain n2 where 2: "out2 = out1 @ n2" "placed {(parent, path)} n2" "list_all (inst_ok sha defs tab) n2"
      "list_all (complete sha defs n2) n2" "\<forall>j \<in> set ks. \<exists>y \<in> set n2. answers j parent path y"
      "length out1 \<le> max_instances \<longrightarrow> length out2 \<le> max_instances"
    by (auto simp: grown_def)
  have "placed (opened n1 \<union> {(parent, path)}) n2" by (rule placed_mono [OF 2(2)]) auto
  moreover have "list_all (complete sha defs (n1 @ n2)) (n1 @ n2)"
    using 1(4) 2(4) complete_mono [of sha defs _ _ "n1 @ n2"] by (auto simp: list_all_iff)
  ultimately show ?thesis
    unfolding grown_def using 1 2 by (intro exI [of _ "n1 @ n2"]) (auto simp: placed_append)
qed

lemma open_group_ok:
  assumes "open_group sha doc defs st i d lines outer path out = Inr (def, ports)"
  shows "d \<notin> set path" "length path < max_depth" "defs d = Some def" "length out < max_instances"
  using assms by (auto simp: open_group_def Let_def split: if_splits option.splits sum.splits)

lemma grown_under:
  assumes op: "open_group sha doc defs st i d lines outer path out = Inr (def, ports)" and "distinct path"
    and names: "local_names sha (ws_nodes def) = Some names"
    and kind: "sn_kind node = SkGroup d g iw ow"
    and below: "grown sha defs (st_tab st) (Some i) (path @ [d]) (nested_jobs sha i name (ws_nodes def) names)
       (out @ [make_inst sha st i parent d name (path @ [d]) def ports]) out'"
  shows "grown sha defs (st_tab st) parent path [(node, i, name)] out out'"
proof -
  let ?x = "make_inst sha st i parent d name (path @ [d]) def ports"
  note O = open_group_ok [OF op]
  from below obtain new where n: "out' = out @ ?x # new" "placed {(Some i, path @ [d])} new"
      "list_all (inst_ok sha defs (st_tab st)) new" "list_all (complete sha defs new) new"
      "\<forall>j \<in> set (nested_jobs sha i name (ws_nodes def) names). \<exists>y \<in> set new. answers j (Some i) (path @ [d]) y"
      "length (out @ [?x]) \<le> max_instances \<longrightarrow> length out' \<le> max_instances"
    by (auto simp: grown_def)
  have "inst_ok sha defs (st_tab st) ?x"
    using O assms(2) by (auto simp: inst_ok_def make_inst_def)
  moreover have "complete sha defs (?x # new) ?x"
    using O(3) names n(5) by (auto simp: complete_def make_inst_def)
  moreover have "list_all (complete sha defs (?x # new)) new"
    using n(4) complete_mono [of sha defs new _ "?x # new"] by (auto simp: list_all_iff)
  moreover have "placed {(parent, path)} (?x # new)"
    using placed_mono [OF n(2), of "{(Some i, path @ [d]), (parent, path)}"] by (simp add: make_inst_def)
  moreover have "answers (node, i, name) parent path ?x"
    by (simp add: answers_def make_inst_def kind)
  ultimately show ?thesis
    unfolding grown_def using n O(4) by (intro exI [of _ "?x # new"]) auto
qed

definition jobs_ok :: "job list \<Rightarrow> bool" where
  "jobs_ok js = (\<forall>(n, i, name) \<in> set js. is_group (sn_kind n))"

lemma nested_jobs_ok: "jobs_ok (nested_jobs sha i name nodes names)"
  by (auto simp: jobs_ok_def nested_jobs_def groups_in_def dest: set_zip_leftD)

lemma expand_grown:
  shows "\<lbrakk>expand_group sha doc defs st parent outer path j out = Some (Inr out'); distinct path; jobs_ok [j]\<rbrakk> \<Longrightarrow>
      grown sha defs (st_tab st) parent path [j] out out'"
    and "\<lbrakk>expand_groups sha doc defs st parent outer path js out = Some (Inr out'); distinct path; jobs_ok js\<rbrakk> \<Longrightarrow>
      grown sha defs (st_tab st) parent path js out out'"
proof (induction sha doc defs st parent outer path j out and sha doc defs st parent outer path js out
    arbitrary: out' and out' rule: expand_group_expand_groups.induct)
  case (1 sha doc defs st parent outer path node i name out)
  obtain d g iw ow where k: "sn_kind node = SkGroup d g iw ow"
    using "1.prems"(3) by (cases "sn_kind node") (auto simp: jobs_ok_def)
  obtain def ports where op: "open_group sha doc defs st i d (boundary_lines iw ow) outer path out = Inr (def, ports)"
    using "1.prems"(1) k by (auto split: sum.splits)
  obtain names where nm: "local_names sha (ws_nodes def) = Some names"
    using "1.prems"(1) k op by (auto split: option.splits)
  have "distinct (path @ [d])" using open_group_ok [OF op] "1.prems"(2) by simp
  with "1.IH" [OF k op refl nm _ _ nested_jobs_ok] "1.prems"(1)
  show ?case by (intro grown_under [OF op "1.prems"(2) nm k]) (simp add: k op nm)
next
  case (2 sha doc defs st parent outer path out)
  then show ?case by (simp add: grown_Nil)
next
  case (3 sha doc defs st parent outer path j js out)
  then obtain out1 where "expand_group sha doc defs st parent outer path j out = Some (Inr out1)"
      "expand_groups sha doc defs st parent outer path js out1 = Some (Inr out')"
    by (auto split: option.splits sum.splits)
  then show ?case
    using "3.IH" "3.prems"(2,3) grown_append [of sha defs "st_tab st" parent path "[j]" out out1 js out']
    by (auto simp: jobs_ok_def)
qed


definition tab_jobs :: "workspace \<Rightarrow> string list \<Rightarrow> job list" where
  "tab_jobs w names = map (\<lambda>(n, l). (n, sn_id n, l)) (zip (groups_in (ws_nodes w)) names)"

definition tabs_grown ::
  "(bytes \<Rightarrow> bytes) \<Rightarrow> (string \<rightharpoonup> workspace) \<Rightarrow> workspace list \<Rightarrow> inst list \<Rightarrow> inst list \<Rightarrow> bool" where
  "tabs_grown sha defs ws out out' =
     (\<exists>new. out' = out @ new \<and> placed {(None, [])} new \<and>
        list_all (\<lambda>x. \<exists>w \<in> set ws. inst_ok sha defs (ws_id w) x) new \<and> list_all (complete sha defs new) new \<and>
        (\<forall>w \<in> set ws. \<exists>names. local_names sha (ws_nodes w) = Some names \<and>
           (\<forall>j \<in> set (tab_jobs w names). \<exists>y \<in> set new. answers j None [] y \<and> in_tab y = ws_id w)) \<and>
        (length out \<le> max_instances \<longrightarrow> length out' \<le> max_instances))"

lemma inst_ok_tab: "inst_ok sha defs tab x \<Longrightarrow> in_tab x = tab"
  by (auto simp: inst_ok_def)

lemma tab_jobs_ok: "jobs_ok (tab_jobs w names)"
  by (auto simp: jobs_ok_def tab_jobs_def groups_in_def dest: set_zip_leftD)

lemma tabs_grown_Cons:
  assumes names: "local_names sha (ws_nodes w) = Some names"
    and one: "grown sha defs (ws_id w) None [] (tab_jobs w names) out out1" and rest: "tabs_grown sha defs ws out1 out2"
  shows "tabs_grown sha defs (w # ws) out out2"
proof -
  from one obtain n1 where 1: "out1 = out @ n1" "placed {(None, [])} n1" "list_all (inst_ok sha defs (ws_id w)) n1"
      "list_all (complete sha defs n1) n1" "\<forall>j \<in> set (tab_jobs w names). \<exists>y \<in> set n1. answers j None [] y"
      "length out \<le> max_instances \<longrightarrow> length out1 \<le> max_instances"
    by (auto simp: grown_def)
  from rest obtain n2 where 2: "out2 = out1 @ n2" "placed {(None, [])} n2"
      "list_all (\<lambda>x. \<exists>w \<in> set ws. inst_ok sha defs (ws_id w) x) n2" "list_all (complete sha defs n2) n2"
      "\<forall>w \<in> set ws. \<exists>names. local_names sha (ws_nodes w) = Some names \<and>
           (\<forall>j \<in> set (tab_jobs w names). \<exists>y \<in> set n2. answers j None [] y \<and> in_tab y = ws_id w)"
      "length out1 \<le> max_instances \<longrightarrow> length out2 \<le> max_instances"
    by (auto simp: tabs_grown_def)
  have "placed {(None, [])} (n1 @ n2)"
    using 1(2) placed_mono [OF 2(2), of "opened n1 \<union> {(None, [])}"] by (simp add: placed_append)
  moreover have "list_all (complete sha defs (n1 @ n2)) (n1 @ n2)"
    using 1(4) 2(4) complete_mono [of sha defs _ _ "n1 @ n2"] by (auto simp: list_all_iff)
  moreover have "list_all (\<lambda>x. \<exists>w' \<in> set (w # ws). inst_ok sha defs (ws_id w') x) (n1 @ n2)"
    using 1(3) 2(3) by (auto simp: list_all_iff)
  moreover have "\<exists>y \<in> set (n1 @ n2). answers j None [] y \<and> in_tab y = ws_id w" if "j \<in> set (tab_jobs w names)" for j
  proof -
    from 1(5) that have "\<exists>y \<in> set n1. answers j None [] y" by (rule bspec)
    then obtain y where "y \<in> set n1" "answers j None [] y" by (rule bexE)
    moreover have "inst_ok sha defs (ws_id w) y" using 1(3) \<open>y \<in> set n1\<close> by (simp add: list_all_iff)
    then have "in_tab y = ws_id w" by (rule inst_ok_tab)
    ultimately show ?thesis by auto
  qed
  moreover have "\<forall>w' \<in> set ws. \<exists>names. local_names sha (ws_nodes w') = Some names \<and>
      (\<forall>j \<in> set (tab_jobs w' names). \<exists>y \<in> set (n1 @ n2). answers j None [] y \<and> in_tab y = ws_id w')"
  proof
    fix w' assume "w' \<in> set ws"
    then obtain ns where "local_names sha (ws_nodes w') = Some ns"
        "\<forall>j \<in> set (tab_jobs w' ns). \<exists>y \<in> set n2. answers j None [] y \<and> in_tab y = ws_id w'"
      using 2(5) by blast
    then show "\<exists>names. local_names sha (ws_nodes w') = Some names \<and>
        (\<forall>j \<in> set (tab_jobs w' names). \<exists>y \<in> set (n1 @ n2). answers j None [] y \<and> in_tab y = ws_id w')"
      by (intro exI [of _ ns]) auto
  qed
  ultimately show ?thesis
    unfolding tabs_grown_def using 1(1,6) 2(1,6) names by (intro exI [of _ "n1 @ n2"]) auto
qed

lemma expand_tabs_grown: "expand_tabs sha doc defs ws out = Some (Inr out') \<Longrightarrow> tabs_grown sha defs ws out out'"
proof (induction sha doc defs ws out rule: expand_tabs.induct)
  case (1 sha doc defs out)
  then show ?case by (simp add: tabs_grown_def)
next
  case (2 sha doc defs w ws out)
  obtain names where n: "local_names sha (ws_nodes w) = Some names" using "2.prems" by (auto split: option.splits)
  obtain out1 where o: "expand_groups sha doc defs (tab_site w) None (\<lambda>i. [i]) [] (tab_jobs w names) out = Some (Inr out1)"
      "expand_tabs sha doc defs ws out1 = Some (Inr out')"
    using "2.prems" n by (auto simp: tab_jobs_def split: option.splits sum.splits)
  have "grown sha defs (ws_id w) None [] (tab_jobs w names) out out1"
    using expand_grown(2) [OF o(1) _ tab_jobs_ok] by (simp add: tab_site_def)
  moreover have "tabs_grown sha defs ws out1 out'"
    using "2.IH" [OF n o(1) [unfolded tab_jobs_def] refl o(2)] .
  ultimately show ?case by (rule tabs_grown_Cons [OF n])
qed

lemma expand_result:
  assumes "expand sha doc = Some (Inr insts)"
  obtains defs where "definitions doc = Inr defs" "tabs_grown sha defs (filter ws_tab doc) [] insts"
  using assms expand_tabs_grown by (auto simp: expand_def split: sum.splits)

text \<open>One definition contains another when it has a group of it.\<close>

definition contains :: "(string \<rightharpoonup> workspace) \<Rightarrow> (string \<times> string) set" where
  "contains defs = {(d, e). \<exists>def n g iw ow. defs d = Some def \<and> n \<in> set (groups_in (ws_nodes def)) \<and> sn_kind n = SkGroup e g iw ow}"

lemma name_groups_length: "name_groups sha ns taken = Some names \<Longrightarrow> length names = length taken + length ns"
  by (induction sha ns taken arbitrary: names rule: name_groups.induct) (auto split: option.splits)

lemma job_of_group:
  assumes "n \<in> set (groups_in nodes)" and "local_names sha nodes = Some names"
  shows "\<exists>l. (n, l) \<in> set (zip (groups_in nodes) names)"
proof -
  have "length names = length (groups_in nodes)"
    using name_groups_length [OF assms(2) [unfolded local_names_def]] by simp
  then show ?thesis using assms(1) by (auto simp: in_set_conv_nth set_zip)
qed

lemma contained_below:
  assumes "list_all (complete sha defs xs) xs" and "x \<in> set xs" and "(in_definition x, e) \<in> contains defs"
  shows "\<exists>y \<in> set xs. in_path y = in_path x @ [e]"
proof -
  obtain def n g iw ow where c: "defs (in_definition x) = Some def" "n \<in> set (groups_in (ws_nodes def))" "sn_kind n = SkGroup e g iw ow"
    using assms(3) by (auto simp: contains_def)
  obtain names where nm: "local_names sha (ws_nodes def) = Some names"
      "\<forall>j \<in> set (nested_jobs sha (in_id x) (in_name x) (ws_nodes def) names). \<exists>y \<in> set xs. answers j (Some (in_id x)) (in_path x) y"
    using assms(1,2) c(1) by (auto simp: list_all_iff complete_def)
  obtain l where "(n, l) \<in> set (zip (groups_in (ws_nodes def)) names)" using job_of_group [OF c(2) nm(1)] by blast
  then have "(n, derive_id sha (in_id x) (sn_id n), in_name x @ ''-'' @ l) \<in> set (nested_jobs sha (in_id x) (in_name x) (ws_nodes def) names)"
    by (force simp: nested_jobs_def)
  with nm(2) obtain y where "y \<in> set xs" "answers (n, derive_id sha (in_id x) (sn_id n), in_name x @ ''-'' @ l) (Some (in_id x)) (in_path x) y"
    by blast
  then show ?thesis using c(3) by (auto simp: answers_def)
qed

lemma contained_below_trans:
  assumes "list_all (complete sha defs xs) xs" and "x \<in> set xs" and "(in_definition x, e) \<in> (contains defs)\<^sup>+"
    and "\<forall>y \<in> set xs. in_path y \<noteq> [] \<and> last (in_path y) = in_definition y"
  shows "\<exists>y \<in> set xs. \<exists>q. in_path y = in_path x @ q @ [e]"
  using assms(3)
proof (induction rule: trancl_induct)
  case (base e)
  then show ?case using contained_below [OF assms(1,2)] by (metis append_Nil)
next
  case (step e f)
  then obtain y q where y: "y \<in> set xs" "in_path y = in_path x @ q @ [e]" by blast
  then have "in_definition y = e" using assms(4) by (metis append_is_Nil_conv last_appendR last_snoc snoc_eq_iff_butlast)
  then obtain z where "z \<in> set xs" "in_path z = in_path y @ [f]" using contained_below [OF assms(1) y(1)] step(2) by blast
  then show ?case using y(2) by (intro bexI [of _ z] exI [of _ "q @ [e]"]) auto
qed


subsection \<open>The collapse of boundary wires\<close>

text \<open>The endpoints that the lines of a group bind to a port.\<close>

definition lines_to :: "port_names \<Rightarrow> node_id \<Rightarrow> (port_dir \<times> string \<times> node_id) list \<Rightarrow> node_id list" where
  "lines_to named p lines =
     map (\<lambda>(dir, name, e). e) (filter (\<lambda>(dir, name, e). map_option fst (named (dir, name)) = Some p) lines)"

lemma lines_to_simps [simp]:
  "lines_to named p [] = []"
  "lines_to named p ((dir, name, e) # lines) =
     (if map_option fst (named (dir, name)) = Some p then e # lines_to named p lines else lines_to named p lines)"
  by (simp_all add: lines_to_def)

lemma bind_wires_step:
  assumes "bind_wires st d outer named ((dir, name, e) # lines) ports = Inr ports'"
  obtains port kind where "named (dir, name) = Some (port, kind)"
    "bind_wires st d outer named lines (ports(port \<mapsto> (case ports port of None \<Rightarrow> [] | Some xs \<Rightarrow> xs) @ outer e)) = Inr ports'"
  using assms by (auto split: option.splits if_splits)

lemma bind_wires_bindings:
  "bind_wires st d outer named lines ports = Inr ports' \<Longrightarrow> ports p = Some xs \<Longrightarrow>
     ports' p = Some (xs @ concat (map outer (lines_to named p lines)))"
proof (induction lines arbitrary: ports xs)
  case (Cons l lines)
  obtain dir name e where l: "l = (dir, name, e)" by (cases l)
  obtain port kind where n: "named (dir, name) = Some (port, kind)"
    "bind_wires st d outer named lines (ports(port \<mapsto> (case ports port of None \<Rightarrow> [] | Some xs \<Rightarrow> xs) @ outer e)) = Inr ports'"
    using Cons.prems(1) l bind_wires_step by metis
  show ?case
    using Cons.IH [OF n(2), of "if port = p then xs @ outer e else xs"] Cons.prems(2) n(1) by (simp add: l split: if_splits)
qed simp

lemma bind_wires_dom:
  "bind_wires st d outer named lines ports = Inr ports' \<Longrightarrow> fst ` ran named \<subseteq> dom ports \<Longrightarrow> dom ports' = dom ports"
proof (induction lines arbitrary: ports)
  case (Cons l lines)
  obtain dir name e where l: "l = (dir, name, e)" by (cases l)
  obtain port kind where n: "named (dir, name) = Some (port, kind)"
    "bind_wires st d outer named lines (ports(port \<mapsto> (case ports port of None \<Rightarrow> [] | Some xs \<Rightarrow> xs) @ outer e)) = Inr ports'"
    using Cons.prems(1) l bind_wires_step by metis
  have "port \<in> dom ports" using Cons.prems(2) n(1) by (metis (no_types) fst_conv image_subset_iff ranI)
  then have d: "dom (ports(port \<mapsto> (case ports port of None \<Rightarrow> [] | Some xs \<Rightarrow> xs) @ outer e)) = dom ports"
    by (simp only: dom_fun_upd) auto
  show ?case using Cons.IH [OF n(2)] Cons.prems(2) unfolding d by blast
qed simp

definition port_ids :: "(bytes \<Rightarrow> bytes) \<Rightarrow> node_id \<Rightarrow> workspace \<Rightarrow> node_id set" where
  "port_ids sha i def = entry_id ` set (port_entries sha i (ws_nodes def))"

lemma ports_named_ran: "fst ` ran (ports_named es) \<subseteq> entry_id ` set es"
proof -
  have "ran (ports_named es) \<subseteq> snd ` set (map (\<lambda>(dir, name, kind, d). ((dir, name), (d, kind))) es)"
    unfolding ports_named_def by (force simp: ran_def dest!: map_of_SomeD)
  then show ?thesis by (force simp: entry_id_def)
qed

lemma ports_unbound_dom: "dom (ports_unbound es) = entry_id ` set es"
  by (simp add: ports_unbound_def dom_map_of_conv_image_fst image_image)

lemma ports_unbound_Nil: "p \<in> entry_id ` set es \<Longrightarrow> ports_unbound es p = Some []"
  unfolding ports_unbound_def by (induction es) auto

text \<open>The live nodes that an id inside a definition stands for.\<close>

definition live_ids ::
  "(bytes \<Rightarrow> bytes) \<Rightarrow> node_id \<Rightarrow> workspace \<Rightarrow> (node_id \<Rightarrow> node_id list) \<Rightarrow> (port_dir \<times> string \<times> node_id) list \<Rightarrow> node_id \<Rightarrow> node_id set" where
  "live_ids sha i def outer lines a =
     (let derived = derive_id sha i a
      in if derived \<in> port_ids sha i def
         then \<Union>(set ` outer ` set (lines_to (ports_named (port_entries sha i (ws_nodes def))) derived lines))
         else {derived})"

lemma open_group_live:
  assumes "open_group sha doc defs st i d lines outer path out = Inr (def, ports)"
  shows "set (sub_id sha i ports a) = live_ids sha i def outer lines a"
proof -
  let ?es = "port_entries sha i (ws_nodes def)" and ?p = "derive_id sha i a"
  have b: "bind_wires st d outer (ports_named ?es) lines (ports_unbound ?es) = Inr ports"
    using assms by (auto simp: open_group_def Let_def split: if_splits option.splits sum.splits)
  have "fst ` ran (ports_named ?es) \<subseteq> dom (ports_unbound ?es)"
    by (simp add: ports_named_ran ports_unbound_dom)
  then have dom: "dom ports = port_ids sha i def" using bind_wires_dom [OF b] by (simp add: ports_unbound_dom port_ids_def)
  show ?thesis
  proof (cases "?p \<in> port_ids sha i def")
    case True
    then have "ports_unbound ?es ?p = Some []" by (intro ports_unbound_Nil) (simp add: port_ids_def)
    from bind_wires_bindings [OF b this] True show ?thesis by (simp add: sub_id_def live_ids_def image_image)
  next
    case False
    then have "ports ?p = None" using dom by auto
    with False show ?thesis by (simp add: sub_id_def live_ids_def)
  qed
qed

lemma set_link_pairs: "set (link_pairs sub links) = {(x, y). \<exists>(a, b) \<in> set links. x \<in> set (sub a) \<and> y \<in> set (sub b)}"
  by (fastforce simp: link_pairs_def)


subsection \<open>Generated names\<close>

definition name_pool :: "string set" where
  "name_pool = (\<lambda>(q, t). q @ ''-'' @ t) ` (set qualities \<times> set things)"

lemma generated_in_pool: "generated sha i k \<in> name_pool"
proof -
  have "qualities ! (m mod length qualities) \<in> set qualities" "things ! (m mod length things) \<in> set things" for m
    by (rule nth_mem, simp add: qualities_def, rule nth_mem, simp add: things_def)
  then show ?thesis by (auto simp: generated_def name_pool_def Let_def)
qed

lemma card_name_pool: "finite name_pool" "card name_pool \<le> 2048"
proof -
  show "finite name_pool" by (simp add: name_pool_def)
  have "card (set qualities) \<le> 32" "card (set things) \<le> 64"
    using card_length [of qualities] card_length [of things] by (simp_all add: qualities_def things_def)
  then have "card (set qualities) * card (set things) \<le> 32 * 64" by (rule mult_le_mono)
  then have "card (set qualities \<times> set things) \<le> 32 * 64" by (simp add: card_cartesian_product)
  moreover have "card name_pool \<le> card (set qualities \<times> set things)"
    unfolding name_pool_def by (rule card_image_le) simp
  ultimately show "card name_pool \<le> 2048" by simp
qed

lemma name_walk_free: "name_walk sha i taken k = Some c \<Longrightarrow> c \<notin> set taken \<and> c \<in> name_pool"
  using generated_in_pool
  by (rule_tac name_walk.raw_induct [of "\<lambda>sha i taken k c. c \<notin> set taken \<and> c \<in> name_pool" sha i taken k c])
    (auto simp: Let_def split: if_splits)

lemma name_groups_distinct:
  "name_groups sha ns taken = Some names \<Longrightarrow> \<forall>n \<in> set ns. group_name (sn_kind n) = None \<Longrightarrow>
     distinct taken \<and> set taken \<subseteq> name_pool \<Longrightarrow> distinct names \<and> set names \<subseteq> name_pool"
proof (induction sha ns taken rule: name_groups.induct)
  case (2 sha n ns taken)
  obtain c where c: "name_walk sha (sn_id n) taken 0 = Some c" "name_groups sha ns (taken @ [c]) = Some names"
    using "2.prems"(1,2) by (auto split: option.splits)
  then show ?case using "2.IH" [of c] name_walk_free [OF c(1)] "2.prems"(2,3) by auto
qed simp


subsection \<open>Properties\<close>

text \<open>
  C7: A successful expansion is sound and bounded. There are at most 4096 instances; each is an
  instance of a definition of the document, in a tab of it, at a nesting of at most 16 definitions
  none of which repeats, and ends the chain of names that leads to it; and instances come in an
  order in which each one's containing instance is before it.
\<close>

theorem expansion_is_sound:
  assumes "expand sha doc = Some (Inr insts)"
  shows "length insts \<le> 4096 \<and> placed {(None, [])} insts \<and>
    (\<exists>defs. definitions doc = Inr defs \<and>
      (\<forall>x \<in> set insts. \<exists>def. defs (in_definition x) = Some def \<and> in_defined_in x = ws_id def \<and>
         in_path x \<noteq> [] \<and> last (in_path x) = in_definition x \<and> distinct (in_path x) \<and> length (in_path x) \<le> 16 \<and>
         (\<exists>w \<in> set doc. ws_tab w \<and> in_tab x = ws_id w)))"
proof (rule expand_result [OF assms])
  fix defs
  assume d: "definitions doc = Inr defs" and "tabs_grown sha defs (filter ws_tab doc) [] insts"
  then have g: "placed {(None, [])} insts" "length insts \<le> max_instances"
      "\<forall>x \<in> set insts. \<exists>w \<in> set (filter ws_tab doc). inst_ok sha defs (ws_id w) x"
    by (auto simp: tabs_grown_def list_all_iff)
  have "\<exists>def. defs (in_definition x) = Some def \<and> in_defined_in x = ws_id def \<and>
      in_path x \<noteq> [] \<and> last (in_path x) = in_definition x \<and> distinct (in_path x) \<and> length (in_path x) \<le> 16 \<and>
      (\<exists>w \<in> set doc. ws_tab w \<and> in_tab x = ws_id w)" if "x \<in> set insts" for x
  proof -
    from g(3) that have "\<exists>w \<in> set (filter ws_tab doc). inst_ok sha defs (ws_id w) x" by (rule bspec)
    then obtain w where "w \<in> set (filter ws_tab doc)" "inst_ok sha defs (ws_id w) x" by (rule bexE)
    then show ?thesis by (auto simp: inst_ok_def max_depth_def)
  qed
  with d g(1,2) show ?thesis by (auto simp: max_instances_def)
qed

text \<open>A tab with one instance of a definition that holds a MIDI link on channel 3.\<close>

definition snap_of :: "node_id \<Rightarrow> snap_kind \<Rightarrow> node_snap" where
  "snap_of i k = \<lparr>sn_id = i, sn_pos = (0, 0), sn_size = (0, 0), sn_pos3d = None, sn_panel3d = True, sn_kind = k\<rparr>"

definition app_kind :: snap_kind where
  "app_kind = SkApp ''synth'' None [] [] None"

definition voice_def :: workspace where
  "voice_def = (workspace_new 50)\<lparr>ws_name := Some ''voice'', ws_tab := False,
     ws_nodes := [snap_of 51 app_kind, snap_of 52 app_kind], ws_midi := [(51, 52)], ws_midi_channels := [((51, 52), 3)]\<rparr>"

definition voice_tab :: "node_id \<Rightarrow> string \<Rightarrow> workspace" where
  "voice_tab i called = (workspace_new i)\<lparr>ws_nodes := [snap_of (i + 1) (SkGroup ''voice'' (Some called) [] [])]\<rparr>"

text \<open>A hash for the examples: the sum of the bytes, sixteen times.\<close>

definition toy_sha :: "bytes \<Rightarrow> bytes" where
  "toy_sha bs = replicate 32 (sum_list bs)"

definition voice_doc :: document where
  "voice_doc = [voice_def, voice_tab 1 ''lead'']"

definition voice_inst :: "node_id \<Rightarrow> string \<Rightarrow> inst" where
  "voice_inst i called = make_inst toy_sha (tab_site (voice_tab i called)) (i + 1) None ''voice'' called [''voice''] voice_def Map.empty"

lemma voice_names: "local_names toy_sha (ws_nodes voice_def) = Some []" "local_names toy_sha (ws_nodes (voice_tab i c)) = Some [c]"
  by (simp_all add: local_names_def groups_in_def voice_def_def voice_tab_def snap_of_def app_kind_def)

lemma voice_group:
  "length out < max_instances \<Longrightarrow> defs ''voice'' = Some voice_def \<Longrightarrow>
     expand_group toy_sha doc defs (tab_site (voice_tab i c)) None (\<lambda>i. [i]) [] (snap_of (i + 1) (SkGroup ''voice'' (Some c) [] []), i + 1, c) out =
       Some (Inr (out @ [voice_inst i c]))"
  using voice_names(1)
  by (simp add: snap_of_def open_group_def max_depth_def boundary_lines_def port_entries_def voice_def_def app_kind_def
      map_filter_def link_sources_def unique_links_def workspace_new_def ports_unbound_def voice_inst_def nested_jobs_def groups_in_def)

lemma voice_tabs:
  "length out < max_instances \<Longrightarrow> defs ''voice'' = Some voice_def \<Longrightarrow>
     expand_tabs toy_sha doc defs (voice_tab i c # ws) out = expand_tabs toy_sha doc defs ws (out @ [voice_inst i c])"
  using voice_names(2) [of i c] voice_group [of out defs doc i c]
  by (simp add: groups_in_def voice_tab_def snap_of_def)

lemma voice_simps: "\<not> ws_tab voice_def" "ws_name voice_def = Some ''voice''" "ws_tab (voice_tab i c)"
  by (simp_all add: voice_def_def voice_tab_def workspace_new_def)

lemma voice_expansion: "expand toy_sha voice_doc = Some (Inr [voice_inst 1 ''lead''])"
  by (simp add: expand_def definitions_def voice_doc_def voice_simps voice_tabs max_instances_def del: expand_tabs.simps(2))


theorem expansion_is_sound_witness:
  "expand toy_sha voice_doc = Some (Inr [voice_inst 1 ''lead'']) \<and> placed {(None, [])} [voice_inst 1 ''lead'']"
  using voice_expansion expansion_is_sound [OF voice_expansion] by simp

fun group_definition :: "snap_kind \<Rightarrow> string option" where
  "group_definition (SkGroup d n i o1) = Some d"
| "group_definition k = None"

lemma expansion_answers:
  assumes "answers (n, i, l) parent path y"
  shows "in_id y = i \<and> in_parent y = parent \<and> (\<exists>d. group_definition (sn_kind n) = Some d \<and> in_path y = path @ [d])"
  using assms by (auto simp: answers_def)

lemma tab_answered:
  assumes "tabs_grown sha defs ws [] insts" and "w \<in> set ws" and "n \<in> set (groups_in (ws_nodes w))"
  shows "\<exists>y \<in> set insts. in_tab y = ws_id w \<and> in_id y = sn_id n \<and> in_parent y = None \<and>
    (\<exists>d. group_definition (sn_kind n) = Some d \<and> in_path y = [d])"
proof -
  obtain names where nm: "local_names sha (ws_nodes w) = Some names"
      "\<forall>j \<in> set (tab_jobs w names). \<exists>y \<in> set insts. answers j None [] y \<and> in_tab y = ws_id w"
    using assms(1,2) unfolding tabs_grown_def by auto
  obtain l where "(n, l) \<in> set (zip (groups_in (ws_nodes w)) names)" using job_of_group [OF assms(3) nm(1)] by blast
  then have "(n, sn_id n, l) \<in> set (tab_jobs w names)" by (force simp: tab_jobs_def)
  from bspec [OF nm(2) this] obtain y where "y \<in> set insts" "answers (n, sn_id n, l) None [] y" "in_tab y = ws_id w" by blast
  then show ?thesis using expansion_answers by (intro bexI [of _ y]) fastforce+
qed

lemma instance_answered:
  assumes "complete sha defs insts x" and "defs (in_definition x) = Some def" and "n \<in> set (groups_in (ws_nodes def))"
  shows "\<exists>y \<in> set insts. in_id y = derive_id sha (in_id x) (sn_id n) \<and> in_parent y = Some (in_id x) \<and>
    (\<exists>d. group_definition (sn_kind n) = Some d \<and> in_path y = in_path x @ [d])"
proof -
  obtain names where nm: "local_names sha (ws_nodes def) = Some names"
      "\<forall>j \<in> set (nested_jobs sha (in_id x) (in_name x) (ws_nodes def) names). \<exists>y \<in> set insts. answers j (Some (in_id x)) (in_path x) y"
    using assms(1,2) by (auto simp: complete_def)
  obtain l where "(n, l) \<in> set (zip (groups_in (ws_nodes def)) names)" using job_of_group [OF assms(3) nm(1)] by blast
  then have "(n, derive_id sha (in_id x) (sn_id n), in_name x @ ''-'' @ l) \<in> set (nested_jobs sha (in_id x) (in_name x) (ws_nodes def) names)"
    by (force simp: nested_jobs_def)
  from bspec [OF nm(2) this] show ?thesis using expansion_answers by blast
qed

text \<open>
  C21: A successful expansion leaves nothing out: every group of every tab has an instance of its
  definition under its own id, in that tab, and every group that the definition of an instance
  contains has one inside it, under the id derived from the two.
\<close>

theorem expansion_is_complete:
  assumes "expand sha doc = Some (Inr insts)"
  shows "\<exists>defs. definitions doc = Inr defs \<and>
    (\<forall>w \<in> set doc. ws_tab w \<longrightarrow> (\<forall>n \<in> set (groups_in (ws_nodes w)). \<exists>y \<in> set insts. in_tab y = ws_id w \<and>
       in_id y = sn_id n \<and> in_parent y = None \<and> (\<exists>d. group_definition (sn_kind n) = Some d \<and> in_path y = [d]))) \<and>
    (\<forall>x \<in> set insts. \<forall>def. defs (in_definition x) = Some def \<longrightarrow> (\<forall>n \<in> set (groups_in (ws_nodes def)). \<exists>y \<in> set insts.
       in_id y = derive_id sha (in_id x) (sn_id n) \<and> in_parent y = Some (in_id x) \<and>
       (\<exists>d. group_definition (sn_kind n) = Some d \<and> in_path y = in_path x @ [d])))"
proof (rule expand_result [OF assms])
  fix defs
  assume d: "definitions doc = Inr defs" and g: "tabs_grown sha defs (filter ws_tab doc) [] insts"
  then have "\<forall>x \<in> set insts. complete sha defs insts x" by (auto simp: tabs_grown_def list_all_iff)
  then show ?thesis
    using d tab_answered [OF g] instance_answered by (intro exI [of _ defs]) auto
qed

theorem expansion_is_complete_witness:
  "\<exists>y \<in> set [voice_inst 1 ''lead'']. in_tab y = 1 \<and> in_id y = 2 \<and> in_path y = [''voice'']"
proof -
  have "voice_tab 1 ''lead'' \<in> set voice_doc" "ws_tab (voice_tab 1 ''lead'')" "ws_id (voice_tab 1 ''lead'') = 1"
      "snap_of 2 (SkGroup ''voice'' (Some ''lead'') [] []) \<in> set (groups_in (ws_nodes (voice_tab 1 ''lead'')))"
    by (simp_all add: voice_doc_def voice_simps voice_tab_def workspace_new_def groups_in_def snap_of_def)
  then show ?thesis using expansion_is_complete [OF voice_expansion] by (fastforce simp: snap_of_def)
qed

text \<open>
  A document in which a definition that is used contains itself, directly or through other
  definitions, is never expanded: where the expansion succeeds, no instance's definition is
  reached from itself by following groups.
\<close>

theorem expanded_document_has_no_cycle:
  assumes "expand sha doc = Some (Inr insts)" and "definitions doc = Inr defs" and "x \<in> set insts"
  shows "(in_definition x, in_definition x) \<notin> (contains defs)\<^sup>+"
proof
  assume cyc: "(in_definition x, in_definition x) \<in> (contains defs)\<^sup>+"
  have g: "tabs_grown sha defs (filter ws_tab doc) [] insts"
    using assms(1,2) by (elim expand_result) simp
  then have c: "list_all (complete sha defs insts) insts"
      and o: "\<forall>y \<in> set insts. \<exists>w \<in> set (filter ws_tab doc). inst_ok sha defs (ws_id w) y"
    by (auto simp: tabs_grown_def list_all_iff)
  have ok: "in_path y \<noteq> [] \<and> last (in_path y) = in_definition y \<and> distinct (in_path y)" if "y \<in> set insts" for y
    using bspec [OF o that] by (elim bexE) (auto simp: inst_ok_def)
  then obtain y q where "y \<in> set insts" "in_path y = in_path x @ q @ [in_definition x]"
    using contained_below_trans [OF c assms(3) cyc] by blast
  moreover have "in_definition x \<in> set (in_path x)" using ok [OF assms(3)] by (metis last_in_set)
  ultimately show False using ok [of y] by auto
qed

theorem expanded_document_has_no_cycle_witness:
  "(''voice'', ''voice'') \<notin> (contains [''voice'' \<mapsto> voice_def])\<^sup>+"
proof -
  have "definitions voice_doc = Inr [''voice'' \<mapsto> voice_def]"
    by (simp add: definitions_def voice_doc_def voice_simps)
  from expanded_document_has_no_cycle [OF voice_expansion this, of "voice_inst 1 ''lead''"] show ?thesis
    by (simp add: voice_inst_def make_inst_def)
qed


text \<open>
  C22: Boundary ports vanish from the wiring of an instance. A wire of the definition becomes the
  wires between all the live nodes that its two ends stand for: the node with the derived id, or,
  where the end is a boundary port, exactly the nodes that the group's \<open>in\<close> and \<open>out\<close> lines bind
  to that port (so a port that nothing is wired to takes its wires with it, and a port that is
  wired several times fans out).
\<close>

theorem boundary_wires_collapse:
  assumes "open_group sha doc defs st i d lines outer path out = Inr (def, ports)"
  shows "set (link_pairs (sub_id sha i ports) links) =
    {(x, y). \<exists>(a, b) \<in> set links. x \<in> live_ids sha i def outer lines a \<and> y \<in> live_ids sha i def outer lines b}"
  by (simp add: set_link_pairs open_group_live [OF assms])

theorem boundary_wires_collapse_witness:
  "set (link_pairs (sub_id toy_sha 2 Map.empty) [(51, 52)]) = {(derive_id toy_sha 2 51, derive_id toy_sha 2 52)}"
proof -
  have "open_group toy_sha [] [''voice'' \<mapsto> voice_def] (tab_site voice_def) 2 ''voice'' [] (\<lambda>i. [i]) [] [] = Inr (voice_def, Map.empty)"
    by (simp add: open_group_def max_depth_def max_instances_def port_entries_def voice_def_def app_kind_def snap_of_def
        map_filter_def link_sources_def unique_links_def workspace_new_def ports_unbound_def)
  from boundary_wires_collapse [OF this, of "[(51, 52)]"] show ?thesis
    by (auto simp: live_ids_def port_ids_def port_entries_def voice_def_def snap_of_def app_kind_def map_filter_def)
qed

text \<open>
  C39: The walk to a free name need not end. The names that a node id can generate are at most
  2048 (thirty-two qualities, sixty-four things), and the walk only takes one that no earlier
  group of the canvas has; so a document whose first tab has more than 2048 groups without a
  chosen name is neither expanded nor refused: the expansion does not return.
\<close>

theorem too_many_unnamed_groups_hang:
  assumes "definitions doc = Inr defs" and "filter ws_tab doc = w # ws"
    and "\<forall>n \<in> set (groups_in (ws_nodes w)). group_name (sn_kind n) = None" and "2048 < length (groups_in (ws_nodes w))"
  shows "expand sha doc = None"
proof (cases "local_names sha (ws_nodes w)")
  case None
  then show ?thesis using assms(1,2) by (simp add: expand_def)
next
  case (Some names)
  then have "distinct names" "set names \<subseteq> name_pool"
    using name_groups_distinct [of sha "groups_in (ws_nodes w)" "[]" names] assms(3) by (simp_all add: local_names_def)
  then have "length names \<le> 2048"
    using card_mono [OF card_name_pool(1), of "set names"] card_name_pool(2) by (simp add: distinct_card)
  moreover have "length names = length (groups_in (ws_nodes w))"
    using name_groups_length [OF Some [unfolded local_names_def]] by simp
  ultimately show ?thesis using assms(4) by simp
qed

definition crowded_tab :: workspace where
  "crowded_tab = (workspace_new 1)\<lparr>ws_nodes := map (\<lambda>i. snap_of (of_nat i) (SkGroup ''voice'' None [] [])) [0..<2049]\<rparr>"

theorem too_many_unnamed_groups_hang_witness:
  "expand toy_sha [voice_def, crowded_tab] = None"
proof -
  have "groups_in (ws_nodes crowded_tab) = ws_nodes crowded_tab" "length (ws_nodes crowded_tab) = 2049"
      "\<forall>n \<in> set (ws_nodes crowded_tab). group_name (sn_kind n) = None" "ws_tab crowded_tab"
    by (auto simp: groups_in_def crowded_tab_def snap_of_def workspace_new_def filter_id_conv)
  moreover have "definitions [voice_def, crowded_tab] = Inr [''voice'' \<mapsto> voice_def]"
    using \<open>ws_tab crowded_tab\<close> by (simp add: definitions_def voice_simps)
  ultimately show ?thesis
    using too_many_unnamed_groups_hang [of "[voice_def, crowded_tab]" _ crowded_tab "[]" toy_sha] by (simp add: voice_simps)
qed

text \<open>
  An instance loses the MIDI channels of its definition: the override of a mount path or of
  a guest port follows the wires of the definition into the instance, the channel that a MIDI
  link carries does not, and every instance has its MIDI links carry all sixteen.
\<close>

theorem instance_drops_midi_channels:
  assumes "expand sha doc = Some (Inr insts)" and "x \<in> set insts"
  shows "ws_midi_channels (in_content x) = []"
proof (rule expand_result [OF assms(1)])
  fix defs
  assume "tabs_grown sha defs (filter ws_tab doc) [] insts"
  then have "\<forall>x \<in> set insts. \<exists>w \<in> set (filter ws_tab doc). inst_ok sha defs (ws_id w) x"
    by (auto simp: tabs_grown_def list_all_iff)
  from bspec [OF this assms(2)] show ?thesis
    by (elim bexE) (auto simp: inst_ok_def inst_content_def workspace_new_def)
qed

theorem instance_drops_midi_channels_witness:
  "ws_midi_channels voice_def = [((51, 52), 3)] \<and> length (ws_midi (in_content (voice_inst 1 ''lead''))) = 1 \<and>
   ws_midi_channels (in_content (voice_inst 1 ''lead'')) = []"
  using instance_drops_midi_channels [OF voice_expansion, of "voice_inst 1 ''lead''"]
  by (simp add: voice_def_def voice_inst_def make_inst_def inst_content_def link_pairs_def sub_id_def)

text \<open>
  The name of an instance is not unique across the document, as its documentation says: a
  name that two groups choose, here in two tabs, is given to both of their instances.
\<close>

theorem instance_names_can_clash:
  "\<exists>insts. expand toy_sha [voice_def, voice_tab 1 ''lead'', voice_tab 10 ''lead''] = Some (Inr insts) \<and>
     map in_id insts = [2, 11] \<and> map in_name insts = [''lead'', ''lead'']"
proof -
  have "expand toy_sha [voice_def, voice_tab 1 ''lead'', voice_tab 10 ''lead''] =
      Some (Inr [voice_inst 1 ''lead'', voice_inst 10 ''lead''])"
    by (simp add: expand_def definitions_def voice_simps voice_tabs max_instances_def del: expand_tabs.simps(2))
  then show ?thesis by (simp add: voice_inst_def make_inst_def)
qed

end
