(* ===== verification/Exec_Pipe.thy ===== *)
theory Exec_Pipe
  imports Prelude
begin

text \<open>
  The pipe between two programs of \<open>wk:exec\<close> (\<open>crates/wk-server/src/execpipe.rs\<close>): a byte buffer
  with counted ends and, for each side, the waker of one task that waits. Every method takes
  the lock, so one method body is one step. A task is a number, a waker the number of the task
  it wakes; a step returns the state and the task it wakes. The runs of \<open>pipe_exec\<close> are the
  interleavings of any number of tasks; they also carry what was written and read so far, and
  which tasks sleep.

  \<open>async_stream\<close> of either end is unused, \<open>is_terminal\<close> is constant and \<open>flush\<close> only returns
  \<open>Ok\<close>. \<open>OwnedReadEnd\<close> and \<open>OwnedWriteEnd\<close> forward to \<open>ReadEnd\<close> and \<open>WriteEnd\<close>.
\<close>

subsection \<open>The state and its methods\<close>

definition pipe_capacity :: nat where
  "pipe_capacity = 64 * 1024"

record pipe_state =
  pbuf :: bytes
  pwriters :: nat
  preaders :: nat
  reader_waker :: "nat option"
  writer_waker :: "nat option"

datatype stream_error = Closed

definition pipe_new :: pipe_state where
  "pipe_new = \<lparr>pbuf = [], pwriters = 0, preaders = 0, reader_waker = None, writer_waker = None\<rparr>"

definition wake_reader :: "pipe_state \<Rightarrow> pipe_state \<times> nat option" where
  "wake_reader s = (s\<lparr>reader_waker := None\<rparr>, reader_waker s)"

definition wake_writer :: "pipe_state \<Rightarrow> pipe_state \<times> nat option" where
  "wake_writer s = (s\<lparr>writer_waker := None\<rparr>, writer_waker s)"

definition pipe_reader :: "pipe_state \<Rightarrow> pipe_state" where
  "pipe_reader s = s\<lparr>preaders := preaders s + 1\<rparr>"

definition pipe_writer :: "pipe_state \<Rightarrow> pipe_state" where
  "pipe_writer s = s\<lparr>pwriters := pwriters s + 1\<rparr>"

text \<open>Subtraction of naturals is \<open>saturating_sub\<close>.\<close>

definition drop_reader :: "pipe_state \<Rightarrow> pipe_state \<times> nat option" where
  "drop_reader s = wake_writer (s\<lparr>preaders := preaders s - 1\<rparr>)"

definition drop_writer :: "pipe_state \<Rightarrow> pipe_state \<times> nat option" where
  "drop_writer s =
     (let s1 = s\<lparr>pwriters := pwriters s - 1\<rparr>
      in if pwriters s1 = 0 then wake_reader s1 else (s1, None))"

definition pipe_read :: "pipe_state \<Rightarrow> nat \<Rightarrow> (stream_error + bytes) \<times> pipe_state \<times> nat option" where
  "pipe_read s sz =
     (if pbuf s = [] then (if pwriters s = 0 then Inl Closed else Inr [], s, None)
      else
        (let n = min sz (length (pbuf s));
             d = take n (pbuf s)
         in (Inr d, wake_writer (s\<lparr>pbuf := drop n (pbuf s)\<rparr>))))"

definition pipe_check_write :: "pipe_state \<Rightarrow> stream_error + nat" where
  "pipe_check_write s = (if preaders s = 0 then Inl Closed else Inr (pipe_capacity - length (pbuf s)))"

definition pipe_write :: "pipe_state \<Rightarrow> bytes \<Rightarrow> (stream_error + unit) \<times> pipe_state \<times> nat option" where
  "pipe_write s b =
     (if preaders s = 0 then (Inl Closed, s, None)
      else (Inr (), wake_reader (s\<lparr>pbuf := pbuf s @ b\<rparr>)))"

text \<open>The two futures. \<open>True\<close> is \<open>Poll::Ready\<close>; a pending poll leaves the task's waker.\<close>

definition readable_poll :: "pipe_state \<Rightarrow> nat \<Rightarrow> bool \<times> pipe_state" where
  "readable_poll s t =
     (if pbuf s \<noteq> [] \<or> pwriters s = 0 then (True, s) else (False, s\<lparr>reader_waker := Some t\<rparr>))"

definition writable_poll :: "pipe_state \<Rightarrow> nat \<Rightarrow> bool \<times> pipe_state" where
  "writable_poll s t =
     (if length (pbuf s) < pipe_capacity \<or> preaders s = 0 then (True, s)
      else (False, s\<lparr>writer_waker := Some t\<rparr>))"

lemmas pipe_defs = pipe_reader_def pipe_writer_def drop_reader_def drop_writer_def pipe_read_def
  pipe_write_def readable_poll_def writable_poll_def wake_reader_def wake_writer_def Let_def

subsection \<open>Runs\<close>

datatype pipe_op =
    TakeReader | TakeWriter | DropReader | DropWriter
  | ReadPipe nat | WritePipe bytes
  | AwaitReadable nat | AwaitWritable nat

text \<open>
  One call on a pipe: the new state, the task woken, the bytes that went in and the bytes that
  came out.
\<close>

fun pipe_step :: "pipe_op \<Rightarrow> pipe_state \<Rightarrow> pipe_state \<times> nat option" where
  "pipe_step TakeReader s = (pipe_reader s, None)"
| "pipe_step TakeWriter s = (pipe_writer s, None)"
| "pipe_step DropReader s = drop_reader s"
| "pipe_step DropWriter s = drop_writer s"
| "pipe_step (ReadPipe n) s = snd (pipe_read s n)"
| "pipe_step (WritePipe b) s = snd (pipe_write s b)"
| "pipe_step (AwaitReadable t) s = (snd (readable_poll s t), None)"
| "pipe_step (AwaitWritable t) s = (snd (writable_poll s t), None)"

fun bytes_out :: "pipe_op \<Rightarrow> pipe_state \<Rightarrow> bytes" where
  "bytes_out (ReadPipe n) s = (case fst (pipe_read s n) of Inl _ \<Rightarrow> [] | Inr d \<Rightarrow> d)"
| "bytes_out _ s = []"

fun bytes_in :: "pipe_op \<Rightarrow> pipe_state \<Rightarrow> bytes" where
  "bytes_in (WritePipe b) s = (case fst (pipe_write s b) of Inl _ \<Rightarrow> [] | Inr _ \<Rightarrow> b)"
| "bytes_in _ s = []"

text \<open>Who is asleep on each side: a pending poll puts a task to sleep, its waker wakes it.\<close>

fun sleeper_r :: "pipe_op \<Rightarrow> pipe_state \<Rightarrow> nat set" where
  "sleeper_r (AwaitReadable t) s = (if fst (readable_poll s t) then {} else {t})"
| "sleeper_r _ s = {}"

fun sleeper_w :: "pipe_op \<Rightarrow> pipe_state \<Rightarrow> nat set" where
  "sleeper_w (AwaitWritable t) s = (if fst (writable_poll s t) then {} else {t})"
| "sleeper_w _ s = {}"

record pipe_run =
  pr_pipe :: pipe_state
  pr_written :: bytes
  pr_read :: bytes
  pr_asleep_r :: "nat set"
  pr_asleep_w :: "nat set"

definition pipe_start :: pipe_run where
  "pipe_start = \<lparr>pr_pipe = pipe_new, pr_written = [], pr_read = [], pr_asleep_r = {}, pr_asleep_w = {}\<rparr>"

definition pipe_exec :: "pipe_op \<Rightarrow> pipe_run \<Rightarrow> pipe_run" where
  "pipe_exec c r =
     (let s = pr_pipe r; (s', woken) = pipe_step c s
      in \<lparr>pr_pipe = s',
          pr_written = pr_written r @ bytes_in c s,
          pr_read = pr_read r @ bytes_out c s,
          pr_asleep_r = (pr_asleep_r r - set_option woken) \<union> sleeper_r c s,
          pr_asleep_w = (pr_asleep_w r - set_option woken) \<union> sleeper_w c s\<rparr>)"

definition pipe_perform :: "pipe_op list \<Rightarrow> pipe_run" where
  "pipe_perform cs = fold pipe_exec cs pipe_start"

lemma pipe_perform_induct [consumes 0, case_names start step]:
  assumes "P pipe_start []"
    and "\<And>cs c. P (pipe_perform cs) cs \<Longrightarrow> P (pipe_exec c (pipe_perform cs)) (cs @ [c])"
  shows "P (pipe_perform cs) cs"
  using assms by (induction cs rule: rev_induct) (simp_all add: pipe_perform_def)

subsection \<open>First in, first out\<close>

lemma written_is_read_and_buffered:
  "pr_written (pipe_perform cs) = pr_read (pipe_perform cs) @ pbuf (pr_pipe (pipe_perform cs))"
proof (induction cs rule: pipe_perform_induct)
  case start
  then show ?case by (simp add: pipe_start_def pipe_new_def)
next
  case (step cs c)
  have "bytes_out c s @ pbuf (fst (pipe_step c s)) = pbuf s @ bytes_in c s" for s
    by (cases c) (simp_all add: pipe_defs)
  then show ?case using step by (simp add: pipe_exec_def Let_def case_prod_beta)
qed

text \<open>
  C20: The pipe is a queue of bytes: whatever the tasks of a run do, in whatever order, the bytes that
  were written are those that were read followed by those in the buffer. Nothing is lost,
  repeated or reordered, also when ends are dropped.
\<close>

theorem pipe_is_a_queue:
  "pr_written (pipe_perform cs) = pr_read (pipe_perform cs) @ pbuf (pr_pipe (pipe_perform cs))"
  by (rule written_is_read_and_buffered)

text \<open>
  End of file is seen exactly when there is nothing more to come: a read fails with \<open>Closed\<close>
  if and only if all writers are gone and everything written has been read. Otherwise it
  returns the next bytes, as many as were asked for and are there.
\<close>

theorem pipe_read_is_exact:
  "fst (pipe_read (pr_pipe (pipe_perform cs)) n) =
     (let r = pipe_perform cs
      in if pwriters (pr_pipe r) = 0 \<and> pr_read r = pr_written r then Inl Closed
         else Inr (take n (drop (length (pr_read r)) (pr_written r))))"
  using written_is_read_and_buffered [of cs] by (simp add: pipe_read_def Let_def min_def)

subsection \<open>Sleeping and waking\<close>

text \<open>
  One side of the pipe as its waiting task sees it. \<open>ready\<close> is what the task waits for, \<open>slot\<close>
  the stored waker, \<open>polls\<close> the task a step polls for. A pending poll stores the waker and does
  not change \<open>ready\<close>; any other step that starts from a state that is not ready either leaves
  it so, with the waker in its slot, or wakes the task in the slot.
\<close>

locale waker_slot =
  fixes step :: "'o \<Rightarrow> 's \<Rightarrow> 's \<times> nat option"
    and ready :: "'s \<Rightarrow> bool"
    and slot :: "'s \<Rightarrow> nat option"
    and polls :: "'o \<Rightarrow> nat option"
  assumes poll_pending: "\<lbrakk>polls c = Some t; \<not> ready s\<rbrakk> \<Longrightarrow> \<not> ready (fst (step c s)) \<and> slot (fst (step c s)) = Some t"
    and quiet_or_woken:
      "\<lbrakk>polls c = None; \<not> ready s\<rbrakk> \<Longrightarrow>
         (\<not> ready (fst (step c s)) \<and> slot (fst (step c s)) = slot s) \<or> slot s = snd (step c s)"
begin

definition falls_asleep :: "'o \<Rightarrow> 's \<Rightarrow> nat set" where
  "falls_asleep c s = (if ready s then {} else set_option (polls c))"

definition attended :: "nat \<Rightarrow> 's \<Rightarrow> nat set \<Rightarrow> bool" where
  "attended t s asleep \<longleftrightarrow> (asleep = {} \<or> asleep = {t} \<and> \<not> ready s \<and> slot s = Some t)"

lemma attended_step:
  assumes "attended t s asleep" and "polls c = None \<or> polls c = Some t"
  shows "attended t (fst (step c s)) ((asleep - set_option (snd (step c s))) \<union> falls_asleep c s)"
proof (cases "asleep = {} \<and> polls c = None")
  case True
  then show ?thesis by (simp add: attended_def falls_asleep_def)
next
  case False
  then show ?thesis
    using assms poll_pending [of c t s] quiet_or_woken [of c s]
    by (cases "ready s") (auto simp: attended_def falls_asleep_def)
qed

end

fun polls_readable :: "pipe_op \<Rightarrow> nat option" where
  "polls_readable (AwaitReadable t) = Some t"
| "polls_readable _ = None"

fun polls_writable :: "pipe_op \<Rightarrow> nat option" where
  "polls_writable (AwaitWritable t) = Some t"
| "polls_writable _ = None"

definition readable :: "pipe_state \<Rightarrow> bool" where
  "readable s \<longleftrightarrow> pbuf s \<noteq> [] \<or> pwriters s = 0"

definition writable :: "pipe_state \<Rightarrow> bool" where
  "writable s \<longleftrightarrow> length (pbuf s) < pipe_capacity \<or> preaders s = 0"

interpretation rside: waker_slot pipe_step readable reader_waker polls_readable
proof
  show "\<lbrakk>polls_readable c = Some t; \<not> readable s\<rbrakk> \<Longrightarrow>
      \<not> readable (fst (pipe_step c s)) \<and> reader_waker (fst (pipe_step c s)) = Some t" for c t s
    by (cases c) (simp_all add: pipe_defs readable_def writable_def)
  show "\<lbrakk>polls_readable c = None; \<not> readable s\<rbrakk> \<Longrightarrow>
      (\<not> readable (fst (pipe_step c s)) \<and> reader_waker (fst (pipe_step c s)) = reader_waker s) \<or>
      reader_waker s = snd (pipe_step c s)" for c s
    by (cases c) (simp_all add: pipe_defs readable_def)
qed

interpretation wside: waker_slot pipe_step writable writer_waker polls_writable
proof
  show "\<lbrakk>polls_writable c = Some t; \<not> writable s\<rbrakk> \<Longrightarrow>
      \<not> writable (fst (pipe_step c s)) \<and> writer_waker (fst (pipe_step c s)) = Some t" for c t s
    by (cases c) (simp_all add: pipe_defs readable_def writable_def)
  show "\<lbrakk>polls_writable c = None; \<not> writable s\<rbrakk> \<Longrightarrow>
      (\<not> writable (fst (pipe_step c s)) \<and> writer_waker (fst (pipe_step c s)) = writer_waker s) \<or>
      writer_waker s = snd (pipe_step c s)" for c s
    by (cases c) (auto simp: pipe_defs writable_def)
qed

lemma sleeper_r_falls_asleep: "sleeper_r c s = rside.falls_asleep c s"
  by (cases c) (auto simp: rside.falls_asleep_def readable_poll_def readable_def)

lemma sleeper_w_falls_asleep: "sleeper_w c s = wside.falls_asleep c s"
  by (cases c) (auto simp: wside.falls_asleep_def writable_poll_def writable_def)

definition one_waiter :: "(pipe_op \<Rightarrow> nat option) \<Rightarrow> nat \<Rightarrow> pipe_op list \<Rightarrow> bool" where
  "one_waiter polls t cs \<longleftrightarrow> list_all (\<lambda>c. polls c = None \<or> polls c = Some t) cs"

lemma one_waiter_snoc [simp]:
  "one_waiter polls t (cs @ [c]) \<longleftrightarrow> one_waiter polls t cs \<and> (polls c = None \<or> polls c = Some t)"
  by (simp add: one_waiter_def)

lemma run_attended:
  assumes "one_waiter polls_readable r cs" and "one_waiter polls_writable w cs"
  shows "rside.attended r (pr_pipe (pipe_perform cs)) (pr_asleep_r (pipe_perform cs)) \<and>
     wside.attended w (pr_pipe (pipe_perform cs)) (pr_asleep_w (pipe_perform cs))"
  using assms
proof (induction cs rule: pipe_perform_induct)
  case start
  then show ?case by (simp add: pipe_start_def rside.attended_def wside.attended_def)
next
  case (step cs c)
  then show ?case
    by (simp add: pipe_exec_def Let_def case_prod_beta sleeper_r_falls_asleep sleeper_w_falls_asleep
        rside.attended_step wside.attended_step)
qed

text \<open>
  C19: No wake-up is lost while each side has one task that waits. In every such run, a reader that
  sleeps has nothing to read and a writer that could still write, and a writer that sleeps has a
  full pipe and a reader: as soon as there are bytes, room, or an end is gone for good, the
  sleeper has been woken.
\<close>

theorem no_wakeup_is_lost:
  assumes "one_waiter polls_readable r cs" and "one_waiter polls_writable w cs"
  defines "p \<equiv> pr_pipe (pipe_perform cs)"
  shows "(pr_asleep_r (pipe_perform cs) = {} \<or> pbuf p = [] \<and> pwriters p > 0) \<and>
     (pr_asleep_w (pipe_perform cs) = {} \<or> length (pbuf p) \<ge> pipe_capacity \<and> preaders p > 0)"
  using run_attended [OF assms(1,2)]
  by (auto simp: p_def rside.attended_def wside.attended_def readable_def writable_def)

definition pipeline :: "pipe_op list" where
  "pipeline = [TakeReader, TakeWriter, AwaitReadable 1, WritePipe [7, 8], ReadPipe 4, AwaitReadable 1, DropWriter]"

theorem no_wakeup_is_lost_witness:
  "one_waiter polls_readable 1 pipeline \<and> one_waiter polls_writable 2 pipeline \<and>
   pr_asleep_r (pipe_perform pipeline) = {}"
proof -
  have w: "one_waiter polls_readable 1 pipeline" "one_waiter polls_writable 2 pipeline" by code_simp+
  moreover have "pwriters (pr_pipe (pipe_perform pipeline)) = 0" by code_simp
  ultimately show ?thesis using no_wakeup_is_lost [OF w] by simp
qed

text \<open>
  With two writers asleep the second takes the place of the first, because there is room for
  one waker: when the reader has drained a full pipe, the first writer still sleeps although
  the pipe is empty and is read from. (Two writers are allowed, \<open>2>&1\<close> makes them.)
\<close>

theorem second_writer_hides_the_first:
  assumes "length b = pipe_capacity"
  defines "r \<equiv> pipe_perform [TakeReader, TakeWriter, TakeWriter, WritePipe b, AwaitWritable 1, AwaitWritable 2,
     ReadPipe pipe_capacity]"
  shows "pr_asleep_w r = {1} \<and> pbuf (pr_pipe r) = [] \<and> preaders (pr_pipe r) = 1 \<and> writer_waker (pr_pipe r) = None"
proof -
  have "pipe_capacity > 0" by (simp add: pipe_capacity_def)
  then show ?thesis
    using assms by (auto simp: pipe_perform_def pipe_exec_def pipe_start_def pipe_new_def pipe_defs)
qed

theorem second_writer_hides_the_first_witness:
  "length (replicate pipe_capacity (0 :: u8)) = pipe_capacity \<and>
   1 \<in> pr_asleep_w (pipe_perform [TakeReader, TakeWriter, TakeWriter, WritePipe (replicate pipe_capacity 0),
     AwaitWritable 1, AwaitWritable 2, ReadPipe pipe_capacity])"
  using second_writer_hides_the_first [of "replicate pipe_capacity 0"] by simp

subsection \<open>Room\<close>

text \<open>
  A writer that writes no more than it was told it may keeps the buffer within 64 KiB, and is
  told \<open>Closed\<close> exactly when its write would fail.
\<close>

theorem permitted_write_fits:
  assumes "length (pbuf s) \<le> pipe_capacity"
  shows "pipe_check_write s = Inr n \<Longrightarrow> length b \<le> n \<Longrightarrow>
      \<exists>s' woken. pipe_write s b = (Inr (), s', woken) \<and> length (pbuf s') \<le> pipe_capacity \<and> pbuf s' = pbuf s @ b"
  using assms by (auto simp: pipe_check_write_def pipe_write_def wake_reader_def split: if_splits)

theorem permitted_write_fits_witness:
  "length (pbuf (pipe_reader pipe_new)) \<le> pipe_capacity \<and>
   (\<exists>s' woken. pipe_write (pipe_reader pipe_new) [1] = (Inr (), s', woken) \<and> pbuf s' = [1])"
  using permitted_write_fits [of "pipe_reader pipe_new" pipe_capacity "[1]"]
  by (auto simp: pipe_reader_def pipe_new_def pipe_check_write_def pipe_capacity_def)

end
