(* ===== verification/Midi_Stream.thy ===== *)
theory Midi_Stream
  imports Prelude
begin

text \<open>
  The decoder of a MIDI byte stream (\<open>crates/wk-server/src/midi/stream.rs\<close>), which turns the
  packets of a hardware port back into whole messages. The decoder is a record; \<open>dec_byte\<close>
  returns the next decoder and the messages that the byte completed, \<open>feed\<close> runs it over a
  packet.

  The lemmas show that every message that comes out is whole, that the state is bounded, that
  real-time bytes disturb nothing wherever they are injected, and that whatever way a sequence of
  messages is written (with or without running status, cut into packets anywhere) it is decoded
  to that sequence.
\<close>

subsection \<open>The decoder\<close>

type_synonym message = bytes

definition data_len :: "u8 \<Rightarrow> nat" where
  "data_len status =
     (if 0x80 \<le> status \<and> status \<le> 0xBF then 2
      else if 0xC0 \<le> status \<and> status \<le> 0xDF then 1
      else if 0xE0 \<le> status \<and> status \<le> 0xEF then 2
      else if status = 0xF1 then 1
      else if status = 0xF2 then 2
      else if status = 0xF3 then 1
      else 0)"

definition sysex_limit :: nat where
  "sysex_limit = 65536"

record decoder =
  dc_pending :: "(u8 \<times> nat) option"
  dc_data :: bytes
  dc_sysex :: "bytes option"

definition decoder_new :: decoder where
  "decoder_new = \<lparr>dc_pending = None, dc_data = [], dc_sysex = None\<rparr>"

text \<open>The arm of a data byte.\<close>

definition dec_data :: "decoder \<Rightarrow> u8 \<Rightarrow> decoder \<times> message list" where
  "dec_data d b =
     (case dc_sysex d of
        Some dump \<Rightarrow> (d\<lparr>dc_sysex := (if length dump < sysex_limit then Some (dump @ [b]) else None)\<rparr>, [])
      | None \<Rightarrow>
          (case dc_pending d of
             None \<Rightarrow> (d, [])
           | Some (status, want) \<Rightarrow>
               (let xs = dc_data d @ [b]
                in if length xs < want then (d\<lparr>dc_data := xs\<rparr>, [])
                   else
                     (d\<lparr>dc_data := [], dc_pending := (if status < 0xF0 then Some (status, want) else None)\<rparr>,
                      [status # xs]))))"

definition dec_byte :: "decoder \<Rightarrow> u8 \<Rightarrow> decoder \<times> message list" where
  "dec_byte d b =
     (if 0xF8 \<le> b then (d, [[b]])
      else if b = 0xF7 then
        (d\<lparr>dc_sysex := None, dc_pending := None\<rparr>,
         case dc_sysex d of None \<Rightarrow> [] | Some dump \<Rightarrow> [dump @ [b]])
      else if b = 0xF0 then (d\<lparr>dc_pending := None, dc_data := [], dc_sysex := Some [b]\<rparr>, [])
      else if 0x80 \<le> b then
        (let want = data_len b
         in if want = 0 then (d\<lparr>dc_sysex := None, dc_data := [], dc_pending := None\<rparr>, [[b]])
            else (d\<lparr>dc_sysex := None, dc_data := [], dc_pending := Some (b, want)\<rparr>, []))
      else dec_data d b)"

fun feed :: "decoder \<Rightarrow> bytes \<Rightarrow> decoder \<times> message list" where
  "feed d [] = (d, [])"
| "feed d (b # bs) = (let (d1, out) = dec_byte d b; (d2, rest) = feed d1 bs in (d2, out @ rest))"

lemma feed_append:
  "feed d (xs @ ys) = (let (d1, out) = feed d xs; (d2, rest) = feed d1 ys in (d2, out @ rest))"
  by (induction xs arbitrary: d) (auto simp: Let_def case_prod_beta)

lemma feed_single [simp]: "feed d [b] = dec_byte d b"
  by (simp add: Let_def case_prod_beta)

subsection \<open>Whole messages\<close>

abbreviation data_byte :: "u8 \<Rightarrow> bool" where
  "data_byte b \<equiv> b < 0x80"

abbreviation real_time :: "u8 \<Rightarrow> bool" where
  "real_time b \<equiv> 0xF8 \<le> b"

text \<open>A status byte that starts a message of fixed length; the channel statuses latch.\<close>

definition plain_status :: "u8 \<Rightarrow> bool" where
  "plain_status b \<longleftrightarrow> 0x80 \<le> b \<and> b < 0xF7 \<and> b \<noteq> 0xF0"

lemma plain_statusD: "plain_status b \<Longrightarrow> \<not> real_time b \<and> b \<noteq> 0xF7 \<and> b \<noteq> 0xF0 \<and> 0x80 \<le> b"
  unfolding plain_status_def by unat_arith

lemma data_byteD: "data_byte b \<Longrightarrow> \<not> real_time b \<and> b \<noteq> 0xF7 \<and> b \<noteq> 0xF0 \<and> \<not> 0x80 \<le> b"
  by unat_arith

datatype whole = RealTime u8 | Plain u8 bytes | Dump bytes

fun whole_bytes :: "whole \<Rightarrow> message" where
  "whole_bytes (RealTime b) = [b]"
| "whole_bytes (Plain st ds) = st # ds"
| "whole_bytes (Dump ds) = 0xF0 # ds @ [0xF7]"

fun whole_ok :: "whole \<Rightarrow> bool" where
  "whole_ok (RealTime b) = real_time b"
| "whole_ok (Plain st ds) = (plain_status st \<and> length ds = data_len st \<and> list_all data_byte ds)"
| "whole_ok (Dump ds) = (length ds < sysex_limit \<and> list_all data_byte ds)"

definition dec_ok :: "decoder \<Rightarrow> bool" where
  "dec_ok d \<longleftrightarrow>
     list_all data_byte (dc_data d) \<and> length (dc_data d) < 2 \<and>
     (case dc_pending d of
        None \<Rightarrow> True
      | Some (st, want) \<Rightarrow>
          plain_status st \<and> want = data_len st \<and> length (dc_data d) < want \<and> dc_sysex d = None) \<and>
     (case dc_sysex d of
        None \<Rightarrow> True
      | Some dump \<Rightarrow> \<exists>ds. dump = 0xF0 # ds \<and> list_all data_byte ds \<and> length dump \<le> sysex_limit)"

lemma data_len_le: "data_len st \<le> 2"
  by (simp add: data_len_def)

lemma decoder_new_ok: "dec_ok decoder_new"
  by (simp add: dec_ok_def decoder_new_def)

lemma dec_data_ok:
  assumes ok: "dec_ok d" and b: "data_byte b"
  shows "dec_ok (fst (dec_data d b)) \<and> (\<forall>m \<in> set (snd (dec_data d b)). \<exists>w. whole_ok w \<and> m = whole_bytes w)"
proof (cases "dc_sysex d")
  case (Some dump)
  with ok b show ?thesis by (auto simp: dec_ok_def dec_data_def Let_def split: option.splits)
next
  case none: None
  show ?thesis
  proof (cases "dc_pending d")
    case None
    with none ok show ?thesis by (simp add: dec_data_def)
  next
    case (Some p)
    obtain st want where p: "p = (st, want)" by (cases p)
    have "whole_ok (Plain st (dc_data d @ [b]))" if "\<not> length (dc_data d @ [b]) < want"
      using ok b that by (simp add: dec_ok_def none Some p)
    moreover have "length (dc_data d @ [b]) < 2" if "length (dc_data d @ [b]) < want"
      using that data_len_le [of st] ok unfolding dec_ok_def Some p by (simp del: length_0_conv)
    ultimately show ?thesis
      using ok b none Some p
      by (auto simp: dec_ok_def dec_data_def Let_def intro: exI [of _ "Plain st (dc_data d @ [b])"])
  qed
qed

lemma dec_byte_ok:
  assumes ok: "dec_ok d"
  shows "dec_ok (fst (dec_byte d b)) \<and> (\<forall>m \<in> set (snd (dec_byte d b)). \<exists>w. whole_ok w \<and> m = whole_bytes w)"
proof -
  consider "real_time b" | "b = 0xF7" | "b = 0xF0" | "plain_status b" | "data_byte b"
    unfolding plain_status_def by unat_arith
  then show ?thesis
  proof cases
    case 1
    then have "whole_ok (RealTime b)" "[b] = whole_bytes (RealTime b)" by simp_all
    with 1 ok show ?thesis by (fastforce simp: dec_byte_def)
  next
    case 2
    have "whole_ok (Dump ds)" if "dc_sysex d = Some (0xF0 # ds)" for ds
      using ok that by (auto simp: dec_ok_def)
    moreover have "\<exists>ds. dump = 0xF0 # ds" if "dc_sysex d = Some dump" for dump
      using ok that by (auto simp: dec_ok_def)
    ultimately have "\<exists>w. whole_ok w \<and> dump @ [0xF7] = whole_bytes w" if "dc_sysex d = Some dump" for dump
      using that by (metis append_Cons whole_bytes.simps(3))
    with 2 ok show ?thesis by (auto simp: dec_byte_def dec_ok_def split: option.splits)
  next
    case 3
    with ok show ?thesis by (simp add: dec_byte_def dec_ok_def sysex_limit_def)
  next
    case 4
    note b = plain_statusD [OF 4]
    have "whole_ok (Plain b [])" if "data_len b = 0" using 4 that by simp
    with 4 b ok show ?thesis
      by (auto simp: dec_byte_def dec_ok_def Let_def intro: exI [of _ "Plain b []"])
  next
    case 5
    with data_byteD [OF 5] show ?thesis using dec_data_ok [OF ok 5] by (simp add: dec_byte_def)
  qed
qed

lemma feed_ok:
  "dec_ok d \<Longrightarrow>
     dec_ok (fst (feed d bs)) \<and> (\<forall>m \<in> set (snd (feed d bs)). \<exists>w. whole_ok w \<and> m = whole_bytes w)"
proof (induction bs arbitrary: d)
  case (Cons b bs)
  from dec_byte_ok [OF Cons.prems, of b] Cons.IH [of "fst (dec_byte d b)"] show ?case
    by (auto simp: Let_def case_prod_beta)
qed simp

text \<open>
  Whatever bytes a port delivers, cut into packets in whatever way, only whole messages come
  out: a real-time byte, a status byte with exactly the data bytes it wants, or a complete
  system-exclusive dump of at most 65537 bytes. And the decoder's memory stays bounded: at most
  one data byte of an unfinished message and 65536 bytes of an unfinished dump.
\<close>

theorem decoded_messages_are_whole:
  "(\<forall>m \<in> set (snd (feed decoder_new bs)). (\<exists>w. whole_ok w \<and> m = whole_bytes w) \<and> length m \<le> 65537) \<and>
   length (dc_data (fst (feed decoder_new bs))) \<le> 1 \<and>
   (case dc_sysex (fst (feed decoder_new bs)) of None \<Rightarrow> True | Some dump \<Rightarrow> length dump \<le> 65536)"
proof -
  have "length (whole_bytes w) \<le> 65537" if "whole_ok w" for w
    using that data_len_le by (cases w) (auto simp: sysex_limit_def intro: le_trans [OF data_len_le])
  with feed_ok [OF decoder_new_ok, of bs] show ?thesis
    by (fastforce simp: dec_ok_def sysex_limit_def split: option.splits)
qed

theorem decoded_messages_are_whole_witness:
  "snd (feed decoder_new [0x90, 60, 100, 64, 0xF8, 100]) = [[0x90, 60, 100], [0xF8], [0x90, 64, 100]] \<and>
   (\<forall>m \<in> set (snd (feed decoder_new [0x90, 60, 100, 64, 0xF8, 100])). length m \<le> 65537)"
  using decoded_messages_are_whole [of "[0x90, 60, 100, 64, 0xF8, 100]"] 
proof (intro conjI)
  show "snd (feed decoder_new [0x90, 60, 100, 64, 0xF8, 100]) = [[0x90, 60, 100], [0xF8], [0x90, 64, 100]]"
    by code_simp
qed blast

subsection \<open>Real-time bytes\<close>

lemma dec_byte_real_time: "real_time b \<Longrightarrow> dec_byte d b = (d, [[b]])"
  by (simp add: dec_byte_def)

lemma dec_byte_starts_plain:
  assumes "dec_ok d" and b: "\<not> real_time b" and m: "m \<in> set (snd (dec_byte d b))"
  shows "\<not> real_time (hd m)"
proof -
  have st: "\<not> real_time st" if "plain_status st" for st
    using plain_statusD [OF that] by simp
  have dump: "\<not> real_time 0xF0" by simp
  show ?thesis
    using assms st dump
    by (auto simp: dec_byte_def dec_data_def dec_ok_def Let_def split: if_splits option.splits prod.splits)
qed

lemma feed_transparent:
  assumes "dec_ok d"
  shows "fst (feed d bs) = fst (feed d (filter (\<lambda>b. \<not> real_time b) bs)) \<and>
     filter (\<lambda>m. \<not> real_time (hd m)) (snd (feed d bs)) = snd (feed d (filter (\<lambda>b. \<not> real_time b) bs)) \<and>
     filter (\<lambda>m. real_time (hd m)) (snd (feed d bs)) = map (\<lambda>b. [b]) (filter real_time bs)"
  using assms
proof (induction bs arbitrary: d)
  case (Cons b bs)
  show ?case
  proof (cases "real_time b")
    case True
    with Cons show ?thesis by (simp add: dec_byte_real_time Let_def case_prod_beta del: not_le)
  next
    case False
    have plain: "filter (\<lambda>m. \<not> real_time (hd m)) (snd (dec_byte d b)) = snd (dec_byte d b)"
      "filter (\<lambda>m. real_time (hd m)) (snd (dec_byte d b)) = []"
      using dec_byte_starts_plain [OF Cons.prems False] by (simp_all add: filter_id_conv filter_empty_conv del: not_le)
    have "dec_ok (fst (dec_byte d b))" using dec_byte_ok [OF Cons.prems] by simp
    from Cons.IH [OF this] plain False show ?thesis by (simp add: Let_def case_prod_beta del: not_le)
  qed
qed simp

text \<open>
  Real-time bytes (the clock, start, stop) may be injected anywhere, between the bytes of another
  message and inside a dump, and disturb nothing: they come out, each as a message of its own
  and in their order, the other messages are exactly those decoded without them, and so is the
  state that the next packet meets.
\<close>

theorem real_time_is_transparent:
  "(let (d, out) = feed decoder_new bs;
        (d', out') = feed decoder_new (filter (\<lambda>b. \<not> real_time b) bs)
    in d = d' \<and> filter (\<lambda>m. \<not> real_time (hd m)) out = out' \<and>
       filter (\<lambda>m. real_time (hd m)) out = map (\<lambda>b. [b]) (filter real_time bs))"
  using feed_transparent [OF decoder_new_ok, of bs] by (simp add: Let_def case_prod_beta del: not_le)

subsection \<open>Every way to write a sequence of messages\<close>

text \<open>
  The ways in which a sequence of messages may be written on the wire, with the status that is
  latched: in full, or without the status byte where it is the latched one. A system message ends
  the latch, a real-time byte does not.
\<close>

inductive spells :: "u8 option \<Rightarrow> whole list \<Rightarrow> bytes \<Rightarrow> bool" where
  nothing: "spells run [] []"
| clock: "\<lbrakk>real_time b; spells run ws bs\<rbrakk> \<Longrightarrow> spells run (RealTime b # ws) (b # bs)"
| in_full: "\<lbrakk>whole_ok (Plain st ds); spells (if st < 0xF0 then Some st else None) ws bs\<rbrakk>
    \<Longrightarrow> spells run (Plain st ds # ws) (st # ds @ bs)"
| running: "\<lbrakk>whole_ok (Plain st ds); spells (Some st) ws bs\<rbrakk> \<Longrightarrow> spells (Some st) (Plain st ds # ws) (ds @ bs)"
| dump: "\<lbrakk>whole_ok (Dump ds); spells None ws bs\<rbrakk> \<Longrightarrow> spells run (Dump ds # ws) (0xF0 # ds @ 0xF7 # bs)"

definition latched :: "decoder \<Rightarrow> u8 option \<Rightarrow> bool" where
  "latched d run \<longleftrightarrow>
     (case run of
        None \<Rightarrow> True
      | Some st \<Rightarrow> st < 0xF0 \<and> dc_pending d = Some (st, data_len st) \<and> dc_data d = [] \<and> dc_sysex d = None)"

lemma dec_byte_data: "data_byte b \<Longrightarrow> dec_byte d b = dec_data d b"
  using data_byteD [of b] by (simp add: dec_byte_def)

lemma feed_group:
  assumes d: "dc_pending d = Some (st, data_len st)" "dc_data d = []" "dc_sysex d = None"
    and ds: "length ds = data_len st" "list_all data_byte ds" and pos: "data_len st \<noteq> 0"
  defines "d' \<equiv> d\<lparr>dc_data := [], dc_pending := if st < 0xF0 then Some (st, data_len st) else None\<rparr>"
  shows "feed d (ds @ bs) = (fst (feed d' bs), (st # ds) # snd (feed d' bs))"
proof -
  consider "data_len st = 1" | "data_len st = 2" using pos data_len_le [of st] by linarith
  then show ?thesis
  proof cases
    case 1
    then obtain a where "ds = [a]" using ds(1) by (auto simp: length_Suc_conv)
    with 1 d ds show ?thesis by (simp add: dec_byte_data dec_data_def d'_def Let_def case_prod_beta)
  next
    case 2
    then obtain a b where "ds = [a, b]" using ds(1) by (auto simp: length_Suc_conv numeral_2_eq_2)
    with 2 d ds show ?thesis by (simp add: dec_byte_data dec_data_def d'_def Let_def case_prod_beta)
  qed
qed

lemma feed_dump:
  "\<lbrakk>dc_sysex d = Some x; list_all data_byte ds; length x + length ds \<le> sysex_limit\<rbrakk> \<Longrightarrow>
     feed d (ds @ bs) = feed (d\<lparr>dc_sysex := Some (x @ ds)\<rparr>) bs"
proof (induction ds arbitrary: d x)
  case Nil
  then have "d\<lparr>dc_sysex := Some x\<rparr> = d" by (cases d) simp
  then show ?case by simp
next
  case (Cons b ds)
  then show ?case by (simp add: dec_byte_data dec_data_def Let_def case_prod_beta)
qed

lemma dec_byte_status:
  "plain_status st \<Longrightarrow>
     dec_byte d st =
       (d\<lparr>dc_sysex := None, dc_data := [], dc_pending := if data_len st = 0 then None else Some (st, data_len st)\<rparr>,
        if data_len st = 0 then [[st]] else [])"
  using plain_statusD [of st] by (simp add: dec_byte_def Let_def)

lemma data_len_channel: "\<lbrakk>plain_status st; st < 0xF0\<rbrakk> \<Longrightarrow> data_len st \<noteq> 0"
  unfolding plain_status_def data_len_def by (auto simp: word_le_nat_alt word_less_nat_alt)

lemma feed_spelled:
  "spells run ws bs \<Longrightarrow> latched d run \<Longrightarrow> snd (feed d bs) = map whole_bytes ws"
proof (induction arbitrary: d rule: spells.induct)
  case (clock b run ws bs)
  then show ?case by (simp add: dec_byte_real_time Let_def case_prod_beta)
next
  case (in_full st ds ws bs run)
  let ?d = "fst (dec_byte d st)"
  show ?case
  proof (cases "data_len st = 0")
    case True
    then have "\<not> st < 0xF0" using in_full.hyps data_len_channel [of st] by auto
    with True in_full show ?thesis by (simp add: dec_byte_status latched_def Let_def case_prod_beta)
  next
    case False
    have "snd (feed (?d\<lparr>dc_data := [], dc_pending := if st < 0xF0 then Some (st, data_len st) else None\<rparr>) bs)
        = map whole_bytes ws"
      using False in_full.hyps by (intro in_full.IH) (simp add: dec_byte_status latched_def)
    moreover have "snd (dec_byte d st) = []" using False in_full.hyps by (simp add: dec_byte_status)
    ultimately show ?thesis
      using False in_full.hyps feed_group [of ?d st ds bs]
      by (simp add: dec_byte_status Let_def case_prod_beta)
  qed
next
  case (running st ds ws bs)
  have "data_len st \<noteq> 0" using running data_len_channel [of st] by (auto simp: latched_def)
  moreover have "snd (feed (d\<lparr>dc_data := [], dc_pending := if st < 0xF0 then Some (st, data_len st) else None\<rparr>) bs)
      = map whole_bytes ws"
    using running.prems by (intro running.IH) (simp add: latched_def)
  ultimately show ?case using running feed_group [of d st ds bs] by (simp add: latched_def)
next
  case (dump ds ws bs run)
  have 1: "dec_byte d 0xF0 = (d\<lparr>dc_pending := None, dc_data := [], dc_sysex := Some [0xF0]\<rparr>, [])"
    by (simp add: dec_byte_def)
  have 2: "snd (feed e (0xF7 # bs)) = (0xF0 # ds @ [0xF7]) # map whole_bytes ws" if "dc_sysex e = Some (0xF0 # ds)" for e
    using that dump.IH by (simp add: dec_byte_def latched_def Let_def case_prod_beta)
  show ?case using dump.hyps 1 2 by (simp add: Let_def case_prod_beta feed_dump del: feed.simps(2) feed_single)
      (simp add: Let_def case_prod_beta feed_dump 2 [unfolded feed.simps Let_def case_prod_beta])
qed simp

text \<open>
  C23: Whatever way a sequence of messages is written (each in full, or without its status byte where
  running status allows it, with clock bytes between them), and whatever the decoder was in the
  middle of when it began, exactly these messages come out.
\<close>

theorem stream_decodes_to_its_messages:
  assumes "spells None ws bs"
  shows "snd (feed d bs) = map whole_bytes ws"
  using assms by (rule feed_spelled) (simp add: latched_def)

definition chord :: "whole list" where
  "chord = [Plain 0x90 [60, 100], RealTime 0xF8, Plain 0x90 [64, 100], Dump [1, 2], Plain 0xF6 []]"

theorem stream_decodes_to_its_messages_witness:
  "spells None chord [0x90, 60, 100, 0xF8, 64, 100, 0xF0, 1, 2, 0xF7, 0xF6] \<and>
   snd (feed decoder_new [0x90, 60, 100, 0xF8, 64, 100, 0xF0, 1, 2, 0xF7, 0xF6]) = map whole_bytes chord"
proof -
  have "spells None [Plain 0xF6 []] (0xF6 # [] @ [])"
    by (rule in_full) (simp_all add: plain_status_def data_len_def spells.nothing)
  then have "spells (Some 0x90) (Dump [1, 2] # [Plain 0xF6 []]) (0xF0 # [1, 2] @ 0xF7 # 0xF6 # [] @ [])"
    by (rule dump [rotated]) (simp add: sysex_limit_def)
  then have "spells (Some 0x90) (Plain 0x90 [64, 100] # Dump [1, 2] # [Plain 0xF6 []])
      ([64, 100] @ 0xF0 # [1, 2] @ 0xF7 # 0xF6 # [] @ [])"
    by (rule running [rotated]) (simp add: plain_status_def data_len_def)
  then have "spells None chord (0x90 # [60, 100] @ 0xF8 # [64, 100] @ 0xF0 # [1, 2] @ 0xF7 # 0xF6 # [] @ [])"
    unfolding chord_def by (intro in_full) (simp_all add: plain_status_def data_len_def clock)
  then show ?thesis using stream_decodes_to_its_messages [of chord _ decoder_new] by (simp del: feed.simps feed_single)
qed

end
