(* ===== verification/Midi_Router.thy ===== *)
theory Midi_Router
  imports Midi_Stream Wiring Transport
begin

text \<open>
  The MIDI transport between nodes (\<open>crates/wk-server/src/midi.rs\<close>), the callback of a hardware
  input (\<open>midihw.rs\<close>) and the server's pass that brings the routes in line with the canvas
  (\<open>Server::sync_midi\<close>).

  An inbox is shared between the router and the node that reads it, so an inbox has an address
  and the inboxes are a store. The operations of \<open>Routes\<close> return the new routes and the
  events they push, in order, each with the wire and the inbox it goes to; \<open>push_all\<close> performs
  the pushes. A \<open>HashMap\<close> of routes is a map; a \<open>HashSet\<close> of held notes is a list without
  repetitions together with the order in which it happens to be iterated, which is an argument
  \<open>H\<close> of the operations that iterate.
\<close>

unbundle bit_operations_syntax

subsection \<open>Events and inboxes\<close>

record midi_event =
  me_data :: message
  me_time :: u64

definition event_now :: "message \<Rightarrow> midi_event" where
  "event_now d = \<lparr>me_data = d, me_time = 0\<rparr>"

definition is_note_off :: "midi_event \<Rightarrow> bool" where
  "is_note_off e =
     (case me_data e of
        [status, _, velocity] \<Rightarrow> status AND 0xF0 = 0x80 \<or> (status AND 0xF0 = 0x90 \<and> velocity = 0)
      | _ \<Rightarrow> False)"

definition backlog :: nat where
  "backlog = 1024"

type_synonym inbox = "midi_event list"

text \<open>\<open>position\<close> followed by \<open>remove\<close> at that place.\<close>

fun remove_first :: "('a \<Rightarrow> bool) \<Rightarrow> 'a list \<Rightarrow> 'a list option" where
  "remove_first P [] = None"
| "remove_first P (x # xs) = (if P x then Some xs else map_option ((#) x) (remove_first P xs))"

definition inbox_push :: "inbox \<Rightarrow> midi_event \<Rightarrow> inbox" where
  "inbox_push q e =
     (if length q \<ge> backlog
      then (case remove_first (\<lambda>x. \<not> is_note_off x) q of Some q' \<Rightarrow> q' | None \<Rightarrow> tl q)
      else q) @ [e]"

definition inbox_drain :: "inbox \<Rightarrow> inbox \<times> midi_event list" where
  "inbox_drain q = ([], q)"

definition inbox_receive :: "inbox \<Rightarrow> inbox \<times> midi_event option" where
  "inbox_receive q = (case q of [] \<Rightarrow> ([], None) | e # rest \<Rightarrow> (rest, Some e))"

subsection \<open>One wire\<close>

record mlink =
  ml_dst :: node_id
  ml_inbox :: nat
  ml_channel :: "u8 option"
  ml_held :: "(u8 \<times> u8) list"

record hash_order =
  ho_notes :: "mlink \<Rightarrow> (u8 \<times> u8) list"
  ho_channels :: "mlink \<Rightarrow> u8 list"

definition link_carries :: "mlink \<Rightarrow> message \<Rightarrow> bool" where
  "link_carries l msg =
     (case ml_channel l of
        None \<Rightarrow> True
      | Some want \<Rightarrow>
          (case msg of
             status # _ \<Rightarrow> if status < 0xF0 then (status AND 0x0F) + 1 = want else True
           | [] \<Rightarrow> True))"

definition link_observe :: "mlink \<Rightarrow> message \<Rightarrow> mlink" where
  "link_observe l msg =
     (case msg of
        [status, a, b] \<Rightarrow>
          (let channel = status AND 0x0F; k = status AND 0xF0
           in if k = 0x90 \<and> b > 0 then
                l\<lparr>ml_held := (if (channel, a) \<in> set (ml_held l) then ml_held l else ml_held l @ [(channel, a)])\<rparr>
              else if k = 0x80 \<or> k = 0x90 then l\<lparr>ml_held := removeAll (channel, a) (ml_held l)\<rparr>
              else if k = 0xB0 \<and> (a = 120 \<or> a = 121 \<or> a = 123) then
                l\<lparr>ml_held := filter (\<lambda>(c, _). c \<noteq> channel) (ml_held l)\<rparr>
              else l)
      | _ \<Rightarrow> l)"

definition off_message :: "u8 \<times> u8 \<Rightarrow> message" where
  "off_message k = [0x80 OR fst k, snd k, 0]"

definition link_release :: "hash_order \<Rightarrow> mlink \<Rightarrow> mlink \<times> midi_event list" where
  "link_release H l =
     (l\<lparr>ml_held := []\<rparr>,
      map (\<lambda>k. event_now (off_message k)) (ho_notes H l) @
      map (\<lambda>c. event_now [0xB0 OR c, 123, 0]) (ho_channels H l))"

subsection \<open>The routes\<close>

type_synonym routes = "node_id \<rightharpoonup> mlink list"

record delivery =
  dv_src :: node_id
  dv_dst :: node_id
  dv_inbox :: nat
  dv_event :: midi_event

definition deliveries :: "node_id \<Rightarrow> mlink \<Rightarrow> midi_event list \<Rightarrow> delivery list" where
  "deliveries src l es =
     map (\<lambda>e. \<lparr>dv_src = src, dv_dst = ml_dst l, dv_inbox = ml_inbox l, dv_event = e\<rparr>) es"

definition routes_connect :: "routes \<Rightarrow> node_id \<Rightarrow> node_id \<Rightarrow> nat \<Rightarrow> routes" where
  "routes_connect R src dst ibx =
     (let v = (case R src of None \<Rightarrow> [] | Some v \<Rightarrow> v)
      in R(src \<mapsto>
           if \<exists>l \<in> set v. ml_dst l = dst then v
           else v @ [\<lparr>ml_dst = dst, ml_inbox = ibx, ml_channel = None, ml_held = []\<rparr>]))"

text \<open>The loops over the wires of one source: the wires after it, and what they push.\<close>

fun over_links :: "(mlink \<Rightarrow> mlink \<times> midi_event list) \<Rightarrow> node_id \<Rightarrow> mlink list \<Rightarrow> mlink list \<times> delivery list" where
  "over_links act src [] = ([], [])"
| "over_links act src (l # ls) =
     (let (l', es) = act l; (ls', out) = over_links act src ls in (l' # ls', deliveries src l es @ out))"

definition narrow :: "hash_order \<Rightarrow> node_id \<Rightarrow> u8 option \<Rightarrow> mlink \<Rightarrow> mlink \<times> midi_event list" where
  "narrow H dst channel l =
     (if ml_dst l \<noteq> dst \<or> ml_channel l = channel then (l, [])
      else
        (let l1 = l\<lparr>ml_channel := channel\<rparr>;
             orphaned = filter (\<lambda>(c, n). \<not> link_carries l1 [0x90 OR c, n, 1]) (ho_notes H l)
         in (l1\<lparr>ml_held := filter (\<lambda>k. k \<notin> set orphaned) (ml_held l1)\<rparr>,
             map (\<lambda>k. event_now (off_message k)) orphaned)))"

definition routes_set_channel ::
  "hash_order \<Rightarrow> routes \<Rightarrow> node_id \<Rightarrow> node_id \<Rightarrow> u8 option \<Rightarrow> routes \<times> delivery list" where
  "routes_set_channel H R src dst channel0 =
     (let channel = (case channel0 of Some c \<Rightarrow> if 1 \<le> c \<and> c \<le> 16 then Some c else None | None \<Rightarrow> None)
      in case R src of
           None \<Rightarrow> (R, [])
         | Some v \<Rightarrow> (let (v', out) = over_links (narrow H dst channel) src v in (R(src \<mapsto> v'), out)))"

definition routes_disconnect :: "hash_order \<Rightarrow> routes \<Rightarrow> node_id \<Rightarrow> node_id \<Rightarrow> routes \<times> delivery list" where
  "routes_disconnect H R src dst =
     (case R src of
        None \<Rightarrow> (R, [])
      | Some v \<Rightarrow>
          (let (v', out) = over_links (\<lambda>l. if ml_dst l = dst then link_release H l else (l, [])) src v
           in (R(src \<mapsto> filter (\<lambda>l. ml_dst l \<noteq> dst) v'), out)))"

definition routes_remove_node :: "hash_order \<Rightarrow> routes \<Rightarrow> node_id \<Rightarrow> routes \<times> delivery list" where
  "routes_remove_node H R n =
     (let out = (case R n of None \<Rightarrow> [] | Some v \<Rightarrow> snd (over_links (link_release H) n v))
      in (\<lambda>s. if s = n then None else map_option (filter (\<lambda>l. ml_dst l \<noteq> n)) (R s), out))"

definition transmit :: "midi_event \<Rightarrow> mlink \<Rightarrow> mlink \<times> midi_event list" where
  "transmit e l = (if \<not> link_carries l (me_data e) then (l, []) else (link_observe l (me_data e), [e]))"

definition routes_send :: "routes \<Rightarrow> node_id \<Rightarrow> midi_event \<Rightarrow> routes \<times> delivery list" where
  "routes_send R src e =
     (case R src of
        None \<Rightarrow> (R, [])
      | Some v \<Rightarrow> (let (v', out) = over_links (transmit e) src v in (R(src \<mapsto> v'), out)))"

definition push_all :: "(nat \<Rightarrow> inbox) \<Rightarrow> delivery list \<Rightarrow> (nat \<Rightarrow> inbox)" where
  "push_all boxes ds = fold (\<lambda>d bx. bx(dv_inbox d := inbox_push (bx (dv_inbox d)) (dv_event d))) ds boxes"

subsection \<open>Inboxes shed notes, not releases\<close>

lemma remove_first_None: "remove_first P xs = None \<longleftrightarrow> (\<forall>x \<in> set xs. \<not> P x)"
  by (induction xs) auto

lemma remove_first_Some:
  "remove_first P xs = Some ys \<Longrightarrow> \<exists>as x bs. xs = as @ x # bs \<and> ys = as @ bs \<and> P x \<and> (\<forall>a \<in> set as. \<not> P a)"
proof (induction xs arbitrary: ys)
  case (Cons x xs)
  show ?case
  proof (cases "P x")
    case True
    with Cons.prems show ?thesis by (intro exI [of _ "[]"]) auto
  next
    case False
    with Cons.prems obtain zs where zs: "remove_first P xs = Some zs" "ys = x # zs" by auto
    from Cons.IH [OF zs(1)] obtain as y bs
      where "xs = as @ y # bs" "zs = as @ bs" "P y" "\<forall>a \<in> set as. \<not> P a" by blast
    with False zs(2) show ?thesis by (intro exI [of _ "x # as"]) auto
  qed
qed simp

lemma inbox_push_cases:
  assumes "length q \<le> backlog"
  obtains "length q < backlog" "inbox_push q e = q @ [e]"
  | as x bs where "q = as @ x # bs" "\<not> is_note_off x" "\<forall>a \<in> set as. is_note_off a" "inbox_push q e = as @ bs @ [e]"
      "length q = backlog"
  | "length q = backlog" "\<forall>x \<in> set q. is_note_off x" "inbox_push q e = tl q @ [e]"
proof (cases "length q < backlog")
  case True
  then show ?thesis by (intro that(1)) (simp_all add: inbox_push_def)
next
  case False
  with assms have len: "length q = backlog" by simp
  show ?thesis
  proof (cases "remove_first (\<lambda>x. \<not> is_note_off x) q")
    case None
    then have "\<forall>x \<in> set q. is_note_off x" by (simp add: remove_first_None)
    with None len show ?thesis by (intro that(3)) (simp_all add: inbox_push_def)
  next
    case (Some q')
    from remove_first_Some [OF this] obtain as x bs
      where "q = as @ x # bs" "q' = as @ bs" "\<not> is_note_off x" "\<forall>a \<in> set as. is_note_off a" by auto
    with Some len show ?thesis by (intro that(2)) (auto simp: inbox_push_def)
  qed
qed



subsection \<open>What a receiver hears over one wire\<close>

text \<open>
  The notes that sound at a receiver that keeps the channels apart. \<open>K\<close> holds the controllers on
  which it releases the notes of a channel; the synthesiser plugin has 120 and 123.
\<close>

definition sounds :: "u8 set \<Rightarrow> message \<Rightarrow> (u8 \<times> u8) set \<Rightarrow> (u8 \<times> u8) set" where
  "sounds K msg S =
     (case msg of
        [status, a, b] \<Rightarrow>
          (let channel = status AND 0x0F; k = status AND 0xF0
           in if k = 0x90 \<and> b > 0 then insert (channel, a) S
              else if k = 0x80 \<or> k = 0x90 then S - {(channel, a)}
              else if k = 0xB0 \<and> a \<in> K then {k \<in> S. fst k \<noteq> channel}
              else S)
      | _ \<Rightarrow> S)"

text \<open>A message whose effect on the notes the receiver sees as the router does.\<close>

definition heeded :: "u8 set \<Rightarrow> message \<Rightarrow> bool" where
  "heeded K msg =
     (case msg of
        [status, a, b] \<Rightarrow> status AND 0xF0 = 0xB0 \<and> (a = 120 \<or> a = 121 \<or> a = 123) \<longrightarrow> a \<in> K
      | _ \<Rightarrow> True)"

definition link_ok :: "mlink \<Rightarrow> bool" where
  "link_ok l \<longleftrightarrow>
     distinct (ml_held l) \<and>
     (\<forall>(c, n) \<in> set (ml_held l). c \<le> 15 \<and> (case ml_channel l of None \<Rightarrow> True | Some w \<Rightarrow> c + 1 = w))"

definition hash_ok :: "hash_order \<Rightarrow> bool" where
  "hash_ok H \<longleftrightarrow>
     (\<forall>l. distinct (ml_held l) \<longrightarrow>
        set (ho_notes H l) = set (ml_held l) \<and> set (ho_channels H l) = fst ` set (ml_held l))"

lemma sounds_off: "c \<le> 15 \<Longrightarrow> sounds K (off_message (c, n)) S = S - {(c, n)}"
  using low_nibble_only [of c]
  by (simp add: sounds_def off_message_def Let_def bit.conj_disj_distrib2)

lemma sounds_mode: "c \<le> 15 \<Longrightarrow> sounds K [0xB0 OR c, a, b] S \<subseteq> S"
  using low_nibble_only [of c] by (auto simp: sounds_def Let_def bit.conj_disj_distrib2)

lemma fold_sounds_off:
  "\<forall>(c, n) \<in> set ks. c \<le> 15 \<Longrightarrow> fold (sounds K) (map off_message ks) S = S - set ks"
  by (induction ks arbitrary: S) (auto simp: sounds_off)

lemma fold_sounds_mode:
  "\<forall>c \<in> set cs. c \<le> 15 \<Longrightarrow> fold (sounds K) (map (\<lambda>c. [0xB0 OR c, a, b]) cs) S \<subseteq> S"
proof (induction cs arbitrary: S)
  case (Cons c cs)
  then have "fold (sounds K) (map (\<lambda>c. [0xB0 OR c, a, b]) cs) (sounds K [0xB0 OR c, a, b] S) \<subseteq> sounds K [0xB0 OR c, a, b] S"
    by simp
  also have "\<dots> \<subseteq> S" using Cons.prems by (simp add: sounds_mode)
  finally show ?case by simp
qed simp

text \<open>
  What a wire does in one operation, as a condition on the action: it keeps its ends, stays well
  formed, and the notes it holds go on to include those that sound over it.
\<close>

definition wire_action :: "u8 set \<Rightarrow> (mlink \<Rightarrow> mlink \<times> midi_event list) \<Rightarrow> bool" where
  "wire_action K act \<longleftrightarrow>
     (\<forall>l. ml_dst (fst (act l)) = ml_dst l \<and>
        (link_ok l \<longrightarrow>
           link_ok (fst (act l)) \<and>
           (\<forall>S \<subseteq> set (ml_held l). fold (sounds K) (map me_data (snd (act l))) S \<subseteq> set (ml_held (fst (act l))))))"

lemma wire_actionI:
  assumes "\<And>l. ml_dst (fst (act l)) = ml_dst l"
    and "\<And>l. link_ok l \<Longrightarrow> link_ok (fst (act l))"
    and "\<And>l S. \<lbrakk>link_ok l; S \<subseteq> set (ml_held l)\<rbrakk> \<Longrightarrow>
        fold (sounds K) (map me_data (snd (act l))) S \<subseteq> set (ml_held (fst (act l)))"
  shows "wire_action K act"
  using assms by (simp add: wire_action_def)

lemma wire_actionD:
  assumes "wire_action K act"
  shows "ml_dst (fst (act l)) = ml_dst l"
    and "link_ok l \<Longrightarrow> link_ok (fst (act l))"
    and "\<lbrakk>link_ok l; S \<subseteq> set (ml_held l)\<rbrakk> \<Longrightarrow>
        fold (sounds K) (map me_data (snd (act l))) S \<subseteq> set (ml_held (fst (act l)))"
  using assms by (simp_all add: wire_action_def)

lemma hash_notes: "\<lbrakk>hash_ok H; link_ok l\<rbrakk> \<Longrightarrow> set (ho_notes H l) = set (ml_held l)"
  by (simp add: hash_ok_def link_ok_def)

lemma link_ok_channels: "link_ok l \<Longrightarrow> \<forall>(c, n) \<in> set (ml_held l). c \<le> 15"
  by (auto simp: link_ok_def)

lemma release_action:
  assumes H: "hash_ok H"
  shows "wire_action K (link_release H)"
proof (rule wire_actionI)
  fix l S assume l: "link_ok l" and S: "S \<subseteq> set (ml_held l)"
  have n: "set (ho_notes H l) = set (ml_held l)" by (rule hash_notes [OF H l])
  have "set (ho_channels H l) = fst ` set (ml_held l)" using H l by (simp add: hash_ok_def link_ok_def)
  then have c: "\<forall>c \<in> set (ho_channels H l). c \<le> 15" using link_ok_channels [OF l] by auto
  have "fold (sounds K) (map me_data (snd (link_release H l))) S =
      fold (sounds K) (map (\<lambda>c. [0xB0 OR c, 123, 0]) (ho_channels H l)) (S - set (ho_notes H l))"
    using link_ok_channels [OF l] fold_sounds_off [of "ho_notes H l" K S]
    by (simp add: link_release_def event_now_def n comp_def)
  also have "\<dots> \<subseteq> S - set (ho_notes H l)" by (rule fold_sounds_mode [OF c])
  finally show "fold (sounds K) (map me_data (snd (link_release H l))) S \<subseteq> set (ml_held (fst (link_release H l)))"
    using S n by auto
qed (simp_all add: link_release_def link_ok_def)

lemma select_action:
  assumes "wire_action K act"
  shows "wire_action K (\<lambda>l. if P l then act l else (l, []))"
  using assms by (simp add: wire_action_def)

lemma carried_channel:
  assumes "link_carries l (status # rest)" and "status < 0xF0" and "ml_channel l = Some w"
  shows "(status AND 0x0F) + 1 = w"
  using assms by (simp add: link_carries_def)

lemma voice_status: "x AND 0xF0 = 0x90 \<Longrightarrow> x < (0xF0 :: u8)"
proof (rule ccontr)
  assume x: "x AND 0xF0 = 0x90" and "\<not> x < 0xF0"
  then have "0xF0 \<le> x" by simp
  then have "unat x \<ge> 0xF0" by (simp add: word_le_nat_alt)
  moreover have "unat x < 256" using unsigned_less [of x] by simp
  ultimately have "unat x \<in> set [240..<256]" by (simp only: set_upt atLeastLessThan_iff)
  moreover have "x = word_of_nat (unat x)" by simp
  ultimately have "x \<in> word_of_nat ` set [240..<256]" by blast
  then show False using x by (simp add: upt_conv_Cons) (elim disjE; simp)
qed

lemma transmit_action:
  assumes "heeded K (me_data e)"
  shows "wire_action K (transmit e)"
proof (rule wire_actionI)
  fix l assume l: "link_ok l"
  show "link_ok (fst (transmit e l))"
  proof (cases "\<exists>status a b. me_data e = [status, a, b] \<and> link_carries l (me_data e)")
    case True
    then obtain status a b where e: "me_data e = [status, a, b]" and c: "link_carries l [status, a, b]" by auto
    have "(case ml_channel l of None \<Rightarrow> True | Some w \<Rightarrow> (status AND 0x0F) + 1 = w)" if "status AND 0xF0 = 0x90"
      using carried_channel [OF c voice_status [OF that]] by (simp split: option.splits)
    with l c show ?thesis
      by (auto simp: transmit_def e link_observe_def link_ok_def Let_def low_nibble_le distinct_removeAll)
  next
    case False
    with l show ?thesis by (auto simp: transmit_def link_observe_def split: list.splits)
  qed
next
  fix l S assume "link_ok l" and S: "S \<subseteq> set (ml_held l)"
  then show "fold (sounds K) (map me_data (snd (transmit e l))) S \<subseteq> set (ml_held (fst (transmit e l)))"
    using assms
    by (auto simp: transmit_def link_observe_def sounds_def heeded_def Let_def split: list.splits if_splits)
qed (simp add: transmit_def link_observe_def Let_def split: list.splits)

lemma narrow_action:
  assumes H: "hash_ok H" and c: "case channel of None \<Rightarrow> True | Some w \<Rightarrow> 1 \<le> w \<and> w \<le> 16"
  shows "wire_action K (narrow H dst channel)"
proof (rule wire_actionI)
  fix l assume l: "link_ok l"
  show "link_ok (fst (narrow H dst channel l))"
  proof (cases "ml_dst l = dst \<and> ml_channel l \<noteq> channel")
    case True
    have "c + 1 = w"
      if "channel = Some w" "(c, n) \<in> set (ml_held l)" "link_carries (l\<lparr>ml_channel := channel\<rparr>) [0x90 OR c, n, 1]" for c n w
    proof -
      have "c \<le> 15" using link_ok_channels [OF l] that by auto
      then have "(0x90 OR c) AND 0xF0 = 0x90" "(0x90 OR c) AND 0x0F = c" by (simp_all add: status_byte)
      then show ?thesis using carried_channel [OF that(3) voice_status] that(1) by simp
    qed
    with True l hash_notes [OF H l] show ?thesis
      by (fastforce simp: narrow_def Let_def link_ok_def split: option.splits)
  next
    case False
    with l show ?thesis by (auto simp: narrow_def)
  qed
next
  fix l S assume l: "link_ok l" and S: "S \<subseteq> set (ml_held l)"
  let ?o = "filter (\<lambda>(c, n). \<not> link_carries (l\<lparr>ml_channel := channel\<rparr>) [0x90 OR c, n, 1]) (ho_notes H l)"
  have "\<forall>(c, n) \<in> set ?o. c \<le> 15" using link_ok_channels [OF l] hash_notes [OF H l] by auto
  from fold_sounds_off [OF this, of K S] S
  show "fold (sounds K) (map me_data (snd (narrow H dst channel l))) S \<subseteq> set (ml_held (fst (narrow H dst channel l)))"
    by (auto simp: narrow_def Let_def event_now_def comp_def)
qed (simp add: narrow_def Let_def)

subsection \<open>Runs of the router\<close>

datatype route_op =
    Connect node_id node_id nat
  | SetChannel node_id node_id "u8 option"
  | Disconnect node_id node_id
  | RemoveNode node_id
  | SendFrom node_id midi_event

fun route_step :: "hash_order \<Rightarrow> route_op \<Rightarrow> routes \<Rightarrow> routes \<times> delivery list" where
  "route_step H (Connect src dst ibx) R = (routes_connect R src dst ibx, [])"
| "route_step H (SetChannel src dst ch) R = routes_set_channel H R src dst ch"
| "route_step H (Disconnect src dst) R = routes_disconnect H R src dst"
| "route_step H (RemoveNode n) R = routes_remove_node H R n"
| "route_step H (SendFrom src e) R = routes_send R src e"

text \<open>
  What sounds at \<open>d\<close> because of the wire from \<open>s\<close>: a node that is removed takes its voices with
  it.
\<close>

type_synonym voices = "node_id \<Rightarrow> node_id \<Rightarrow> (u8 \<times> u8) set"

definition over_wire :: "node_id \<Rightarrow> node_id \<Rightarrow> delivery list \<Rightarrow> message list" where
  "over_wire s d ds = map (\<lambda>x. me_data (dv_event x)) (filter (\<lambda>x. dv_src x = s \<and> dv_dst x = d) ds)"

definition route_exec :: "u8 set \<Rightarrow> hash_order \<times> route_op \<Rightarrow> routes \<times> voices \<Rightarrow> routes \<times> voices" where
  "route_exec K = (\<lambda>(H, c) (R, V).
     let (R', ds) = route_step H c R
     in (R', \<lambda>s d. if c = RemoveNode d then {} else fold (sounds K) (over_wire s d ds) (V s d)))"

definition route_perform :: "u8 set \<Rightarrow> (hash_order \<times> route_op) list \<Rightarrow> routes \<times> voices" where
  "route_perform K cs = fold (route_exec K) cs (Map.empty, \<lambda>s d. {})"

definition held_over :: "mlink list \<Rightarrow> node_id \<Rightarrow> (u8 \<times> u8) set" where
  "held_over v d = (\<Union>l \<in> {l \<in> set v. ml_dst l = d}. set (ml_held l))"

definition links_of :: "routes \<Rightarrow> node_id \<Rightarrow> mlink list" where
  "links_of R s = (case R s of None \<Rightarrow> [] | Some v \<Rightarrow> v)"

definition links_ok :: "mlink list \<Rightarrow> bool" where
  "links_ok v \<longleftrightarrow> distinct (map ml_dst v) \<and> (\<forall>l \<in> set v. link_ok l)"

definition tracked :: "routes \<times> voices \<Rightarrow> bool" where
  "tracked = (\<lambda>(R, V). (\<forall>s. links_ok (links_of R s)) \<and> (\<forall>s d. V s d \<subseteq> held_over (links_of R s) d))"

lemma over_wire_simps [simp]:
  "over_wire s d [] = []"
  "over_wire s d (xs @ ys) = over_wire s d xs @ over_wire s d ys"
  "over_wire s d (deliveries src l es) = (if src = s \<and> ml_dst l = d then map me_data es else [])"
  by (auto simp: over_wire_def deliveries_def comp_def)

lemma held_over_simps [simp]:
  "held_over [] d = {}"
  "held_over (l # ls) d = (if ml_dst l = d then set (ml_held l) else {}) \<union> held_over ls d"
  by (auto simp: held_over_def)

lemma held_over_absent: "d \<notin> ml_dst ` set v \<Longrightarrow> held_over v d = {}"
  by (auto simp: held_over_def)

lemma over_links_elsewhere:
  "s \<noteq> src \<or> d \<notin> ml_dst ` set v \<Longrightarrow> over_wire s d (snd (over_links act src v)) = []"
  by (induction v) (auto simp: Let_def case_prod_beta)

lemma over_links_dst:
  "wire_action K act \<Longrightarrow> map ml_dst (fst (over_links act src v)) = map ml_dst v"
  by (induction v) (simp_all add: Let_def case_prod_beta wire_actionD)

lemma over_links_ok:
  assumes "wire_action K act" and "links_ok v"
  shows "links_ok (fst (over_links act src v))"
proof -
  have "\<forall>l \<in> set (fst (over_links act src v)). link_ok l"
    using assms by (induction v) (simp_all add: Let_def case_prod_beta links_ok_def wire_actionD)
  with assms show ?thesis by (simp add: links_ok_def over_links_dst)
qed

lemma over_links_tracked:
  assumes act: "wire_action K act"
  shows "links_ok v \<Longrightarrow> S \<subseteq> held_over v d \<Longrightarrow>
    fold (sounds K) (over_wire src d (snd (over_links act src v))) S \<subseteq> held_over (fst (over_links act src v)) d"
proof (induction v arbitrary: S)
  case (Cons l v)
  have dst: "ml_dst (fst (act l)) = ml_dst l" by (rule wire_actionD(1) [OF act])
  show ?case
  proof (cases "ml_dst l = d")
    case True
    with Cons.prems have d: "d \<notin> ml_dst ` set v" and l: "link_ok l" by (auto simp: links_ok_def)
    then have "S \<subseteq> set (ml_held l)" using Cons.prems True by (simp add: held_over_absent)
    then have "fold (sounds K) (map me_data (snd (act l))) S \<subseteq> set (ml_held (fst (act l)))"
      by (rule wire_actionD(3) [OF act l])
    with True d dst show ?thesis by (auto simp: Let_def case_prod_beta over_links_elsewhere)
  next
    case False
    with Cons dst show ?thesis by (auto simp: Let_def case_prod_beta links_ok_def)
  qed
qed simp

lemma tracked_one_source:
  assumes act: "wire_action K act" and t: "tracked (R, V)" and v: "R src = Some v"
  shows "tracked (R(src \<mapsto> fst (over_links act src v)),
     \<lambda>s d. fold (sounds K) (over_wire s d (snd (over_links act src v))) (V s d))"
proof -
  have v': "links_of R src = v" by (simp add: links_of_def v)
  with t have ok: "links_ok v" and V: "\<And>d. V src d \<subseteq> held_over v d" by (auto simp: tracked_def)
  have l: "links_of (R(src \<mapsto> w)) s = (if s = src then w else links_of R s)" for w s by (simp add: links_of_def)
  show ?thesis
    using t over_links_ok [OF act ok] over_links_tracked [OF act ok V]
    by (simp add: tracked_def l over_links_elsewhere)
qed

lemma held_over_filter: "held_over (filter (\<lambda>l. ml_dst l \<noteq> n) v) d = (if d = n then {} else held_over v d)"
  by (auto simp: held_over_def)

lemma links_ok_filter: "links_ok v \<Longrightarrow> links_ok (filter P v)"
  by (auto simp: links_ok_def distinct_map_filter)

lemma released_over_links:
  assumes H: "hash_ok H" and ok: "links_ok v" and S: "S \<subseteq> held_over v d"
    and P: "P d" and act: "act = (\<lambda>l. if P (ml_dst l) then link_release H l else (l, []))"
  shows "fold (sounds K) (over_wire src d (snd (over_links act src v))) S = {}"
proof -
  have a: "wire_action K act" unfolding act by (intro select_action release_action H)
  have "held_over (fst (over_links act src v)) d = {}"
    using P by (induction v) (auto simp: Let_def case_prod_beta act link_release_def)
  with over_links_tracked [OF a ok S, of src] show ?thesis by simp
qed

lemma tracked_send:
  assumes "heeded K (me_data e)" and "tracked (R, V)"
  shows "tracked (fst (routes_send R src e), \<lambda>s d. fold (sounds K) (over_wire s d (snd (routes_send R src e))) (V s d))"
proof (cases "R src")
  case None
  with assms show ?thesis by (simp add: routes_send_def)
next
  case (Some v)
  from tracked_one_source [OF transmit_action [OF assms(1)] assms(2) this] show ?thesis
    by (simp add: routes_send_def Some case_prod_beta)
qed

lemma tracked_set_channel:
  assumes "hash_ok H" and "tracked (R, V)"
  shows "tracked (fst (routes_set_channel H R src dst ch),
     \<lambda>s d. fold (sounds K) (over_wire s d (snd (routes_set_channel H R src dst ch))) (V s d))"
proof (cases "R src")
  case None
  with assms show ?thesis by (simp add: routes_set_channel_def)
next
  case (Some v)
  define c where "c = (case ch of Some c \<Rightarrow> if 1 \<le> c \<and> c \<le> 16 then Some c else None | None \<Rightarrow> None)"
  have "case c of None \<Rightarrow> True | Some w \<Rightarrow> 1 \<le> w \<and> w \<le> 16"
    by (simp add: c_def split: option.splits if_splits)
  from tracked_one_source [OF narrow_action [OF assms(1) this, of K dst] assms(2) Some] show ?thesis
    by (simp add: routes_set_channel_def Some case_prod_beta c_def Let_def)
qed

lemma tracked_disconnect:
  assumes H: "hash_ok H" and t: "tracked (R, V)"
  shows "tracked (fst (routes_disconnect H R src dst),
     \<lambda>s d. fold (sounds K) (over_wire s d (snd (routes_disconnect H R src dst))) (V s d))"
proof (cases "R src")
  case None
  with t show ?thesis by (simp add: routes_disconnect_def)
next
  case (Some v)
  let ?act = "\<lambda>l. if ml_dst l = dst then link_release H l else (l, [])"
  let ?V = "\<lambda>s d. fold (sounds K) (over_wire s d (snd (over_links ?act src v))) (V s d)"
  have a: "wire_action K ?act" by (intro select_action release_action H)
  have "tracked (R(src \<mapsto> fst (over_links ?act src v)), ?V)" by (rule tracked_one_source [OF a t Some])
  then have 1: "links_ok (links_of (R(src \<mapsto> fst (over_links ?act src v))) s)"
      "?V s d \<subseteq> held_over (links_of (R(src \<mapsto> fst (over_links ?act src v))) s) d" for s d
    by (auto simp: tracked_def)
  have "links_of R src = v" by (simp add: links_of_def Some)
  then have ok: "links_ok v" "V src dst \<subseteq> held_over v dst" using t by (auto simp: tracked_def)
  have 2: "?V src dst = {}" using released_over_links [OF H ok, of "\<lambda>d. d = dst"] by simp
  have "links_ok (links_of (R(src \<mapsto> filter (\<lambda>l. ml_dst l \<noteq> dst) (fst (over_links ?act src v)))) s) \<and>
      ?V s d \<subseteq> held_over (links_of (R(src \<mapsto> filter (\<lambda>l. ml_dst l \<noteq> dst) (fst (over_links ?act src v)))) s) d" for s d
    using 1 [of s] 2 by (cases "s = src"; cases "d = dst") (auto simp: links_of_def held_over_filter links_ok_filter)
  then show ?thesis by (simp add: tracked_def routes_disconnect_def Some case_prod_beta)
qed

lemma tracked_remove:
  assumes H: "hash_ok H" and t: "tracked (R, V)"
  shows "tracked (fst (routes_remove_node H R n),
     \<lambda>s d. if d = n then {} else fold (sounds K) (over_wire s d (snd (routes_remove_node H R n))) (V s d))"
proof -
  have ok: "links_ok (links_of R s)" "V s d \<subseteq> held_over (links_of R s) d" for s d using t by (auto simp: tracked_def)
  have l: "links_of (fst (routes_remove_node H R n)) s =
      (if s = n then [] else filter (\<lambda>l. ml_dst l \<noteq> n) (links_of R s))" for s
    by (simp add: routes_remove_node_def links_of_def Let_def split: option.splits)
  have out: "snd (routes_remove_node H R n) = snd (over_links (link_release H) n (links_of R n))"
    by (simp add: routes_remove_node_def links_of_def Let_def split: option.splits)
  have "fold (sounds K) (over_wire s d (snd (routes_remove_node H R n))) (V s d) \<subseteq>
      held_over (links_of (fst (routes_remove_node H R n)) s) d" if "d \<noteq> n" for s d
  proof (cases "s = n")
    case True
    then show ?thesis
      using released_over_links [OF H ok, of "\<lambda>_. True" d "link_release H" K n] by (simp add: out)
  next
    case False
    with that ok show ?thesis by (simp add: out l over_links_elsewhere held_over_filter)
  qed
  moreover have "links_ok (links_of (fst (routes_remove_node H R n)) s)" for s
    using links_ok_filter [OF ok(1)] by (simp add: l) (simp add: links_ok_def)
  ultimately show ?thesis by (simp add: tracked_def)
qed

lemma tracked_connect:
  assumes "tracked (R, V)"
  shows "tracked (routes_connect R src dst ibx, V)"
proof -
  have "links_ok (links_of (routes_connect R src dst ibx) s) \<and>
      held_over (links_of (routes_connect R src dst ibx) s) d = held_over (links_of R s) d" for s d
    using assms
    by (auto simp: tracked_def routes_connect_def links_of_def Let_def links_ok_def link_ok_def held_over_def
        split: option.splits)
  with assms show ?thesis by (simp add: tracked_def)
qed

text \<open>A run in which the wires carry no mode message that the receiver does not heed.\<close>

fun op_heeded :: "u8 set \<Rightarrow> route_op \<Rightarrow> bool" where
  "op_heeded K (SendFrom src e) = heeded K (me_data e)"
| "op_heeded K _ = True"

lemma tracked_exec:
  assumes "hash_ok H" and "op_heeded K c" and "tracked rv"
  shows "tracked (route_exec K (H, c) rv)"
proof -
  obtain R V where rv: "rv = (R, V)" by (cases rv)
  show ?thesis
  proof (cases c)
    case (Connect src dst ibx)
    with assms rv show ?thesis by (simp add: route_exec_def tracked_connect)
  next
    case (SetChannel src dst ch)
    with assms rv show ?thesis by (simp add: route_exec_def case_prod_beta tracked_set_channel)
  next
    case (Disconnect src dst)
    with assms rv show ?thesis by (simp add: route_exec_def case_prod_beta tracked_disconnect)
  next
    case (RemoveNode n)
    with tracked_remove [OF assms(1), of R V n K] assms rv show ?thesis
      by (simp add: route_exec_def case_prod_beta eq_commute cong: if_cong)
  next
    case (SendFrom src e)
    with assms rv show ?thesis by (simp add: route_exec_def case_prod_beta tracked_send)
  qed
qed

lemma tracked_perform:
  "\<forall>(H, c) \<in> set cs. hash_ok H \<and> op_heeded K c \<Longrightarrow> tracked (route_perform K cs)"
proof (induction cs rule: rev_induct)
  case Nil
  then show ?case by (simp add: route_perform_def tracked_def links_of_def links_ok_def)
next
  case (snoc x cs)
  then show ?case by (cases x) (simp add: route_perform_def tracked_exec)
qed


definition in_order :: hash_order where
  "in_order = \<lparr>ho_notes = ml_held, ho_channels = (\<lambda>l. remdups (map fst (ml_held l)))\<rparr>"

lemma in_order_ok: "hash_ok in_order"
  by (simp add: hash_ok_def in_order_def)

definition pulled_cable :: "(hash_order \<times> route_op) list" where
  "pulled_cable =
     map (Pair in_order)
       [Connect 1 2 7, SendFrom 1 (event_now [0x90, 60, 100]), SendFrom 1 (event_now [0x92, 64, 100]),
        SetChannel 1 2 (Some 1), Disconnect 1 2]"

lemmas route_eval = route_perform_def route_exec_def routes_connect_def routes_send_def routes_set_channel_def
  routes_disconnect_def links_of_def Let_def transmit_def link_carries_def link_observe_def narrow_def
  link_release_def in_order_def off_message_def deliveries_def event_now_def over_wire_def sounds_def


text \<open>
  A wire forgets its notes too early. It stops tracking a channel on \<^emph>\<open>reset all controllers\<close>
  (121), on which the synthesiser and the arpeggiator (which heed 120 and 123) keep sounding:
  after a note-on, a 121 and the pull of the cable, the note sounds for ever, and nothing was
  sent to stop it.
\<close>

theorem reset_controllers_leaves_a_note:
  "snd (route_perform {120, 123}
     (map (Pair in_order)
       [Connect 1 2 7, SendFrom 1 (event_now [0x90, 60, 100]), SendFrom 1 (event_now [0xB0, 121, 0]), Disconnect 1 2])) 1 2
   = {(0, 60)}"
  by (simp add: route_eval)

text \<open>
  An inbox that is full of releases sheds the one message that would silence a whole channel,
  although the wire that carried it has stopped tracking the channel's notes.
\<close>

lemma all_notes_off_is_shed:
  assumes "length offs = backlog - 1" and "\<forall>e \<in> set offs. is_note_off e"
  shows "inbox_push (event_now [0xB0, 123, 0] # offs) e = offs @ [e]"
proof -
  have "\<not> is_note_off (event_now [0xB0, 123, 0])" by (simp add: is_note_off_def event_now_def)
  then show ?thesis using assms by (simp add: inbox_push_def backlog_def)
qed

end
