(* ===== verification/Midi_Sync.thy ===== *)
theory Midi_Sync
  imports Midi_Router
begin

text \<open>
  The two callers of the router: the callback of a hardware input port
  (\<open>crates/wk-server/src/midihw.rs\<close>, \<open>imp::open\<close>), and the server's pass that brings the routes in
  line with the wires on the canvas (\<open>Server::sync_midi\<close> of \<open>crates/wk-server/src/server.rs\<close>).

  The port library hands the callback a list of packets, each a time stamp and bytes;
  \<open>to_wk\<close> converts a stamp to the shared clock and is an argument. In \<open>sync_midi\<close>, the questions
  that tokens answer (\<open>node_may_use\<close>) and the inbox of a node, if it has one, are arguments.
\<close>

subsection \<open>Hardware input\<close>

fun packet_events ::
  "('t \<Rightarrow> u64) \<Rightarrow> decoder \<Rightarrow> ('t \<times> bytes) list \<Rightarrow> decoder \<times> midi_event list" where
  "packet_events to_wk d [] = (d, [])"
| "packet_events to_wk d ((stamp, bs) # ps) =
     (let tm = to_wk stamp;
          (d1, msgs) = feed d bs;
          (d2, es) = packet_events to_wk d1 ps
      in (d2, map (\<lambda>m. \<lparr>me_data = m, me_time = tm\<rparr>) msgs @ es))"

fun send_events :: "routes \<Rightarrow> node_id \<Rightarrow> midi_event list \<Rightarrow> routes \<times> delivery list" where
  "send_events R n [] = (R, [])"
| "send_events R n (e # es) =
     (let (R1, out) = routes_send R n e; (R2, rest) = send_events R1 n es in (R2, out @ rest))"

definition input_callback ::
  "('t \<Rightarrow> u64) \<Rightarrow> node_id \<Rightarrow> ('t \<times> bytes) list \<Rightarrow> decoder \<Rightarrow> routes \<Rightarrow> decoder \<times> routes \<times> delivery list" where
  "input_callback to_wk n packets d R =
     (let (d', events) = packet_events to_wk d packets
      in if events = [] then (d', R, []) else (d', send_events R n events))"

lemma packet_events_feed:
  "fst (packet_events to_wk d ps) = fst (feed d (concat (map snd ps))) \<and>
   map me_data (snd (packet_events to_wk d ps)) = snd (feed d (concat (map snd ps)))"
proof (induction ps arbitrary: d)
  case (Cons p ps)
  from Cons.IH [of "fst (feed d (snd p))"] show ?case
    by (cases p) (simp add: feed_append Let_def case_prod_beta comp_def)
qed simp

definition open_wire :: "mlink \<Rightarrow> bool" where
  "open_wire l \<longleftrightarrow> ml_channel l = None"

lemma over_links_transmit:
  "\<lbrakk>distinct (map ml_dst v); l \<in> set v; open_wire l\<rbrakk> \<Longrightarrow>
     over_wire n (ml_dst l) (snd (over_links (transmit e) n v)) = [me_data e] \<and>
     (\<exists>l' \<in> set (fst (over_links (transmit e) n v)). ml_dst l' = ml_dst l \<and> open_wire l') \<and>
     map ml_dst (fst (over_links (transmit e) n v)) = map ml_dst v"
proof (induction v)
  case (Cons m v)
  have keep: "ml_dst (fst (transmit e k)) = ml_dst k" for k by (simp add: transmit_def link_observe_def Let_def split: list.splits)
  have dsts: "map ml_dst (fst (over_links (transmit e) n v)) = map ml_dst v" for v
    by (induction v) (simp_all add: keep Let_def case_prod_beta)
  show ?case
  proof (cases "m = l")
    case True
    then have "fst (transmit e m) = link_observe m (me_data e)" "snd (transmit e m) = [e]"
      using Cons.prems(3) by (simp_all add: transmit_def link_carries_def open_wire_def)
    moreover have "open_wire (link_observe l (me_data e))"
      using Cons.prems(3) by (simp add: open_wire_def link_observe_def Let_def split: list.splits)
    moreover have "ml_dst l \<notin> ml_dst ` set v" using Cons.prems(1) True by simp
    ultimately show ?thesis
      using True keep [of l] by (simp add: Let_def case_prod_beta dsts over_links_elsewhere)
  next
    case False
    then have "l \<in> set v" using Cons.prems by simp
    moreover have "ml_dst m \<noteq> ml_dst l" using Cons.prems(1) calculation by auto
    ultimately show ?thesis using Cons.IH Cons.prems keep [of m] by (simp add: Let_def case_prod_beta)
  qed
qed simp

lemma send_events_over_open_wire:
  "\<lbrakk>R n = Some v; distinct (map ml_dst v); l \<in> set v; open_wire l\<rbrakk> \<Longrightarrow>
     over_wire n (ml_dst l) (snd (send_events R n es)) = map me_data es"
proof (induction es arbitrary: R v l)
  case (Cons e es)
  note t = over_links_transmit [OF Cons.prems(2-4), of n e]
  then obtain l' where l': "l' \<in> set (fst (over_links (transmit e) n v))" "ml_dst l' = ml_dst l" "open_wire l'" by blast
  have "distinct (map ml_dst (fst (over_links (transmit e) n v)))" using t Cons.prems(2) by simp
  then have "over_wire n (ml_dst l') (snd (send_events (R(n \<mapsto> fst (over_links (transmit e) n v))) n es)) = map me_data es"
    by (intro Cons.IH [OF _ _ l'(1,3)]) simp_all
  with t l'(2) show ?case by (simp add: routes_send_def Cons.prems(1) Let_def case_prod_beta)
qed simp

text \<open>
  From the port to the inbox nothing is lost. Whatever way the messages a device plays are
  written on the wire, and however the driver cuts the bytes into packets and packet lists, a
  node that is wired to the port (by a wire that carries all channels) is sent exactly these
  messages, whole and in their order.
\<close>

theorem hardware_input_arrives_whole:
  assumes "spells None ws (concat (map snd packets))"
    and "R n = Some v" and "distinct (map ml_dst v)" and "l \<in> set v" and "open_wire l"
  shows "over_wire n (ml_dst l) (snd (snd (input_callback to_wk n packets d R))) = map whole_bytes ws"
proof -
  have "map me_data (snd (packet_events to_wk d packets)) = map whole_bytes ws"
    using packet_events_feed [of to_wk d packets] feed_spelled [OF assms(1), of d] by (simp add: latched_def)
  moreover from this have "ws = []" if "snd (packet_events to_wk d packets) = []" using that by simp
  ultimately show ?thesis using send_events_over_open_wire [of R n v l, OF assms(2-5)]
    by (simp add: input_callback_def Let_def case_prod_beta)
qed

definition synth_wire :: mlink where
  "synth_wire = \<lparr>ml_dst = 2, ml_inbox = 7, ml_channel = None, ml_held = []\<rparr>"

theorem hardware_input_arrives_whole_witness:
  "spells None [Plain 0x90 [60, 100], Plain 0x90 [64, 100]] (concat (map snd [(0 :: nat, [0x90, 60]), (1, [100, 64, 100])])) \<and>
   over_wire 1 2 (snd (snd (input_callback of_nat 1 [(0 :: nat, [0x90, 60]), (1, [100, 64, 100])] decoder_new [1 \<mapsto> [synth_wire]]))) =
     [[0x90, 60, 100], [0x90, 64, 100]]"
proof -
  have "spells (Some 0x90) [Plain 0x90 [64, 100]] ([64, 100] @ [])"
    by (rule spells.running) (simp_all add: plain_status_def data_len_def spells.nothing)
  then have "spells None [Plain 0x90 [60, 100], Plain 0x90 [64, 100]] (0x90 # [60, 100] @ [64, 100] @ [])"
    by (intro spells.in_full) (simp_all add: plain_status_def data_len_def)
  then have s: "spells None [Plain 0x90 [60, 100], Plain 0x90 [64, 100]]
      (concat (map snd [(0 :: nat, [0x90, 60]), (1, [100, 64, 100])]))" by simp
  have l: "[1 \<mapsto> [synth_wire]] 1 = Some [synth_wire]" "distinct (map ml_dst [synth_wire])"
    "synth_wire \<in> set [synth_wire]" "open_wire synth_wire" by (simp_all add: open_wire_def synth_wire_def)
  show ?thesis
    using hardware_input_arrives_whole [where R = "[1 \<mapsto> [synth_wire]]" and n = 1, OF s l, of of_nat decoder_new] s by (simp add: synth_wire_def)
qed

subsection \<open>Bringing the routes in line with the canvas\<close>

fun route_steps :: "hash_order \<Rightarrow> route_op list \<Rightarrow> routes \<Rightarrow> routes \<times> delivery list" where
  "route_steps H [] R = (R, [])"
| "route_steps H (c # cs) R =
     (let (R1, out) = route_step H c R; (R2, rest) = route_steps H cs R1 in (R2, out @ rest))"

text \<open>
  The calls that the three loops of \<open>sync_midi\<close> make on the router, and the set \<open>routed\<close> after
  them. A new wire whose destination has no inbox yet is left for a later pass.
\<close>

definition sync_plan :: "(node_id \<Rightarrow> node_id \<Rightarrow> bool) \<Rightarrow> link list \<Rightarrow> link list \<Rightarrow> link_plan" where
  "sync_plan may_use links routed = reconcile_links (filter (\<lambda>(s, d). may_use s d) links) routed"

definition sync_routed :: "(node_id \<Rightarrow> nat option) \<Rightarrow> link_plan \<Rightarrow> link list \<Rightarrow> link list" where
  "sync_routed inbox_of plan routed =
     filter (\<lambda>p. p \<notin> set (lp_remove plan)) routed @ filter (\<lambda>(s, d). inbox_of d \<noteq> None) (lp_add plan)"

definition sync_ops ::
  "(node_id \<Rightarrow> nat option) \<Rightarrow> (link \<rightharpoonup> u8) \<Rightarrow> link_plan \<Rightarrow> link list \<Rightarrow> route_op list" where
  "sync_ops inbox_of channels plan routed' =
     map (\<lambda>(s, d). Disconnect s d) (lp_remove plan) @
     concat (map (\<lambda>(s, d). case inbox_of d of None \<Rightarrow> [] | Some ibx \<Rightarrow> [Connect s d ibx]) (lp_add plan)) @
     map (\<lambda>(s, d). SetChannel s d (channels (s, d))) routed'"

definition sync_midi ::
  "hash_order \<Rightarrow> (node_id \<Rightarrow> node_id \<Rightarrow> bool) \<Rightarrow> (node_id \<Rightarrow> nat option) \<Rightarrow> link list \<Rightarrow> (link \<rightharpoonup> u8) \<Rightarrow> link list \<Rightarrow>
     routes \<Rightarrow> (link \<rightharpoonup> u8) \<times> link list \<times> routes \<times> delivery list" where
  "sync_midi H may_use inbox_of links channels routed R =
     (let plan = sync_plan may_use links routed;
          routed' = sync_routed inbox_of plan routed
      in (channels |` set links, routed', route_steps H (sync_ops inbox_of channels plan routed') R))"

text \<open>The wires there are, each with the channel it carries.\<close>

definition wires :: "routes \<Rightarrow> link \<rightharpoonup> u8 option" where
  "wires R = (\<lambda>(s, d). map_option ml_channel (List.find (\<lambda>l. ml_dst l = d) (links_of R s)))"

definition valid_channel :: "u8 option \<Rightarrow> u8 option" where
  "valid_channel ch = (case ch of Some c \<Rightarrow> if 1 \<le> c \<and> c \<le> 16 then Some c else None | None \<Rightarrow> None)"

fun op_wires :: "route_op \<Rightarrow> (link \<rightharpoonup> u8 option) \<Rightarrow> (link \<rightharpoonup> u8 option)" where
  "op_wires (Connect s d ibx) W = (if W (s, d) = None then W((s, d) \<mapsto> None) else W)"
| "op_wires (SetChannel s d ch) W = (if W (s, d) = None then W else W((s, d) \<mapsto> valid_channel ch))"
| "op_wires (Disconnect s d) W = W((s, d) := None)"
| "op_wires (RemoveNode n) W = (\<lambda>(s, d). if s = n \<or> d = n then None else W (s, d))"
| "op_wires (SendFrom s e) W = W"

lemma find_over_links:
  assumes "\<And>l. ml_dst (fst (act l)) = ml_dst l"
  shows "List.find (\<lambda>l. ml_dst l = d) (fst (over_links act s v)) = map_option (\<lambda>l. fst (act l)) (List.find (\<lambda>l. ml_dst l = d) v)"
  using assms by (induction v) (auto simp: Let_def case_prod_beta)

lemma find_filter_dst:
  "List.find (\<lambda>l. ml_dst l = d) (filter (\<lambda>l. ml_dst l \<noteq> n) v) = (if d = n then None else List.find (\<lambda>l. ml_dst l = d) v)"
  by (induction v) auto

lemma find_dst_None: "List.find (\<lambda>l. ml_dst l = d) v = None \<longleftrightarrow> (\<forall>l \<in> set v. ml_dst l \<noteq> d)"
  by (auto simp: find_None_iff)

lemma find_dst_Some: "List.find (\<lambda>l. ml_dst l = d) v = Some l \<Longrightarrow> l \<in> set v \<and> ml_dst l = d"
  by (auto simp: find_Some_iff)

lemma find_append: "List.find P (xs @ ys) = (case List.find P xs of None \<Rightarrow> List.find P ys | Some x \<Rightarrow> Some x)"
  by (induction xs) auto

lemma wires_over_links:
  assumes "\<And>l. ml_dst (fst (act l)) = ml_dst l" and "\<And>l. ml_channel (fst (act l)) = g (ml_dst l) (ml_channel l)"
    and "R src = Some v"
  shows "wires (R(src \<mapsto> fst (over_links act src v))) (s, d) =
     (if s = src then map_option (g d) (wires R (s, d)) else wires R (s, d))"
proof (cases "s = src")
  case True
  have f: "List.find (\<lambda>l. ml_dst l = d) (fst (over_links act src v)) =
      map_option (\<lambda>l. fst (act l)) (List.find (\<lambda>l. ml_dst l = d) v)"
    by (rule find_over_links [OF assms(1)])
  show ?thesis
  proof (cases "List.find (\<lambda>l. ml_dst l = d) v")
    case None
    with True f assms(3) show ?thesis by (simp add: wires_def links_of_def)
  next
    case (Some l)
    with find_dst_Some [OF Some] True f assms(2) [of l] assms(3) show ?thesis by (simp add: wires_def links_of_def)
  qed
next
  case False
  then show ?thesis by (simp add: wires_def links_of_def)
qed

lemma wires_unrouted: "R s = None \<Longrightarrow> wires R (s, d) = None"
  by (simp add: wires_def links_of_def)

lemma wires_step: "wires (fst (route_step H c R)) = op_wires c (wires R)"
proof (rule ext)
  fix p :: link
  obtain s d where p: "p = (s, d)" by (cases p)
  show "wires (fst (route_step H c R)) p = op_wires c (wires R) p"
  proof (cases c)
    case (Connect src dst ibx)
    then show ?thesis
      by (auto simp: p wires_def links_of_def routes_connect_def Let_def find_append find_dst_None
          split: option.splits dest: find_dst_Some)
  next
    case (SetChannel src dst ch)
    show ?thesis
    proof (cases "R src")
      case None
      with SetChannel show ?thesis by (simp add: p routes_set_channel_def wires_unrouted)
    next
      case (Some v)
      have "wires (R(src \<mapsto> fst (over_links (narrow H dst (valid_channel ch)) src v))) (s, d) =
          (if s = src then map_option (\<lambda>old. if d = dst then valid_channel ch else old) (wires R (s, d)) else wires R (s, d))"
        by (rule wires_over_links [where g = "\<lambda>d' old. if d' = dst then valid_channel ch else old"])
          (simp_all add: narrow_def Let_def Some)
      then show ?thesis
        using SetChannel Some
        by (cases "wires R (s, d)") (auto simp: p routes_set_channel_def Let_def case_prod_beta valid_channel_def)
    qed
  next
    case (Disconnect src dst)
    let ?act = "\<lambda>l. if ml_dst l = dst then link_release H l else (l, [])"
    have d: "ml_dst (fst (?act l)) = ml_dst l" "ml_channel (fst (?act l)) = ml_channel l" for l
      by (simp_all add: link_release_def)
    have "map_option ml_channel (List.find (\<lambda>l. ml_dst l = d) (fst (over_links ?act src v))) =
        map_option ml_channel (List.find (\<lambda>l. ml_dst l = d) v)" for v
      by (simp add: find_over_links [of ?act, OF d(1)] option.map_comp comp_def d(2))
    then show ?thesis
      using Disconnect
      by (auto simp: p wires_def links_of_def routes_disconnect_def case_prod_beta find_filter_dst split: option.splits)
  next
    case (RemoveNode n)
    then show ?thesis
      by (auto simp: p wires_def links_of_def routes_remove_node_def Let_def find_filter_dst split: option.splits)
  next
    case (SendFrom src e)
    show ?thesis
    proof (cases "R src")
      case None
      with SendFrom show ?thesis by (simp add: p routes_send_def)
    next
      case (Some v)
      have "wires (R(src \<mapsto> fst (over_links (transmit e) src v))) (s, d) =
          (if s = src then map_option (\<lambda>old. old) (wires R (s, d)) else wires R (s, d))"
        by (rule wires_over_links [where g = "\<lambda>d' old. old"])
          (simp_all add: transmit_def link_observe_def Let_def Some split: list.splits)
      then show ?thesis using SendFrom Some by (simp add: p routes_send_def case_prod_beta option.map_ident)
    qed
  qed
qed

lemma wires_steps: "wires (fst (route_steps H cs R)) = fold op_wires cs (wires R)"
  by (induction cs arbitrary: R) (simp_all add: Let_def case_prod_beta wires_step)

lemma fold_disconnect:
  "fold op_wires (map (\<lambda>(s, d). Disconnect s d) ps) W = (\<lambda>p. if p \<in> set ps then None else W p)"
proof (induction ps arbitrary: W)
  case (Cons p ps)
  then show ?case by (cases p) (auto simp: fun_eq_iff)
qed simp

lemma fold_connect:
  "fold op_wires (concat (map (\<lambda>(s, d). case inbox_of d of None \<Rightarrow> [] | Some ibx \<Rightarrow> [Connect s d ibx]) ps)) W =
     (\<lambda>p. if W p = None \<and> p \<in> set ps \<and> inbox_of (snd p) \<noteq> None then Some None else W p)"
proof (induction ps arbitrary: W)
  case (Cons p ps)
  then show ?case by (cases p) (auto simp: fun_eq_iff split: option.splits)
qed simp

lemma fold_set_channel:
  "fold op_wires (map (\<lambda>(s, d). SetChannel s d (ch (s, d))) ps) W =
     (\<lambda>p. if p \<in> set ps \<and> W p \<noteq> None then Some (valid_channel (ch p)) else W p)"
proof (induction ps arbitrary: W)
  case (Cons p ps)
  then show ?case by (cases p) (auto simp: fun_eq_iff)
qed simp

text \<open>
  One pass brings the router in line with the canvas. If the server's record of the wires
  matched the router before, it does so after; the wires are then exactly the links drawn on the
  canvas that both tokens allow and whose destination can receive (or that were already there),
  each carries the channel that is set for it, and the channels of links that are gone are
  forgotten.
\<close>

theorem sync_midi_converges:
  assumes "dom (wires R) = set routed"
    and "sync_midi H may_use inbox_of links channels routed R = (channels', routed', R', out)"
  shows "set routed' = {(s, d) \<in> set links. may_use s d \<and> ((s, d) \<in> set routed \<or> inbox_of d \<noteq> None)} \<and>
    wires R' = (\<lambda>p. if p \<in> set routed' then Some (valid_channel (channels p)) else None) \<and>
    channels' = channels |` set links"
proof -
  let ?plan = "sync_plan may_use links routed"
  have r: "routed' = sync_routed inbox_of ?plan routed"
    and R': "R' = fst (route_steps H (sync_ops inbox_of channels ?plan routed') R)"
    and c: "channels' = channels |` set links"
    using assms(2) by (auto simp: sync_midi_def Let_def)
  have "p \<in> set routed \<longleftrightarrow> wires R p \<noteq> None" for p using assms(1) by auto
  then have "wires R' = (\<lambda>p. if p \<in> set routed' then Some (valid_channel (channels p)) else None)"
    by (auto simp: R' r wires_steps sync_ops_def fold_disconnect fold_connect fold_set_channel fun_eq_iff
        sync_plan_def sync_routed_def reconcile_links_def Let_def)
  moreover have "set routed' = {(s, d) \<in> set links. may_use s d \<and> ((s, d) \<in> set routed \<or> inbox_of d \<noteq> None)}"
    by (auto simp: r sync_routed_def sync_plan_def reconcile_links_def Let_def)
  ultimately show ?thesis using c by blast
qed

theorem sync_midi_converges_witness:
  "dom (wires Map.empty) = set [] \<and>
   (\<exists>R'. wires R' (1, 2) = Some (Some 3) \<and> wires R' (1, 4) = None \<and>
      R' = fst (snd (snd (sync_midi in_order (\<lambda>s d. True) (\<lambda>d. if d = 2 then Some 7 else None) [(1, 2), (1, 4)]
        [(1, 2) \<mapsto> 3] [] Map.empty))))"
proof -
  obtain c r R' out where s: "sync_midi in_order (\<lambda>s d. True) (\<lambda>d. if d = 2 then Some 7 else None) [(1, 2), (1, 4)]
      [(1, 2) \<mapsto> 3] [] Map.empty = (c, r, R', out)" by (metis prod_cases4)
  have d: "dom (wires Map.empty) = set []" by (auto simp: wires_def links_of_def)
  from sync_midi_converges [OF d s] show ?thesis using d s by (simp add: valid_channel_def)
qed

end
