(* ===== verification/Srv_Graph.thy ===== *)
theory Srv_Graph
  imports Instancing
begin

text \<open>
  The document graph of the server (\<open>Graph\<close> of \<open>crates/wk-server/src/server.rs\<close>): every placed
  node, the side tables that hold what is particular to a kind, and the wires.

  A \<open>HashMap\<close> is a sorted association list (\<open>bt_insert\<close>, \<open>bt_remove\<close>, \<open>map_of\<close>), so that two
  maps with the same entries are equal; where the source iterates over one, the order is an
  argument. The graph drives a runtime (guests, mounts, routes, servers, devices) that is not
  part of it; what a reconciling pass such as \<open>sync_mounts\<close> changes in the graph itself is the
  removal of settings of wires that are gone.
\<close>

subsection \<open>Nodes and their tables\<close>

datatype gkind =
    KdApp | KdFile | KdPort | KdNetwork | KdGateway | KdRouter | KdIroh | KdVeilid | KdNote | KdCapture
  | KdClipboard | KdApi | KdMidiIn | KdHostService | KdBoundary | KdGroup | KdMidiOut | KdMulticast

definition is_net :: "gkind \<Rightarrow> bool" where
  "is_net k \<longleftrightarrow> k = KdNetwork \<or> k = KdGateway"

type_synonym point = "f32_bits \<times> f32_bits"
type_synonym pose = "f32_bits \<times> f32_bits \<times> f32_bits \<times> f32_bits"

record node_rec =
  nr_kind :: gkind
  nr_ws :: node_id
  nr_pos :: point
  nr_size :: point

datatype file_node =
    FnVolume string bytes bool  \<comment> \<open>name, data, persist\<close>
  | FnBind string string  \<comment> \<open>name, path\<close>

record mcast =
  mc_iface :: "string option"
  mc_groups :: "string list"

record host_service =
  hs_name :: string
  hs_target :: string

record boundary_port =
  bp_name :: string
  bp_dir :: port_dir
  bp_kind :: port_kind

record group_node =
  gn_definition :: string
  gn_name :: "string option"
  gn_in :: "(string \<times> node_id) list"
  gn_out :: "(string \<times> node_id) list"

record dependency =
  dp_name :: string
  dp_args :: "string list"

type_synonym 'v table = "(node_id \<times> 'v) list"
type_synonym 'v wire_table = "(link \<times> 'v) list"

record graph =
  g_nodes :: "node_rec table"
  g_args :: "string list table"
  g_deps :: "string table"
  g_names :: "string table"
  g_pos3d :: "pose table"
  g_hidden :: "unit table"
  g_files :: "file_node table"
  g_ports :: "u16 table"
  g_notes :: "string table"
  g_midi_ins :: "string table"
  g_midi_outs :: "string table"
  g_multicasts :: "mcast table"
  g_services :: "host_service table"
  g_boundaries :: "boundary_port table"
  g_groups :: "group_node table"
  g_connections :: "link list"
  g_mount_paths :: "string wire_table"
  g_midi_links :: "link list"
  g_serve_links :: "link list"
  g_serve_ports :: "u16 wire_table"
  g_midi_channels :: "u8 wire_table"
  g_net_links :: "link list"
  g_link_nets :: "node_id wire_table"
  g_captures :: "link list"
  g_clipboards :: "link list"
  g_apis :: "link list"
  g_tokens :: "bytes table"
  g_iroh :: "bytes table"
  g_veilid :: "string table"
  g_workspaces :: "node_id list"
  g_ws_names :: "string table"
  g_available :: "dependency list"

definition kind_of :: "graph \<Rightarrow> node_id \<Rightarrow> gkind option" where
  "kind_of g i = map_option nr_kind (map_of (g_nodes g) i)"

definition node_exists :: "graph \<Rightarrow> node_id \<Rightarrow> bool" where
  "node_exists g i \<longleftrightarrow> map_of (g_nodes g) i \<noteq> None"

definition place :: "graph \<Rightarrow> node_id \<Rightarrow> gkind \<Rightarrow> node_id \<Rightarrow> point \<Rightarrow> point \<Rightarrow> graph" where
  "place g i k ws pos sz =
     g\<lparr>g_nodes := bt_insert i \<lparr>nr_kind = k, nr_ws = ws, nr_pos = pos, nr_size = sz\<rparr> (g_nodes g)\<rparr>"

text \<open>
  \<open>forget\<close>: the base record, the tables it names, and the lines of groups that reach the node.
  (The tables \<open>midi_ins\<close>, \<open>midi_outs\<close>, \<open>multicasts\<close> and \<open>groups\<close> are cleared by the removal of
  their own kind.)
\<close>

definition unline :: "node_id \<Rightarrow> group_node \<Rightarrow> group_node" where
  "unline i gn = gn\<lparr>gn_in := filter (\<lambda>(_, n). n \<noteq> i) (gn_in gn), gn_out := filter (\<lambda>(_, n). n \<noteq> i) (gn_out gn)\<rparr>"

definition forget :: "graph \<Rightarrow> node_id \<Rightarrow> graph" where
  "forget g i =
     g\<lparr>g_nodes := bt_remove i (g_nodes g), g_pos3d := bt_remove i (g_pos3d g), g_hidden := bt_remove i (g_hidden g),
       g_args := bt_remove i (g_args g), g_deps := bt_remove i (g_deps g), g_names := bt_remove i (g_names g),
       g_files := bt_remove i (g_files g), g_ports := bt_remove i (g_ports g), g_tokens := bt_remove i (g_tokens g),
       g_iroh := bt_remove i (g_iroh g), g_veilid := bt_remove i (g_veilid g), g_notes := bt_remove i (g_notes g),
       g_services := bt_remove i (g_services g), g_boundaries := bt_remove i (g_boundaries g),
       g_groups := map (\<lambda>(j, gn). (j, unline i gn)) (g_groups g)\<rparr>"

definition prune_side_map :: "'v wire_table \<Rightarrow> link list \<Rightarrow> 'v wire_table" where
  "prune_side_map m live_links = filter (\<lambda>(p, _). p \<in> set live_links) m"

definition canonical_pair :: "node_id \<Rightarrow> node_id \<Rightarrow> link" where
  "canonical_pair a b = (if a < b then (a, b) else (b, a))"

text \<open>What \<open>sync_mounts\<close>, \<open>sync_midi\<close> and \<open>sync_serves\<close> change in the graph.\<close>

definition sync_mounts :: "graph \<Rightarrow> graph" where
  "sync_mounts g = g\<lparr>g_mount_paths := prune_side_map (g_mount_paths g) (g_connections g)\<rparr>"

definition sync_channels :: "graph \<Rightarrow> graph" where
  "sync_channels g = g\<lparr>g_midi_channels := prune_side_map (g_midi_channels g) (g_midi_links g)\<rparr>"

definition sync_serves :: "graph \<Rightarrow> graph" where
  "sync_serves g = g\<lparr>g_serve_ports := prune_side_map (g_serve_ports g) (g_serve_links g)\<rparr>"

subsection \<open>The runtime, as the graph's operations see it\<close>

text \<open>
  What an operation asks of the outside: the ids that \<open>NodeId::new\<close> returns, SHA-256 for
  names, what the components of app nodes turn out to be once they are compiled, which
  devices and uplinks can be opened (with the name or secret they come up with), whether a
  token verifies, the bytes of a volume's sidecar file, the arguments an image gives a
  dependency, the addition of \<open>40.0\<close> to a coordinate, and the order in which the entries of a
  hash map are visited.
\<close>

record runtime =
  rt_id :: "nat \<Rightarrow> node_id"
  rt_sha :: "bytes \<Rightarrow> bytes"
  rt_loading :: "node_id \<Rightarrow> bool"
  rt_serves_fs :: "node_id \<Rightarrow> bool"
  rt_imports_net :: "node_id \<Rightarrow> bool"
  rt_iroh :: "node_id \<Rightarrow> bytes option \<Rightarrow> bytes option"
  rt_veilid :: "node_id \<Rightarrow> string option \<Rightarrow> string option"
  rt_mcast :: "node_id \<Rightarrow> mcast \<Rightarrow> bool"
  rt_midi_in :: "node_id \<Rightarrow> string \<Rightarrow> string option"
  rt_midi_out :: "node_id \<Rightarrow> string \<Rightarrow> string option"
  rt_token_ok :: "bytes \<Rightarrow> bool"
  rt_sidecar :: "node_id \<Rightarrow> bytes"
  rt_effective :: "dependency \<Rightarrow> string list"
  rt_plus40 :: "f32_bits \<Rightarrow> f32_bits"
  rt_order :: "node_id list \<Rightarrow> node_id list"
  rt_order_links :: "link list \<Rightarrow> link list"

subsection \<open>Wires\<close>

definition srv_class_of :: "graph \<Rightarrow> node_id \<Rightarrow> node_class" where
  "srv_class_of g i =
     (case kind_of g i of
        Some KdFile \<Rightarrow> NcFile
      | Some KdPort \<Rightarrow> NcPort
      | Some KdNetwork \<Rightarrow> NcNet
      | Some KdGateway \<Rightarrow> NcNet
      | Some KdRouter \<Rightarrow> NcRouter
      | Some KdIroh \<Rightarrow> NcUplink
      | Some KdVeilid \<Rightarrow> NcUplink
      | Some KdMulticast \<Rightarrow> NcUplink
      | Some KdCapture \<Rightarrow> NcCapture
      | Some KdClipboard \<Rightarrow> NcClipboard
      | Some KdApi \<Rightarrow> NcApi
      | Some KdMidiIn \<Rightarrow> NcMidiSource
      | Some KdMidiOut \<Rightarrow> NcMidiSink
      | Some KdHostService \<Rightarrow> NcHostSvc
      | Some KdBoundary \<Rightarrow>
          (case map_of (g_boundaries g) i of None \<Rightarrow> NcOther | Some p \<Rightarrow> NcBoundary (bp_dir p) (bp_kind p))
      | Some KdGroup \<Rightarrow> NcInstance
      | Some KdApp \<Rightarrow> NcOther
      | Some KdNote \<Rightarrow> NcOther
      | None \<Rightarrow> NcOther)"

definition wired :: "graph \<Rightarrow> node_id \<Rightarrow> node_id \<Rightarrow> bool" where
  "wired g a b \<longleftrightarrow>
     (\<exists>p \<in> set (g_connections g @ g_midi_links g @ g_net_links g @ g_serve_links g @ g_captures g @ g_clipboards g @ g_apis g).
        p = (a, b) \<or> p = (b, a))"

fun wire_exists :: "graph \<Rightarrow> wire \<Rightarrow> bool" where
  "wire_exists g (WBind f a) = ((f, a) \<in> set (g_connections g))"
| "wire_exists g (WMidi s d) = ((s, d) \<in> set (g_midi_links g))"
| "wire_exists g (WServe h hp) = ((h, hp) \<in> set (g_serve_links g))"
| "wire_exists g (WCapture a c) = ((a, c) \<in> set (g_captures g))"
| "wire_exists g (WClipboard a c) = ((a, c) \<in> set (g_clipboards g))"
| "wire_exists g (WApi a n) = ((a, n) \<in> set (g_apis g))"
| "wire_exists g (WNet a n) = ((a, n) \<in> set (g_net_links g))"

fun srv_wire_ends :: "wire \<Rightarrow> link" where
  "srv_wire_ends (WBind a b) = (a, b)"
| "srv_wire_ends (WMidi a b) = (a, b)"
| "srv_wire_ends (WServe a b) = (a, b)"
| "srv_wire_ends (WNet a b) = (a, b)"
| "srv_wire_ends (WCapture a b) = (a, b)"
| "srv_wire_ends (WClipboard a b) = (a, b)"
| "srv_wire_ends (WApi a b) = (a, b)"

definition toggle_file :: "graph \<Rightarrow> node_id \<Rightarrow> node_id \<Rightarrow> graph" where
  "toggle_file g f a = sync_mounts (g\<lparr>g_connections := fst (toggle_pair (g_connections g) f a)\<rparr>)"

definition toggle_serve :: "graph \<Rightarrow> node_id \<Rightarrow> node_id \<Rightarrow> graph" where
  "toggle_serve g h hp = sync_serves (g\<lparr>g_serve_links := fst (toggle_unique (g_serve_links g) h hp)\<rparr>)"

definition toggle_capture :: "graph \<Rightarrow> node_id \<Rightarrow> node_id \<Rightarrow> graph" where
  "toggle_capture g a c = g\<lparr>g_captures := fst (toggle_unique (g_captures g) a c)\<rparr>"

definition toggle_clipboard :: "graph \<Rightarrow> node_id \<Rightarrow> node_id \<Rightarrow> graph" where
  "toggle_clipboard g a c = g\<lparr>g_clipboards := fst (toggle_unique (g_clipboards g) a c)\<rparr>"

definition toggle_api :: "graph \<Rightarrow> node_id \<Rightarrow> node_id \<Rightarrow> graph" where
  "toggle_api g a n = g\<lparr>g_apis := fst (toggle_unique (g_apis g) a n)\<rparr>"

definition toggle_net :: "graph \<Rightarrow> node_id \<Rightarrow> node_id \<Rightarrow> graph" where
  "toggle_net g a n =
     (if kind_of g a = Some KdRouter then g\<lparr>g_net_links := fst (toggle_pair (g_net_links g) a n)\<rparr>
      else g\<lparr>g_net_links := fst (toggle_unique (g_net_links g) a n)\<rparr>)"

text \<open>
  \<open>sync_app_link_nets\<close>. \<open>reg\<close> holds the ids of the app nodes in the registry; \<open>k\<close> counts the
  ids that were taken from \<open>NodeId::new\<close>.
\<close>

definition linked_pairs :: "runtime \<Rightarrow> node_id list \<Rightarrow> graph \<Rightarrow> link list" where
  "linked_pairs e reg g =
     remdups (map (\<lambda>(a, b). canonical_pair a b)
       (filter (\<lambda>(a, b). a \<in> set reg \<and> rt_imports_net e a \<and> b \<in> set reg \<and> rt_imports_net e b) (g_midi_links g)))"

fun part_links :: "link list \<Rightarrow> graph \<Rightarrow> graph" where
  "part_links [] g = g"
| "part_links (key # keys) g =
     part_links keys
       (case map_of (g_link_nets g) key of
          None \<Rightarrow> g
        | Some net \<Rightarrow>
            toggle_net (toggle_net (g\<lparr>g_link_nets := bt_remove key (g_link_nets g)\<rparr>) (fst key) net) (snd key) net)"

fun join_links :: "runtime \<Rightarrow> link list \<Rightarrow> nat \<Rightarrow> graph \<Rightarrow> graph \<times> nat" where
  "join_links e [] k g = (g, k)"
| "join_links e (key # keys) k g =
     (if map_of (g_link_nets g) key \<noteq> None then join_links e keys k g
      else
        (let net = rt_id e k;
             g1 = toggle_net (toggle_net g (fst key) net) (snd key) net
         in join_links e keys (k + 1) (g1\<lparr>g_link_nets := bt_insert key net (g_link_nets g1)\<rparr>)))"

definition sync_app_link_nets :: "runtime \<Rightarrow> node_id list \<Rightarrow> nat \<Rightarrow> graph \<Rightarrow> graph \<times> nat" where
  "sync_app_link_nets e reg k g =
     (let want = linked_pairs e reg g;
          stale = filter (\<lambda>key. key \<notin> set want) (rt_order_links e (map fst (g_link_nets g)))
      in join_links e (rt_order_links e want) k (part_links stale g))"

fun prune_links :: "node_id \<Rightarrow> (link \<times> node_id) list \<Rightarrow> graph \<Rightarrow> graph" where
  "prune_links i [] g = g"
| "prune_links i (((a, b), net) # rest) g =
     prune_links i rest
       (toggle_net (g\<lparr>g_link_nets := bt_remove (a, b) (g_link_nets g)\<rparr>) (if a = i then b else a) net)"

definition prune_app_link_net :: "runtime \<Rightarrow> graph \<Rightarrow> node_id \<Rightarrow> graph" where
  "prune_app_link_net e g i =
     (let keys = filter (\<lambda>(a, b). a = i \<or> b = i) (rt_order_links e (map fst (g_link_nets g)))
      in prune_links i (List.map_filter (\<lambda>key. map_option (Pair key) (map_of (g_link_nets g) key)) keys) g)"

definition toggle_midi :: "runtime \<Rightarrow> node_id list \<Rightarrow> nat \<Rightarrow> graph \<Rightarrow> node_id \<Rightarrow> node_id \<Rightarrow> graph \<times> nat" where
  "toggle_midi e reg k g s d =
     sync_app_link_nets e reg k (sync_channels (g\<lparr>g_midi_links := fst (toggle_pair (g_midi_links g) s d)\<rparr>))"

subsection \<open>Edits of one node\<close>

definition set_node_pos :: "graph \<Rightarrow> node_id \<Rightarrow> point \<Rightarrow> graph" where
  "set_node_pos g i pos =
     (case map_of (g_nodes g) i of None \<Rightarrow> g | Some r \<Rightarrow> g\<lparr>g_nodes := bt_insert i (r\<lparr>nr_pos := pos\<rparr>) (g_nodes g)\<rparr>)"

definition set_node_size :: "graph \<Rightarrow> node_id \<Rightarrow> point \<Rightarrow> graph" where
  "set_node_size g i sz =
     (case map_of (g_nodes g) i of None \<Rightarrow> g | Some r \<Rightarrow> g\<lparr>g_nodes := bt_insert i (r\<lparr>nr_size := sz\<rparr>) (g_nodes g)\<rparr>)"

definition set_node_pos3d :: "graph \<Rightarrow> node_id \<Rightarrow> pose \<Rightarrow> graph" where
  "set_node_pos3d g i p = (if node_exists g i then g\<lparr>g_pos3d := bt_insert i p (g_pos3d g)\<rparr> else g)"

definition set_node_panel3d :: "graph \<Rightarrow> node_id \<Rightarrow> bool \<Rightarrow> graph" where
  "set_node_panel3d g i shown =
     (if node_exists g i
      then g\<lparr>g_hidden := (if shown then bt_remove i (g_hidden g) else bt_insert i () (g_hidden g))\<rparr>
      else g)"

text \<open>\<open>split_whitespace\<close>, \<open>trim\<close> and \<open>join\<close> on ASCII white space.\<close>

definition is_space :: "char \<Rightarrow> bool" where
  "is_space c \<longleftrightarrow> (of_char c :: nat) \<in> {9, 10, 11, 12, 13, 32}"

definition split_whitespace :: "string \<Rightarrow> string list" where
  "split_whitespace t = filter (\<lambda>w. w \<noteq> []) (split_on CHR '' '' (map (\<lambda>c. if is_space c then CHR '' '' else c) t))"

definition trim_spaces :: "string \<Rightarrow> string" where
  "trim_spaces t = rev (dropWhile is_space (rev (dropWhile is_space t)))"

definition set_node_args :: "graph \<Rightarrow> node_id \<Rightarrow> string \<Rightarrow> graph" where
  "set_node_args g i t =
     (if node_exists g i then g\<lparr>g_args := bt_insert i (split_whitespace t) (g_args g)\<rparr> else g)"

definition set_note_text :: "graph \<Rightarrow> node_id \<Rightarrow> string \<Rightarrow> graph" where
  "set_note_text g i t = (if map_of (g_notes g) i \<noteq> None then g\<lparr>g_notes := bt_insert i t (g_notes g)\<rparr> else g)"

text \<open>\<open>Path::file_name\<close>, with \<open>hostfile\<close> where there is none.\<close>

definition host_file_name :: "string \<Rightarrow> string" where
  "host_file_name path =
     (case split_last (filter (\<lambda>c. c \<noteq> [] \<and> c \<noteq> ''.'') (split_on CHR ''/'' path)) of
        Some (name, _) \<Rightarrow> if name = ''..'' then ''hostfile'' else name
      | None \<Rightarrow> ''hostfile'')"

definition set_bind_path :: "graph \<Rightarrow> node_id \<Rightarrow> string \<Rightarrow> graph" where
  "set_bind_path g i host_path =
     (let path = trim_spaces host_path
      in case map_of (g_files g) i of
           Some (FnBind _ _) \<Rightarrow> g\<lparr>g_files := bt_insert i (FnBind (host_file_name path) path) (g_files g)\<rparr>
         | _ \<Rightarrow> g)"

definition set_persist :: "graph \<Rightarrow> node_id \<Rightarrow> bool \<Rightarrow> graph" where
  "set_persist g i p =
     (case map_of (g_files g) i of
        Some (FnVolume name data _) \<Rightarrow> g\<lparr>g_files := bt_insert i (FnVolume name data p) (g_files g)\<rparr>
      | _ \<Rightarrow> g)"

definition set_service_name :: "graph \<Rightarrow> node_id \<Rightarrow> string \<Rightarrow> graph" where
  "set_service_name g i name =
     (case map_of (g_services g) i of
        Some svc \<Rightarrow>
          if trim_spaces name \<noteq> [] then g\<lparr>g_services := bt_insert i (svc\<lparr>hs_name := trim_spaces name\<rparr>) (g_services g)\<rparr>
          else g
      | None \<Rightarrow> g)"

definition set_service_target :: "graph \<Rightarrow> node_id \<Rightarrow> string \<Rightarrow> graph" where
  "set_service_target g i t =
     (case map_of (g_services g) i of
        Some svc \<Rightarrow> g\<lparr>g_services := bt_insert i (svc\<lparr>hs_target := trim_spaces t\<rparr>) (g_services g)\<rparr>
      | None \<Rightarrow> g)"

definition open_midi_device :: "runtime \<Rightarrow> graph \<Rightarrow> node_id \<Rightarrow> string \<Rightarrow> graph" where
  "open_midi_device e g i want =
     (case rt_midi_in e i want of
        Some name \<Rightarrow> g\<lparr>g_midi_ins := bt_insert i name (g_midi_ins g)\<rparr>
      | None \<Rightarrow> g)"

definition open_midi_out_device :: "runtime \<Rightarrow> graph \<Rightarrow> node_id \<Rightarrow> string \<Rightarrow> graph" where
  "open_midi_out_device e g i want =
     (case rt_midi_out e i want of
        Some name \<Rightarrow> g\<lparr>g_midi_outs := bt_insert i name (g_midi_outs g)\<rparr>
      | None \<Rightarrow> g)"

definition set_midi_device :: "runtime \<Rightarrow> graph \<Rightarrow> node_id \<Rightarrow> string \<Rightarrow> graph" where
  "set_midi_device e g i want =
     (case kind_of g i of
        Some KdMidiIn \<Rightarrow> open_midi_device e (g\<lparr>g_midi_ins := bt_insert i want (g_midi_ins g)\<rparr>) i want
      | Some KdMidiOut \<Rightarrow> open_midi_out_device e (g\<lparr>g_midi_outs := bt_insert i want (g_midi_outs g)\<rparr>) i want
      | _ \<Rightarrow> g)"

definition set_multicast_config :: "runtime \<Rightarrow> graph \<Rightarrow> node_id \<Rightarrow> mcast \<Rightarrow> graph" where
  "set_multicast_config e g i cfg =
     (if kind_of g i \<noteq> Some KdMulticast then g
      else if rt_mcast e i cfg then g\<lparr>g_multicasts := bt_insert i cfg (g_multicasts g)\<rparr>
      else g)"

definition set_node_token :: "runtime \<Rightarrow> graph \<Rightarrow> node_id \<Rightarrow> bytes \<Rightarrow> graph" where
  "set_node_token e g i token =
     (if kind_of g i \<noteq> Some KdApp then g
      else if token = [] then g\<lparr>g_tokens := bt_remove i (g_tokens g)\<rparr>
      else if \<not> rt_token_ok e token then g
      else g\<lparr>g_tokens := bt_insert i token (g_tokens g)\<rparr>)"

definition set_mount :: "graph \<Rightarrow> node_id \<Rightarrow> node_id \<Rightarrow> string \<Rightarrow> graph" where
  "set_mount g vol app path =
     (if (vol, app) \<notin> set (g_connections g) then g
      else if trim_spaces path = [] then g\<lparr>g_mount_paths := bt_remove (vol, app) (g_mount_paths g)\<rparr>
      else g\<lparr>g_mount_paths := bt_insert (vol, app) (trim_spaces path) (g_mount_paths g)\<rparr>)"

definition set_midi_channel :: "graph \<Rightarrow> node_id \<Rightarrow> node_id \<Rightarrow> u8 \<Rightarrow> graph" where
  "set_midi_channel g s d ch =
     (if (s, d) \<notin> set (g_midi_links g) then g
      else
        sync_channels
          (if 1 \<le> ch \<and> ch \<le> 16 then g\<lparr>g_midi_channels := bt_insert (s, d) ch (g_midi_channels g)\<rparr>
           else g\<lparr>g_midi_channels := bt_remove (s, d) (g_midi_channels g)\<rparr>))"

definition set_serve_port :: "graph \<Rightarrow> node_id \<Rightarrow> node_id \<Rightarrow> u16 \<Rightarrow> graph" where
  "set_serve_port g h hp container =
     (if (h, hp) \<notin> set (g_serve_links g) then g
      else
        sync_serves
          (if container = 0 then g\<lparr>g_serve_ports := bt_remove (h, hp) (g_serve_ports g)\<rparr>
           else g\<lparr>g_serve_ports := bt_insert (h, hp) container (g_serve_ports g)\<rparr>))"

definition add_workspace :: "graph \<Rightarrow> node_id \<Rightarrow> graph" where
  "add_workspace g i = (if i \<in> set (g_workspaces g) then g else g\<lparr>g_workspaces := g_workspaces g @ [i]\<rparr>)"

end
