(* ===== verification/Text_Codec.thy ===== *)
theory Text_Codec
  imports Prelude
begin

text \<open>
  Numbers and bytes as text: the hexadecimal form in which a document keeps tokens and uplink
  secrets (\<open>bytes_hex\<close>, \<open>hex_bytes\<close>, \<open>secret_hex\<close>, \<open>secret_bytes\<close> of
  \<open>crates/wk-server/src/workspace.rs\<close>), and what the server uses of the standard library to print
  and read a \<open>u32\<close>.

  A string is the list of its UTF-8 bytes. A slice \<open>&s[i..j]\<close> whose ends are not character
  boundaries panics: the outer \<open>None\<close> of \<open>hex_bytes\<close>.
\<close>

subsection \<open>Decimal numbers\<close>

definition digit_char :: "nat \<Rightarrow> char" where
  "digit_char d = char_of (48 + d)"

fun decimal :: "nat \<Rightarrow> string" where
  "decimal n = (if n < 10 then [digit_char n] else decimal (n div 10) @ [digit_char (n mod 10)])"

declare decimal.simps [simp del]

definition digit_value :: "char \<Rightarrow> nat option" where
  "digit_value c = (let n = of_char c :: nat in if 48 \<le> n \<and> n \<le> 57 then Some (n - 48) else None)"

fun read_digits :: "nat \<Rightarrow> string \<Rightarrow> nat option" where
  "read_digits acc [] = Some acc"
| "read_digits acc (c # cs) = (case digit_value c of None \<Rightarrow> None | Some d \<Rightarrow> read_digits (10 * acc + d) cs)"

text \<open>\<open>str::parse::<u32>\<close>: an optional sign, at least one digit, no overflow.\<close>

definition unsigned_digits :: "string \<Rightarrow> string" where
  "unsigned_digits s = (case s of c # cs \<Rightarrow> if c = CHR ''+'' then cs else s | [] \<Rightarrow> [])"

definition parse_u32 :: "string \<Rightarrow> u32 option" where
  "parse_u32 s =
     (if unsigned_digits s = [] then None
      else case read_digits 0 (unsigned_digits s) of
             None \<Rightarrow> None
           | Some n \<Rightarrow> if n < 2 ^ 32 then Some (of_nat n) else None)"

lemma digit_value_char [simp]: "d < 10 \<Longrightarrow> digit_value (digit_char d) = Some d"
  by (simp add: digit_value_def digit_char_def Let_def)

lemma read_digits_append:
  "read_digits acc (xs @ ys) = (case read_digits acc xs of None \<Rightarrow> None | Some a \<Rightarrow> read_digits a ys)"
  by (induction acc xs rule: read_digits.induct) (auto split: option.split)

lemma read_decimal: "read_digits 0 (decimal n) = Some n"
proof (induction n rule: decimal.induct)
  case (1 n)
  then show ?case
    by (subst decimal.simps) (auto simp: read_digits_append)
qed

lemma decimal_first: "\<exists>d cs. decimal n = digit_char d # cs \<and> d < 10"
proof (induction n rule: decimal.induct)
  case (1 n)
  then show ?case
    by (cases "n < 10") (subst decimal.simps, fastforce)+
qed

lemma digit_char_plus: "d < 10 \<Longrightarrow> digit_char d \<noteq> CHR ''+''"
  using digit_value_char [of d] by (auto simp: digit_value_def)

lemma parse_show_u32: "parse_u32 (decimal (unat w)) = Some w"
proof -
  obtain d cs where "decimal (unat w) = digit_char d # cs" "d < 10" using decimal_first by blast
  then have "unsigned_digits (decimal (unat w)) = decimal (unat w)" "decimal (unat w) \<noteq> []"
    using digit_char_plus by (auto simp: unsigned_digits_def)
  moreover have "unat w < 2 ^ 32" using unsigned_less [of w, where 'a = nat] by simp
  ultimately show ?thesis by (simp add: parse_u32_def read_decimal)
qed

subsection \<open>Hexadecimal\<close>

definition hex_char :: "nat \<Rightarrow> char" where
  "hex_char d = (if d < 10 then char_of (48 + d) else char_of (87 + d))"

definition hex_byte :: "u8 \<Rightarrow> string" where
  "hex_byte b = [hex_char (unat b div 16), hex_char (unat b mod 16)]"

definition bytes_hex :: "bytes \<Rightarrow> string" where
  "bytes_hex bs = concat (map hex_byte bs)"

definition secret_hex :: "bytes \<Rightarrow> string" where
  "secret_hex bs = concat (map hex_byte bs)"

text \<open>\<open>char::to_digit(16)\<close>.\<close>

definition hex_value :: "char \<Rightarrow> nat option" where
  "hex_value c =
     (let n = of_char c :: nat
      in if 48 \<le> n \<and> n \<le> 57 then Some (n - 48)
         else if 97 \<le> n \<and> n \<le> 102 then Some (n - 87)
         else if 65 \<le> n \<and> n \<le> 70 then Some (n - 55)
         else None)"

text \<open>\<open>u8::from_str_radix\<close> on two characters: a leading \<open>+\<close> is a sign.\<close>

definition radix16 :: "char \<Rightarrow> char \<Rightarrow> u8 option" where
  "radix16 c d =
     (if c = CHR ''+'' then map_option of_nat (hex_value d)
      else case (hex_value c, hex_value d) of (Some h, Some l) \<Rightarrow> Some (of_nat (16 * h + l)) | _ \<Rightarrow> None)"

definition continuation :: "char \<Rightarrow> bool" where
  "continuation c \<longleftrightarrow> 128 \<le> (of_char c :: nat) \<and> (of_char c :: nat) < 192"

definition boundary_at :: "string \<Rightarrow> bool" where
  "boundary_at rest \<longleftrightarrow> (case rest of [] \<Rightarrow> True | c # _ \<Rightarrow> \<not> continuation c)"

fun hex_pairs :: "string \<Rightarrow> bytes option option" where
  "hex_pairs (c # d # rest) =
     (if \<not> boundary_at (c # d # rest) \<or> \<not> boundary_at rest then None
      else case radix16 c d of
             None \<Rightarrow> Some None
           | Some b \<Rightarrow> map_option (map_option ((#) b)) (hex_pairs rest))"
| "hex_pairs s = Some (Some [])"

definition hex_bytes :: "string \<Rightarrow> bytes option option" where
  "hex_bytes s = (if odd (length s) then Some None else hex_pairs s)"

text \<open>\<open>secret_bytes\<close> takes its pairs with \<open>get\<close>, which answers \<open>None\<close> where a slice would panic.\<close>

fun secret_pairs :: "string \<Rightarrow> bytes option" where
  "secret_pairs (c # d # rest) =
     (if \<not> boundary_at (c # d # rest) \<or> \<not> boundary_at rest then None
      else case radix16 c d of None \<Rightarrow> None | Some b \<Rightarrow> map_option ((#) b) (secret_pairs rest))"
| "secret_pairs s = Some []"

definition secret_bytes :: "string \<Rightarrow> bytes option" where
  "secret_bytes s = (if length s \<noteq> 64 then None else secret_pairs s)"

lemma of_char_hex_char: "d < 16 \<Longrightarrow> (of_char (hex_char d) :: nat) = (if d < 10 then 48 + d else 87 + d)"
  by (simp add: hex_char_def)

lemma hex_value_char [simp]: "d < 16 \<Longrightarrow> hex_value (hex_char d) = Some d"
  by (simp add: hex_value_def of_char_hex_char Let_def)

lemma hex_char_plain [simp]: "d < 16 \<Longrightarrow> \<not> continuation (hex_char d)" "d < 16 \<Longrightarrow> hex_char d \<noteq> CHR ''+''"
proof -
  show "d < 16 \<Longrightarrow> \<not> continuation (hex_char d)" by (simp add: continuation_def of_char_hex_char)
  show "d < 16 \<Longrightarrow> hex_char d \<noteq> CHR ''+''"
    using hex_value_char [of d] by (auto simp: hex_value_def)
qed

lemma nibbles [simp]: "unat (b :: u8) div 16 < 16" "unat b mod 16 < 16"
proof -
  have "unat b < 2 ^ 8" using unsigned_less [of b, where 'a = nat] by simp
  then show "unat b div 16 < 16" by simp
qed simp

lemma radix16_hex [simp]: "radix16 (hex_char (unat b div 16)) (hex_char (unat b mod 16)) = Some b"
  by (simp add: radix16_def)

lemma boundary_hex [simp]: "boundary_at (concat (map hex_byte bs))"
  by (cases bs) (simp_all add: boundary_at_def hex_byte_def)

lemma hex_pairs_hex: "hex_pairs (concat (map hex_byte bs)) = Some (Some bs)"
proof (induction bs)
  case (Cons b bs)
  have "hex_byte b = [hex_char (unat b div 16), hex_char (unat b mod 16)]" by (rule hex_byte_def)
  moreover from this have "boundary_at (hex_char (unat b div 16) # hex_char (unat b mod 16) # concat (map hex_byte bs))"
    using boundary_hex [of "b # bs"] by simp
  ultimately show ?case using Cons by simp
qed simp

lemma secret_pairs_hex: "secret_pairs (concat (map hex_byte bs)) = Some bs"
proof (induction bs)
  case (Cons b bs)
  have "hex_byte b = [hex_char (unat b div 16), hex_char (unat b mod 16)]" by (rule hex_byte_def)
  moreover from this have "boundary_at (hex_char (unat b div 16) # hex_char (unat b mod 16) # concat (map hex_byte bs))"
    using boundary_hex [of "b # bs"] by simp
  ultimately show ?case using Cons by simp
qed simp

lemma length_hex: "length (concat (map hex_byte bs)) = 2 * length bs"
  by (induction bs) (simp_all add: hex_byte_def)

lemma hex_bytes_hex [simp]: "hex_bytes (bytes_hex bs) = Some (Some bs)"
  by (simp add: hex_bytes_def bytes_hex_def length_hex hex_pairs_hex)

lemma secret_bytes_hex [simp]: "length bs = 32 \<Longrightarrow> secret_bytes (secret_hex bs) = Some bs"
  by (simp add: secret_bytes_def secret_hex_def length_hex secret_pairs_hex)

text \<open>A token line of a file with a letter outside ASCII, \<open>0\<close> \<open>e-acute\<close> \<open>0\<close>, stops the reader.\<close>

lemma hex_bytes_panics: "hex_bytes [CHR ''0'', char_of (0xC3 :: nat), char_of (0xA9 :: nat), CHR ''0''] = None"
  by (simp add: hex_bytes_def boundary_at_def continuation_def)

end
