(* ===== verification/Srv_State.thy ===== *)
theory Srv_State
  imports Srv_Graph Text_Codec
begin

text \<open>
  The state of the server (\<open>Server\<close> of \<open>crates/wk-server/src/server.rs\<close>), as far as a command
  can see it: the graph, the registry of app nodes, what a document holds that could not be
  placed, the live instances, the undo history and the counters. Then every operation on it
  that does not touch instances: the creation of each kind of node, the wires, the removal of
  each kind, the projection of a node into its saved form and back.

  A function that looks for a free generated name, or reads a token in hexadecimal, returns an
  \<open>option\<close>: the search may go on for ever, the reader may panic (\<open>Text_Codec\<close>).
\<close>

subsection \<open>State\<close>

record app_rec =
  ap_id :: node_id
  ap_name :: string
  ap_options :: "f32_bits list"

datatype wire_rel = RConnection | RMidi | RServe | RNetLink | RCaptureLink | RClipboardLink | RApiLink

type_synonym rel_wire = "wire_rel \<times> node_id \<times> node_id"

record inst_rec =
  ir_tab :: node_id
  ir_parent :: "node_id option"
  ir_definition :: string
  ir_name :: string
  ir_nodes :: "node_id list"
  ir_wires :: "rel_wire list"

record snapshot =
  ss_ws :: node_id
  ss_node :: node_snap
  ss_data :: bytes
  ss_wires :: "link list"
  ss_boundary :: "boundary_wire_ref list"

record ws_snapshot =
  wn_id :: node_id
  wn_index :: nat
  wn_name :: "string option"
  wn_nodes :: "snapshot list"

datatype undo =
    UPos node_id point
  | USize node_id point
  | UArgs node_id "string list"
  | UPort node_id u16
  | UText node_id string
  | UWire node_id node_id
  | URewireUnique node_id node_id "node_id option"
  | UToken node_id "bytes option"
  | UBoundary boundary_wire_ref bool
  | UUncreate "node_id list"
  | URecreate snapshot
  | UDropWorkspace node_id
  | URecreateWorkspace ws_snapshot

record server =
  sv_graph :: graph
  sv_reg :: "app_rec list"
  sv_pending_run :: "unit table"
  sv_unplaced :: "(node_id \<times> node_snap) list"
  sv_unplaced_wires :: "(node_id \<times> rel_wire) list"
  sv_authored :: "(nat \<times> workspace) list"
  sv_instances :: "inst_rec table"
  sv_pending_wires :: "link list"
  sv_undo :: "undo list"
  sv_next_port :: u16
  sv_file_seq :: u32
  sv_host_seq :: u32
  sv_view :: "u64 \<times> view_mode"
  sv_scratch :: "node_id option"
  sv_ids :: nat

definition undo_cap :: nat where
  "undo_cap = 200"

definition on_graph :: "(graph \<Rightarrow> graph) \<Rightarrow> server \<Rightarrow> server" where
  "on_graph f s = s\<lparr>sv_graph := f (sv_graph s)\<rparr>"

definition app_node :: "server \<Rightarrow> node_id \<Rightarrow> app_rec option" where
  "app_node s i = List.find (\<lambda>n. ap_id n = i) (sv_reg s)"

text \<open>\<open>PluginHost::spawn\<close> puts the node into the registry and compiles in the background; it returns \<open>Ok\<close>.\<close>

definition spawn :: "node_id \<Rightarrow> string \<Rightarrow> f32_bits list \<Rightarrow> server \<Rightarrow> server" where
  "spawn i name options s = s\<lparr>sv_reg := sv_reg s @ [\<lparr>ap_id = i, ap_name = name, ap_options = options\<rparr>]\<rparr>"

definition alloc_id :: "runtime \<Rightarrow> server \<Rightarrow> node_id \<times> server" where
  "alloc_id e s = (rt_id e (sv_ids s), s\<lparr>sv_ids := sv_ids s + 1\<rparr>)"

definition generated_node_name :: "runtime \<Rightarrow> server \<Rightarrow> node_id \<Rightarrow> string option" where
  "generated_node_name e s i = name_walk (rt_sha e) i (map snd (g_names (sv_graph s))) 0"

definition is_derived :: "server \<Rightarrow> node_id \<Rightarrow> bool" where
  "is_derived s i =
     (case map_of (g_nodes (sv_graph s)) i of None \<Rightarrow> False | Some r \<Rightarrow> map_of (sv_instances s) (nr_ws r) \<noteq> None)"

definition is_private_link_net :: "server \<Rightarrow> node_id \<Rightarrow> bool" where
  "is_private_link_net s net \<longleftrightarrow> net \<in> snd ` set (g_link_nets (sv_graph s))"

definition instance_label :: "server \<Rightarrow> node_id \<Rightarrow> string" where
  "instance_label s i = (case map_of (sv_instances s) i of None \<Rightarrow> [] | Some r \<Rightarrow> ir_name r)"

subsection \<open>Creating nodes\<close>

text \<open>The sizes \<open>[FILE_W, FILE_H]\<close>, \<open>[NOTE_W, NOTE_H]\<close> and \<open>[360.0, 260.0]\<close>, as bits.\<close>

definition file_size :: point where
  "file_size = (0x43020000, 0x42300000)"

definition note_size :: point where
  "note_size = (0x435C0000, 0x43020000)"

definition app_size :: point where
  "app_size = (0x43B40000, 0x43820000)"

definition place_app :: "node_id \<Rightarrow> string \<Rightarrow> string \<Rightarrow> string list \<Rightarrow> node_id \<Rightarrow> point \<Rightarrow> point \<Rightarrow> graph \<Rightarrow> graph" where
  "place_app i dep name args ws pos sz g =
     (place g i KdApp ws pos sz)\<lparr>
       g_deps := bt_insert i dep (g_deps g), g_names := bt_insert i name (g_names g), g_args := bt_insert i args (g_args g)\<rparr>"

definition launch :: "runtime \<Rightarrow> server \<Rightarrow> dependency \<Rightarrow> point \<Rightarrow> node_id \<Rightarrow> server option" where
  "launch e s dep pos ws =
     (let (i, s1) = alloc_id e s
      in case generated_node_name e s1 i of
           None \<Rightarrow> None
         | Some name \<Rightarrow>
             Some (on_graph (place_app i (dp_name dep) name (dp_args dep) ws pos app_size) (spawn i name [] s1)))"

definition place_file :: "node_id \<Rightarrow> file_node \<Rightarrow> node_id \<Rightarrow> point \<Rightarrow> point \<Rightarrow> graph \<Rightarrow> graph" where
  "place_file i f ws pos sz g = (place g i KdFile ws pos sz)\<lparr>g_files := bt_insert i f (g_files g)\<rparr>"

definition add_virtual_file :: "runtime \<Rightarrow> server \<Rightarrow> point \<Rightarrow> node_id \<Rightarrow> server" where
  "add_virtual_file e s pos ws =
     (let s1 = s\<lparr>sv_file_seq := sv_file_seq s + 1\<rparr>;
          (i, s2) = alloc_id e s1
      in on_graph (place_file i (FnVolume (''file'' @ decimal (unat (sv_file_seq s1))) [] False) ws pos file_size) s2)"

definition add_host_mapped_file :: "runtime \<Rightarrow> server \<Rightarrow> point \<Rightarrow> node_id \<Rightarrow> server" where
  "add_host_mapped_file e s pos ws =
     (let s1 = s\<lparr>sv_host_seq := sv_host_seq s + 1\<rparr>;
          (i, s2) = alloc_id e s1;
          name = ''host'' @ decimal (unat (sv_host_seq s1))
      in on_graph (place_file i (FnBind name name) ws pos file_size) s2)"

definition add_host_mount :: "runtime \<Rightarrow> server \<Rightarrow> string \<Rightarrow> point \<Rightarrow> node_id \<Rightarrow> server" where
  "add_host_mount e s path pos ws =
     (let (i, s1) = alloc_id e s
      in on_graph (\<lambda>g. sync_mounts (place_file i (FnBind (host_file_name path) path) ws pos file_size g)) s1)"

definition place_port :: "node_id \<Rightarrow> u16 \<Rightarrow> node_id \<Rightarrow> point \<Rightarrow> point \<Rightarrow> graph \<Rightarrow> graph" where
  "place_port i port ws pos sz g = (place g i KdPort ws pos sz)\<lparr>g_ports := bt_insert i port (g_ports g)\<rparr>"

definition add_host_port :: "runtime \<Rightarrow> server \<Rightarrow> point \<Rightarrow> node_id \<Rightarrow> server" where
  "add_host_port e s pos ws =
     (let (i, s1) = alloc_id e s; port = sv_next_port s1
      in on_graph (place_port i port ws pos file_size) (s1\<lparr>sv_next_port := max (port + 1) 8080\<rparr>))"

definition place_note_node :: "node_id \<Rightarrow> string \<Rightarrow> node_id \<Rightarrow> point \<Rightarrow> point \<Rightarrow> graph \<Rightarrow> graph" where
  "place_note_node i t ws pos sz g = (place g i KdNote ws pos sz)\<lparr>g_notes := bt_insert i t (g_notes g)\<rparr>"

definition add_note_node :: "runtime \<Rightarrow> server \<Rightarrow> point \<Rightarrow> node_id \<Rightarrow> server" where
  "add_note_node e s pos ws =
     (let (i, s1) = alloc_id e s in on_graph (place_note_node i ''note'' ws pos note_size) s1)"

text \<open>
  The nodes with no table of their own: capture, clipboard and API nodes, networks, gateways,
  routers. (The frame slot of a capture node and the board of a clipboard node are runtime.)
\<close>

definition add_plain :: "runtime \<Rightarrow> server \<Rightarrow> gkind \<Rightarrow> point \<Rightarrow> node_id \<Rightarrow> server" where
  "add_plain e s k pos ws =
     (let (i, s1) = alloc_id e s in on_graph (\<lambda>g. place g i k ws pos file_size) s1)"

definition add_capture_node :: "runtime \<Rightarrow> server \<Rightarrow> point \<Rightarrow> node_id \<Rightarrow> server" where
  "add_capture_node e s pos ws = add_plain e s KdCapture pos ws"

definition add_clipboard_node :: "runtime \<Rightarrow> server \<Rightarrow> point \<Rightarrow> node_id \<Rightarrow> server" where
  "add_clipboard_node e s pos ws = add_plain e s KdClipboard pos ws"

definition add_api_node :: "runtime \<Rightarrow> server \<Rightarrow> point \<Rightarrow> node_id \<Rightarrow> server" where
  "add_api_node e s pos ws = add_plain e s KdApi pos ws"

definition add_net_node :: "runtime \<Rightarrow> server \<Rightarrow> point \<Rightarrow> node_id \<Rightarrow> server" where
  "add_net_node e s pos ws = add_plain e s KdNetwork pos ws"

definition add_gateway_node :: "runtime \<Rightarrow> server \<Rightarrow> point \<Rightarrow> node_id \<Rightarrow> server" where
  "add_gateway_node e s pos ws = add_plain e s KdGateway pos ws"

definition add_router_node :: "runtime \<Rightarrow> server \<Rightarrow> point \<Rightarrow> node_id \<Rightarrow> server" where
  "add_router_node e s pos ws = add_plain e s KdRouter pos ws"

definition place_service :: "node_id \<Rightarrow> host_service \<Rightarrow> node_id \<Rightarrow> point \<Rightarrow> point \<Rightarrow> graph \<Rightarrow> graph" where
  "place_service i svc ws pos sz g = (place g i KdHostService ws pos sz)\<lparr>g_services := bt_insert i svc (g_services g)\<rparr>"

definition add_host_service :: "runtime \<Rightarrow> server \<Rightarrow> point \<Rightarrow> node_id \<Rightarrow> server" where
  "add_host_service e s pos ws =
     (let (i, s1) = alloc_id e s
      in on_graph (place_service i \<lparr>hs_name = ''host'', hs_target = ''127.0.0.1:8080''\<rparr> ws pos file_size) s1)"

definition place_multicast :: "node_id \<Rightarrow> mcast \<Rightarrow> node_id \<Rightarrow> point \<Rightarrow> point \<Rightarrow> graph \<Rightarrow> graph" where
  "place_multicast i cfg ws pos sz g =
     (place g i KdMulticast ws pos sz)\<lparr>g_multicasts := bt_insert i cfg (g_multicasts g)\<rparr>"

definition create_multicast :: "runtime \<Rightarrow> server \<Rightarrow> node_id \<Rightarrow> mcast \<Rightarrow> point \<Rightarrow> point \<Rightarrow> node_id \<Rightarrow> server" where
  "create_multicast e s i cfg pos sz ws =
     (if rt_mcast e i cfg then on_graph (place_multicast i cfg ws pos sz) s else s)"

definition add_multicast_node :: "runtime \<Rightarrow> server \<Rightarrow> point \<Rightarrow> node_id \<Rightarrow> server" where
  "add_multicast_node e s pos ws =
     (let (i, s1) = alloc_id e s in create_multicast e s1 i \<lparr>mc_iface = None, mc_groups = []\<rparr> pos file_size ws)"

definition place_midi_in :: "runtime \<Rightarrow> node_id \<Rightarrow> string \<Rightarrow> node_id \<Rightarrow> point \<Rightarrow> point \<Rightarrow> graph \<Rightarrow> graph" where
  "place_midi_in e i device ws pos sz g =
     open_midi_device e ((place g i KdMidiIn ws pos sz)\<lparr>g_midi_ins := bt_insert i device (g_midi_ins g)\<rparr>) i device"

definition place_midi_out :: "runtime \<Rightarrow> node_id \<Rightarrow> string \<Rightarrow> node_id \<Rightarrow> point \<Rightarrow> point \<Rightarrow> graph \<Rightarrow> graph" where
  "place_midi_out e i device ws pos sz g =
     open_midi_out_device e ((place g i KdMidiOut ws pos sz)\<lparr>g_midi_outs := bt_insert i device (g_midi_outs g)\<rparr>) i device"

definition add_midi_in_node :: "runtime \<Rightarrow> server \<Rightarrow> point \<Rightarrow> node_id \<Rightarrow> server" where
  "add_midi_in_node e s pos ws = (let (i, s1) = alloc_id e s in on_graph (place_midi_in e i [] ws pos file_size) s1)"

definition add_midi_out_node :: "runtime \<Rightarrow> server \<Rightarrow> point \<Rightarrow> node_id \<Rightarrow> server" where
  "add_midi_out_node e s pos ws = (let (i, s1) = alloc_id e s in on_graph (place_midi_out e i [] ws pos file_size) s1)"

definition place_iroh :: "node_id \<Rightarrow> bytes \<Rightarrow> node_id \<Rightarrow> point \<Rightarrow> point \<Rightarrow> graph \<Rightarrow> graph" where
  "place_iroh i own ws pos sz g = (place g i KdIroh ws pos sz)\<lparr>g_iroh := bt_insert i own (g_iroh g)\<rparr>"

definition place_veilid :: "node_id \<Rightarrow> string \<Rightarrow> node_id \<Rightarrow> point \<Rightarrow> point \<Rightarrow> graph \<Rightarrow> graph" where
  "place_veilid i own ws pos sz g = (place g i KdVeilid ws pos sz)\<lparr>g_veilid := bt_insert i own (g_veilid g)\<rparr>"

definition create_uplink :: "runtime \<Rightarrow> server \<Rightarrow> node_id \<Rightarrow> bytes option \<Rightarrow> point \<Rightarrow> point \<Rightarrow> node_id \<Rightarrow> server" where
  "create_uplink e s i secret pos sz ws =
     (case rt_iroh e i secret of Some own \<Rightarrow> on_graph (place_iroh i own ws pos sz) s | None \<Rightarrow> s)"

definition create_veilid_uplink :: "runtime \<Rightarrow> server \<Rightarrow> node_id \<Rightarrow> string option \<Rightarrow> point \<Rightarrow> point \<Rightarrow> node_id \<Rightarrow> server" where
  "create_veilid_uplink e s i identity pos sz ws =
     (case rt_veilid e i identity of Some own \<Rightarrow> on_graph (place_veilid i own ws pos sz) s | None \<Rightarrow> s)"

definition add_iroh_node :: "runtime \<Rightarrow> server \<Rightarrow> point \<Rightarrow> node_id \<Rightarrow> server" where
  "add_iroh_node e s pos ws = (let (i, s1) = alloc_id e s in create_uplink e s1 i None pos file_size ws)"

definition add_veilid_node :: "runtime \<Rightarrow> server \<Rightarrow> point \<Rightarrow> node_id \<Rightarrow> server" where
  "add_veilid_node e s pos ws = (let (i, s1) = alloc_id e s in create_veilid_uplink e s1 i None pos file_size ws)"

subsection \<open>Wires\<close>

definition app_loading :: "runtime \<Rightarrow> server \<Rightarrow> node_id \<Rightarrow> bool" where
  "app_loading e s i \<longleftrightarrow> app_node s i \<noteq> None \<and> rt_loading e i"

definition app_serves_fs :: "runtime \<Rightarrow> server \<Rightarrow> node_id \<Rightarrow> bool" where
  "app_serves_fs e s i \<longleftrightarrow> app_node s i \<noteq> None \<and> rt_serves_fs e i"

definition srv_toggle_midi :: "runtime \<Rightarrow> server \<Rightarrow> node_id \<Rightarrow> node_id \<Rightarrow> server" where
  "srv_toggle_midi e s a b =
     (let (g, k) = toggle_midi e (map ap_id (sv_reg s)) (sv_ids s) (sv_graph s) a b in s\<lparr>sv_graph := g, sv_ids := k\<rparr>)"

definition srv_toggle :: "runtime \<Rightarrow> wire_rel \<Rightarrow> node_id \<Rightarrow> node_id \<Rightarrow> server \<Rightarrow> server" where
  "srv_toggle e rel a b s =
     (case rel of
        RConnection \<Rightarrow> on_graph (\<lambda>g. toggle_file g a b) s
      | RMidi \<Rightarrow> srv_toggle_midi e s a b
      | RServe \<Rightarrow> on_graph (\<lambda>g. toggle_serve g a b) s
      | RNetLink \<Rightarrow> on_graph (\<lambda>g. toggle_net g a b) s
      | RCaptureLink \<Rightarrow> on_graph (\<lambda>g. toggle_capture g a b) s
      | RClipboardLink \<Rightarrow> on_graph (\<lambda>g. toggle_clipboard g a b) s
      | RApiLink \<Rightarrow> on_graph (\<lambda>g. toggle_api g a b) s)"

definition rel_links :: "wire_rel \<Rightarrow> graph \<Rightarrow> link list" where
  "rel_links rel g =
     (case rel of
        RConnection \<Rightarrow> g_connections g
      | RMidi \<Rightarrow> g_midi_links g
      | RServe \<Rightarrow> g_serve_links g
      | RNetLink \<Rightarrow> g_net_links g
      | RCaptureLink \<Rightarrow> g_captures g
      | RClipboardLink \<Rightarrow> g_clipboards g
      | RApiLink \<Rightarrow> g_apis g)"

definition unwire_rel :: "runtime \<Rightarrow> rel_wire \<Rightarrow> server \<Rightarrow> server" where
  "unwire_rel e w s =
     (case w of (rel, a, b) \<Rightarrow> if (a, b) \<notin> set (rel_links rel (sv_graph s)) then s else srv_toggle e rel a b s)"

definition connect_toggle :: "runtime \<Rightarrow> server \<Rightarrow> node_id \<Rightarrow> node_id \<Rightarrow> server" where
  "connect_toggle e s a b =
     (case classify a b (srv_class_of (sv_graph s) a) (srv_class_of (sv_graph s) b) of
        None \<Rightarrow> s
      | Some (WBind f ap) \<Rightarrow> srv_toggle e RConnection f ap s
      | Some (WServe h hp) \<Rightarrow> srv_toggle e RServe h hp s
      | Some (WNet ap net) \<Rightarrow> srv_toggle e RNetLink ap net s
      | Some (WCapture ap c) \<Rightarrow> srv_toggle e RCaptureLink ap c s
      | Some (WClipboard ap c) \<Rightarrow> srv_toggle e RClipboardLink ap c s
      | Some (WApi ap n) \<Rightarrow> srv_toggle e RApiLink ap n s
      | Some (WMidi src dst) \<Rightarrow>
          if app_loading e s src \<or> app_loading e s dst then s\<lparr>sv_pending_wires := sv_pending_wires s @ [(src, dst)]\<rparr>
          else if app_serves_fs e s src then srv_toggle e RConnection src dst s
          else if app_serves_fs e s dst then srv_toggle e RConnection dst src s
          else srv_toggle e RMidi src dst s)"

fun wire_relation :: "wire \<Rightarrow> wire_rel" where
  "wire_relation (WBind a b) = RConnection"
| "wire_relation (WMidi a b) = RMidi"
| "wire_relation (WServe a b) = RServe"
| "wire_relation (WNet a b) = RNetLink"
| "wire_relation (WCapture a b) = RCaptureLink"
| "wire_relation (WClipboard a b) = RClipboardLink"
| "wire_relation (WApi a b) = RApiLink"

definition disconnect_wire :: "runtime \<Rightarrow> server \<Rightarrow> wire \<Rightarrow> server" where
  "disconnect_wire e s w =
     (case srv_wire_ends w of (a, b) \<Rightarrow>
        if (a, b) \<in> set (rel_links (wire_relation w) (sv_graph s)) then srv_toggle e (wire_relation w) a b s else s)"

fun rewire :: "runtime \<Rightarrow> link list \<Rightarrow> server \<Rightarrow> server" where
  "rewire e [] s = s"
| "rewire e ((a, b) # wires) s =
     rewire e wires
       (if node_exists (sv_graph s) a \<and> node_exists (sv_graph s) b \<and> \<not> wired (sv_graph s) a b then connect_toggle e s a b
        else s)"

fun retry_wires :: "runtime \<Rightarrow> link list \<Rightarrow> server \<Rightarrow> server" where
  "retry_wires e [] s = s"
| "retry_wires e ((a, b) # pending) s =
     retry_wires e pending
       (if \<not> node_exists (sv_graph s) a \<or> \<not> node_exists (sv_graph s) b then s
        else if app_loading e s a \<or> app_loading e s b then s\<lparr>sv_pending_wires := sv_pending_wires s @ [(a, b)]\<rparr>
        else if \<not> wired (sv_graph s) a b then connect_toggle e s a b
        else s)"

definition sync_pending_app_wires :: "runtime \<Rightarrow> server \<Rightarrow> server" where
  "sync_pending_app_wires e s = retry_wires e (sv_pending_wires s) (s\<lparr>sv_pending_wires := []\<rparr>)"

subsection \<open>Ports\<close>

definition set_host_port :: "server \<Rightarrow> node_id \<Rightarrow> u16 \<Rightarrow> server" where
  "set_host_port s i new =
     (case map_of (g_ports (sv_graph s)) i of
        None \<Rightarrow> s
      | Some cur \<Rightarrow>
          if new = cur \<or> new = 0 then s
          else
            on_graph (\<lambda>g. sync_serves (g\<lparr>g_ports := bt_insert i new (g_ports g)\<rparr>))
              (s\<lparr>sv_next_port := max (sv_next_port s) (if new = 0xFFFF then new else new + 1)\<rparr>))"

text \<open>\<open>(cur as i32 + delta).clamp(1, 65535) as u16\<close>; the sum is of 32 bits.\<close>

definition nudge :: "u16 \<Rightarrow> 32 word \<Rightarrow> u16" where
  "nudge cur delta = word_of_int (min 65535 (max 1 (sint (ucast cur + delta))))"

definition change_port :: "server \<Rightarrow> node_id \<Rightarrow> 32 word \<Rightarrow> server" where
  "change_port s i delta =
     (case map_of (g_ports (sv_graph s)) i of None \<Rightarrow> s | Some cur \<Rightarrow> set_host_port s i (nudge cur delta))"

subsection \<open>Removing nodes\<close>

definition untouched :: "node_id \<Rightarrow> link list \<Rightarrow> link list" where
  "untouched i links = filter (\<lambda>(a, b). a \<noteq> i \<and> b \<noteq> i) links"

definition not_from :: "node_id \<Rightarrow> link list \<Rightarrow> link list" where
  "not_from i links = filter (\<lambda>(a, _). a \<noteq> i) links"

definition not_to :: "node_id \<Rightarrow> link list \<Rightarrow> link list" where
  "not_to i links = filter (\<lambda>(_, b). b \<noteq> i) links"

definition remove_file_node :: "graph \<Rightarrow> node_id \<Rightarrow> graph" where
  "remove_file_node g i = forget (sync_mounts (g\<lparr>g_connections := not_from i (g_connections g)\<rparr>)) i"

definition remove_host_port :: "graph \<Rightarrow> node_id \<Rightarrow> graph" where
  "remove_host_port g i =
     forget (sync_serves (g\<lparr>g_ports := bt_remove i (g_ports g), g_serve_links := not_to i (g_serve_links g)\<rparr>)) i"

definition remove_net_node :: "graph \<Rightarrow> node_id \<Rightarrow> graph" where
  "remove_net_node g i = forget (g\<lparr>g_net_links := not_to i (g_net_links g)\<rparr>) i"

definition remove_uplink_node :: "graph \<Rightarrow> node_id \<Rightarrow> graph" where
  "remove_uplink_node g i = forget (g\<lparr>g_net_links := not_from i (g_net_links g)\<rparr>) i"

definition remove_multicast_node :: "graph \<Rightarrow> node_id \<Rightarrow> graph" where
  "remove_multicast_node g i =
     forget (g\<lparr>g_multicasts := bt_remove i (g_multicasts g), g_net_links := not_from i (g_net_links g)\<rparr>) i"

definition remove_capture_node :: "graph \<Rightarrow> node_id \<Rightarrow> graph" where
  "remove_capture_node g i = forget (g\<lparr>g_captures := not_to i (g_captures g)\<rparr>) i"

definition remove_clipboard_node :: "graph \<Rightarrow> node_id \<Rightarrow> graph" where
  "remove_clipboard_node g i = forget (g\<lparr>g_clipboards := not_to i (g_clipboards g)\<rparr>) i"

definition remove_api_node :: "graph \<Rightarrow> node_id \<Rightarrow> graph" where
  "remove_api_node g i = forget (g\<lparr>g_apis := not_to i (g_apis g)\<rparr>) i"

definition remove_midi_in_node :: "runtime \<Rightarrow> graph \<Rightarrow> node_id \<Rightarrow> graph" where
  "remove_midi_in_node e g i =
     forget
       (prune_app_link_net e
          (g\<lparr>g_midi_ins := bt_remove i (g_midi_ins g), g_midi_links := untouched i (g_midi_links g)\<rparr>) i) i"

definition remove_midi_out_node :: "runtime \<Rightarrow> graph \<Rightarrow> node_id \<Rightarrow> graph" where
  "remove_midi_out_node e g i =
     forget
       (prune_app_link_net e
          (g\<lparr>g_midi_outs := bt_remove i (g_midi_outs g), g_midi_links := untouched i (g_midi_links g)\<rparr>) i) i"

definition remove_boundary_port :: "runtime \<Rightarrow> graph \<Rightarrow> node_id \<Rightarrow> graph" where
  "remove_boundary_port e g i =
     (let g1 = prune_app_link_net e
                 (g\<lparr>g_connections := untouched i (g_connections g), g_midi_links := untouched i (g_midi_links g)\<rparr>) i;
          g2 = g1\<lparr>g_captures := untouched i (g_captures g1), g_clipboards := untouched i (g_clipboards g1),
                  g_apis := untouched i (g_apis g1)\<rparr>
      in forget (g2\<lparr>g_mount_paths := prune_side_map (g_mount_paths g2) (g_connections g2)\<rparr>) i)"

definition close_app :: "runtime \<Rightarrow> graph \<Rightarrow> node_id \<Rightarrow> graph" where
  "close_app e g i =
     (let g1 = prune_app_link_net e
                 (g\<lparr>g_connections := not_to i (g_connections g), g_net_links := not_from i (g_net_links g),
                    g_midi_links := untouched i (g_midi_links g)\<rparr>) i;
          g2 = g1\<lparr>g_serve_links := untouched i (g_serve_links g1), g_clipboards := not_from i (g_clipboards g1)\<rparr>
      in forget (sync_serves (sync_channels (sync_mounts g2))) i)"

definition close_node :: "runtime \<Rightarrow> server \<Rightarrow> node_id \<Rightarrow> server" where
  "close_node e s i = on_graph (\<lambda>g. close_app e g i) (s\<lparr>sv_reg := filter (\<lambda>n. ap_id n \<noteq> i) (sv_reg s)\<rparr>)"

definition remove_member :: "graph \<Rightarrow> node_id \<Rightarrow> graph" where
  "remove_member g i = forget (g\<lparr>g_net_links := not_from i (g_net_links g)\<rparr>) i"

text \<open>\<open>remove_any\<close>, for every kind but a group.\<close>

definition remove_plain :: "runtime \<Rightarrow> server \<Rightarrow> node_id \<Rightarrow> server" where
  "remove_plain e s i =
     (case kind_of (sv_graph s) i of
        Some KdFile \<Rightarrow> on_graph (\<lambda>g. remove_file_node g i) s
      | Some KdPort \<Rightarrow> on_graph (\<lambda>g. remove_host_port g i) s
      | Some KdNetwork \<Rightarrow> on_graph (\<lambda>g. remove_net_node g i) s
      | Some KdGateway \<Rightarrow> on_graph (\<lambda>g. remove_net_node g i) s
      | Some KdIroh \<Rightarrow> on_graph (\<lambda>g. remove_uplink_node g i) s
      | Some KdVeilid \<Rightarrow> on_graph (\<lambda>g. remove_uplink_node g i) s
      | Some KdMulticast \<Rightarrow> on_graph (\<lambda>g. remove_multicast_node g i) s
      | Some KdApp \<Rightarrow> close_node e s i
      | Some KdNote \<Rightarrow> on_graph (\<lambda>g. forget g i) s
      | Some KdCapture \<Rightarrow> on_graph (\<lambda>g. remove_capture_node g i) s
      | Some KdClipboard \<Rightarrow> on_graph (\<lambda>g. remove_clipboard_node g i) s
      | Some KdApi \<Rightarrow> on_graph (\<lambda>g. remove_api_node g i) s
      | Some KdMidiIn \<Rightarrow> on_graph (\<lambda>g. remove_midi_in_node e g i) s
      | Some KdMidiOut \<Rightarrow> on_graph (\<lambda>g. remove_midi_out_node e g i) s
      | Some KdHostService \<Rightarrow> on_graph (\<lambda>g. remove_member g i) s
      | Some KdRouter \<Rightarrow> on_graph (\<lambda>g. remove_member g i) s
      | Some KdBoundary \<Rightarrow> on_graph (\<lambda>g. remove_boundary_port e g i) s
      | Some KdGroup \<Rightarrow> s
      | None \<Rightarrow> s)"

end
