(* ===== verification/Srv_Doc.thy ===== *)
theory Srv_Doc
  imports Srv_State "HOL-Library.Monad_Syntax"
begin

text \<open>
  Between the running server and its document (\<open>crates/wk-server/src/server.rs\<close>): the saved form
  of a node and the one path that makes a node from it (\<open>node_snap\<close>, \<open>materialize\<close>), the wires
  of a workspace, the instances of groups (\<open>expand_group\<close>, \<open>rewire_group\<close>, \<open>tear_down_instance\<close>),
  loading a document and projecting it back (\<open>Server::new\<close>, \<open>save\<close>).

  The removal of a group tears down its instance, which removes nodes: the recursion is a stack
  of removals that are still to be done.
\<close>

subsection \<open>The saved form of a node\<close>

definition peer_ticket :: "graph \<Rightarrow> node_id \<Rightarrow> string option" where
  "peer_ticket g i =
     (case map_of (g_args g) i of None \<Rightarrow> None | Some [] \<Rightarrow> None | Some a \<Rightarrow> Some (join_with '' '' a))"

definition get_or :: "'v \<Rightarrow> 'v option \<Rightarrow> 'v" where
  "get_or d x = (case x of None \<Rightarrow> d | Some v \<Rightarrow> v)"

definition app_snap :: "runtime \<Rightarrow> server \<Rightarrow> node_id \<Rightarrow> snap_kind option" where
  "app_snap e s i =
     (let g = sv_graph s
      in map_option
           (\<lambda>node.
              SkApp (get_or (ap_name node) (map_of (g_deps g) i))
                (case map_of (g_names g) i of
                   None \<Rightarrow> None
                 | Some name \<Rightarrow> if name \<noteq> generated (rt_sha e) i 0 then Some name else None)
                (ap_options node) (get_or [] (map_of (g_args g) i)) (map_option bytes_hex (map_of (g_tokens g) i)))
           (app_node s i))"

definition kind_snap :: "runtime \<Rightarrow> server \<Rightarrow> node_id \<Rightarrow> gkind \<Rightarrow> snap_kind option" where
  "kind_snap e s i k =
     (let g = sv_graph s
      in case k of
           KdApp \<Rightarrow> app_snap e s i
         | KdFile \<Rightarrow>
             map_option (\<lambda>f. case f of FnVolume name data persist \<Rightarrow> SkVolume name persist | FnBind name path \<Rightarrow> SkBindMount path)
               (map_of (g_files g) i)
         | KdPort \<Rightarrow> map_option SkPort (map_of (g_ports g) i)
         | KdNetwork \<Rightarrow> Some (SkNet False)
         | KdGateway \<Rightarrow> Some (SkNet True)
         | KdRouter \<Rightarrow> Some SkRouter
         | KdIroh \<Rightarrow> Some (SkIroh (map_option secret_hex (map_of (g_iroh g) i)) (peer_ticket g i))
         | KdVeilid \<Rightarrow> Some (SkVeilid (map_of (g_veilid g) i) (peer_ticket g i))
         | KdNote \<Rightarrow> Some (SkNote (get_or [] (map_of (g_notes g) i)))
         | KdCapture \<Rightarrow> Some SkCapture
         | KdClipboard \<Rightarrow> Some SkClipboard
         | KdApi \<Rightarrow> Some SkApi
         | KdMidiIn \<Rightarrow> Some (SkMidiIn (get_or [] (map_of (g_midi_ins g) i)))
         | KdMidiOut \<Rightarrow> Some (SkMidiOut (get_or [] (map_of (g_midi_outs g) i)))
         | KdHostService \<Rightarrow> map_option (\<lambda>svc. SkHostService (hs_name svc) (hs_target svc)) (map_of (g_services g) i)
         | KdMulticast \<Rightarrow>
             (let m = get_or \<lparr>mc_iface = None, mc_groups = []\<rparr> (map_of (g_multicasts g) i)
              in Some (SkMulticast (mc_iface m) (mc_groups m)))
         | KdBoundary \<Rightarrow>
             map_option (\<lambda>p. case bp_dir p of In \<Rightarrow> SkInPort (bp_name p) (bp_kind p) | Out \<Rightarrow> SkOutPort (bp_name p) (bp_kind p))
               (map_of (g_boundaries g) i)
         | KdGroup \<Rightarrow>
             map_option (\<lambda>gn. SkGroup (gn_definition gn) (gn_name gn) (gn_in gn) (gn_out gn)) (map_of (g_groups g) i))"

definition snap_node :: "runtime \<Rightarrow> server \<Rightarrow> node_id \<Rightarrow> node_snap option" where
  "snap_node e s i =
     (case map_of (g_nodes (sv_graph s)) i of
        None \<Rightarrow> None
      | Some r \<Rightarrow>
          map_option
            (\<lambda>k. \<lparr>sn_id = i, sn_pos = nr_pos r, sn_size = nr_size r, sn_pos3d = map_of (g_pos3d (sv_graph s)) i,
                  sn_panel3d = (map_of (g_hidden (sv_graph s)) i = None), sn_kind = k\<rparr>)
            (kind_snap e s i (nr_kind r)))"

subsection \<open>Making a node from its saved form\<close>

definition seq_after :: "string \<Rightarrow> string \<Rightarrow> u32 \<Rightarrow> u32" where
  "seq_after prefix name n =
     (case strip_prefix prefix name of
        None \<Rightarrow> n
      | Some rest \<Rightarrow> (case parse_u32 rest of None \<Rightarrow> n | Some num \<Rightarrow> max n num))"

text \<open>
  The token of a saved app node: \<open>hex_bytes\<close> may panic; an empty token, one that does not decode
  and one that does not verify are dropped.
\<close>

definition saved_token :: "runtime \<Rightarrow> string option \<Rightarrow> bytes option option" where
  "saved_token e t =
     (case t of
        None \<Rightarrow> Some None
      | Some hex \<Rightarrow>
          (case hex_bytes hex of
             None \<Rightarrow> None
           | Some None \<Rightarrow> Some None
           | Some (Some tok) \<Rightarrow> Some (if tok = [] \<or> \<not> rt_token_ok e tok then None else Some tok)))"

definition put_token :: "node_id \<Rightarrow> bytes \<Rightarrow> graph \<Rightarrow> graph" where
  "put_token i t g = g\<lparr>g_tokens := bt_insert i t (g_tokens g)\<rparr>"

definition materialize_app ::
  "runtime \<Rightarrow> server \<Rightarrow> node_id \<Rightarrow> node_snap \<Rightarrow> dependency \<Rightarrow> string option \<Rightarrow> f32_bits list \<Rightarrow> string list \<Rightarrow> string option \<Rightarrow> server option" where
  "materialize_app e s ws n dep name options args token =
     do {
       ident \<leftarrow> (case name of Some chosen \<Rightarrow> Some chosen | None \<Rightarrow> generated_node_name e s (sn_id n));
       tok \<leftarrow> saved_token e token;
       let args' = (if args = [] then rt_effective e dep else args);
       let s1 = on_graph (place_app (sn_id n) (dp_name dep) ident args' ws (sn_pos n) (sn_size n)) (spawn (sn_id n) ident options s);
       Some (case tok of
               None \<Rightarrow> s1
             | Some t \<Rightarrow> on_graph (put_token (sn_id n) t) s1)
     }"

definition set_peer :: "node_id \<Rightarrow> string option \<Rightarrow> server \<Rightarrow> server" where
  "set_peer i peer s = (case peer of None \<Rightarrow> s | Some t \<Rightarrow> on_graph (\<lambda>g. set_node_args g i t) s)"

definition place_boundary :: "node_id \<Rightarrow> boundary_port \<Rightarrow> node_id \<Rightarrow> point \<Rightarrow> point \<Rightarrow> graph \<Rightarrow> graph" where
  "place_boundary i p ws pos sz g = (place g i KdBoundary ws pos sz)\<lparr>g_boundaries := bt_insert i p (g_boundaries g)\<rparr>"

definition place_group :: "node_id \<Rightarrow> group_node \<Rightarrow> node_id \<Rightarrow> point \<Rightarrow> point \<Rightarrow> graph \<Rightarrow> graph" where
  "place_group i gn ws pos sz g = (place g i KdGroup ws pos sz)\<lparr>g_groups := bt_insert i gn (g_groups g)\<rparr>"

text \<open>The nodes that are not apps: the match of \<open>materialize\<close>, which never returns early for them.\<close>

definition materialize_plain :: "runtime \<Rightarrow> server \<Rightarrow> node_id \<Rightarrow> node_snap \<Rightarrow> bytes \<Rightarrow> server" where
  "materialize_plain e s ws n data =
     (let i = sn_id n; pos = sn_pos n; sz = sn_size n
      in case sn_kind n of
           SkApp _ _ _ _ _ \<Rightarrow> s
         | SkVolume name persist \<Rightarrow>
             on_graph (place_file i (FnVolume name (if persist \<and> data = [] then rt_sidecar e i else data) persist) ws pos sz)
               (s\<lparr>sv_file_seq := seq_after ''file'' name (sv_file_seq s)\<rparr>)
         | SkBindMount path \<Rightarrow>
             on_graph (place_file i (FnBind (host_file_name path) path) ws pos sz)
               (s\<lparr>sv_host_seq := seq_after ''host'' (host_file_name path) (sv_host_seq s)\<rparr>)
         | SkPort port \<Rightarrow>
             on_graph (place_port i port ws pos sz)
               (s\<lparr>sv_next_port := max (sv_next_port s) (if port = 0xFFFF then port else port + 1)\<rparr>)
         | SkNet gateway \<Rightarrow> on_graph (\<lambda>g. place g i (if gateway then KdGateway else KdNetwork) ws pos sz) s
         | SkRouter \<Rightarrow> on_graph (\<lambda>g. place g i KdRouter ws pos sz) s
         | SkIroh secret peer \<Rightarrow>
             set_peer i peer
               (create_uplink e s i (case secret of None \<Rightarrow> None | Some h \<Rightarrow> secret_bytes h) pos sz ws)
         | SkVeilid secret peer \<Rightarrow> set_peer i peer (create_veilid_uplink e s i secret pos sz ws)
         | SkNote t \<Rightarrow> on_graph (place_note_node i t ws pos sz) s
         | SkCapture \<Rightarrow> on_graph (\<lambda>g. place g i KdCapture ws pos sz) s
         | SkClipboard \<Rightarrow> on_graph (\<lambda>g. place g i KdClipboard ws pos sz) s
         | SkApi \<Rightarrow> on_graph (\<lambda>g. place g i KdApi ws pos sz) s
         | SkMidiIn device \<Rightarrow> on_graph (place_midi_in e i device ws pos sz) s
         | SkMidiOut device \<Rightarrow> on_graph (place_midi_out e i device ws pos sz) s
         | SkMulticast iface groups \<Rightarrow> create_multicast e s i \<lparr>mc_iface = iface, mc_groups = groups\<rparr> pos sz ws
         | SkHostService name target \<Rightarrow> on_graph (place_service i \<lparr>hs_name = name, hs_target = target\<rparr> ws pos sz) s
         | SkInPort name kind \<Rightarrow> on_graph (place_boundary i \<lparr>bp_name = name, bp_dir = In, bp_kind = kind\<rparr> ws pos sz) s
         | SkOutPort name kind \<Rightarrow> on_graph (place_boundary i \<lparr>bp_name = name, bp_dir = Out, bp_kind = kind\<rparr> ws pos sz) s
         | SkGroup d name in_wires out_wires \<Rightarrow>
             on_graph (place_group i \<lparr>gn_definition = d, gn_name = name, gn_in = in_wires, gn_out = out_wires\<rparr> ws pos sz) s)"

text \<open>What follows the match: the pose in space.\<close>

definition set_pose :: "node_snap \<Rightarrow> graph \<Rightarrow> graph" where
  "set_pose n g =
     (let g1 = (case sn_pos3d n of None \<Rightarrow> g | Some p \<Rightarrow> g\<lparr>g_pos3d := bt_insert (sn_id n) p (g_pos3d g)\<rparr>)
      in if sn_panel3d n then g1 else g1\<lparr>g_hidden := bt_insert (sn_id n) () (g_hidden g1)\<rparr>)"

definition materialize :: "runtime \<Rightarrow> server \<Rightarrow> node_id \<Rightarrow> node_snap \<Rightarrow> bytes \<Rightarrow> server option" where
  "materialize e s ws n data =
     (case sn_kind n of
        SkApp dep name options args token \<Rightarrow>
          (case List.find (\<lambda>d. dp_name d = dep) (g_available (sv_graph s)) of
             None \<Rightarrow> Some s
           | Some d \<Rightarrow> map_option (on_graph (set_pose n)) (materialize_app e s ws n d name options args token))
      | _ \<Rightarrow> Some (on_graph (set_pose n) (materialize_plain e s ws n data)))"

fun materialize_all :: "runtime \<Rightarrow> node_id \<Rightarrow> node_snap list \<Rightarrow> server \<Rightarrow> server option" where
  "materialize_all e ws [] s = Some s"
| "materialize_all e ws (n # ns) s =
     (case materialize e s ws n [] of None \<Rightarrow> None | Some s1 \<Rightarrow> materialize_all e ws ns s1)"

subsection \<open>The wires of a workspace\<close>

definition wires_of :: "workspace \<Rightarrow> rel_wire list" where
  "wires_of w =
     map (Pair RConnection) (ws_connections w) @ map (Pair RMidi) (ws_midi w) @ map (Pair RServe) (ws_serves w) @
     map (Pair RNetLink) (ws_net_links w) @ map (Pair RCaptureLink) (ws_capture_links w) @
     map (Pair RClipboardLink) (ws_clipboard_links w) @ map (Pair RApiLink) (ws_api_links w)"

fun apply_links :: "runtime \<Rightarrow> rel_wire list \<Rightarrow> server \<Rightarrow> rel_wire list \<Rightarrow> server \<times> rel_wire list" where
  "apply_links e [] s made = (s, made)"
| "apply_links e ((rel, a, b) # rest) s made =
     (if node_exists (sv_graph s) a \<and> node_exists (sv_graph s) b \<and> \<not> wired (sv_graph s) a b
      then apply_links e rest (srv_toggle e rel a b s) (made @ [(rel, a, b)])
      else apply_links e rest s made)"

definition insert_all :: "('k::linorder \<times> 'v) list \<Rightarrow> ('k \<times> 'v) list \<Rightarrow> ('k \<times> 'v) list" where
  "insert_all new m = fold (\<lambda>(k, v). bt_insert k v) new m"

definition apply_settings :: "workspace \<Rightarrow> graph \<Rightarrow> graph" where
  "apply_settings w g =
     (let g1 = sync_mounts (g\<lparr>g_mount_paths := insert_all (ws_mount_paths w) (g_mount_paths g)\<rparr>);
          g2 = g1\<lparr>g_serve_ports := insert_all (ws_serve_ports w) (g_serve_ports g1),
                  g_midi_channels := insert_all (ws_midi_channels w) (g_midi_channels g1)\<rparr>
      in sync_serves g2)"

definition apply_wires :: "runtime \<Rightarrow> workspace \<Rightarrow> server \<Rightarrow> server \<times> rel_wire list" where
  "apply_wires e w s = (case apply_links e (wires_of w) s [] of (s1, made) \<Rightarrow> (on_graph (apply_settings w) s1, made))"

end
