(* ===== verification/Srv_Inst.thy ===== *)
theory Srv_Inst
  imports Srv_Doc
begin

text \<open>
  The instances of groups in the running server (\<open>resolve_group\<close>, \<open>expand_group\<close>,
  \<open>rewire_group\<close>, \<open>set_boundary_wire\<close>, \<open>tear_down_instance\<close>, \<open>remove_any\<close> of
  \<open>crates/wk-server/src/server.rs\<close>), loading a document and saving it.
\<close>

subsection \<open>Expanding a group\<close>

definition canvas_nodes :: "runtime \<Rightarrow> server \<Rightarrow> node_id \<Rightarrow> node_id \<Rightarrow> node_snap list" where
  "canvas_nodes e s ws i =
     sort_key sn_id
       (List.map_filter (snap_node e s)
          (map fst (filter (\<lambda>(n, r). nr_ws r = ws \<and> (n = i \<or> nr_kind r \<noteq> KdGroup)) (g_nodes (sv_graph s)))) @
        map snd (filter (\<lambda>(w, _). w = ws) (sv_unplaced s)))"

definition resolve_group :: "runtime \<Rightarrow> server \<Rightarrow> node_id \<Rightarrow> node_id \<Rightarrow> (expand_error + inst list) option" where
  "resolve_group e s ws i =
     expand (rt_sha e) (map snd (sv_authored s) @ [(workspace_new ws)\<lparr>ws_nodes := canvas_nodes e s ws i\<rparr>])"

definition inst_record :: "inst \<Rightarrow> inst_rec" where
  "inst_record x =
     \<lparr>ir_tab = in_tab x, ir_parent = in_parent x, ir_definition = in_definition x, ir_name = in_name x,
      ir_nodes = map sn_id (ws_nodes (in_content x)), ir_wires = []\<rparr>"

definition set_inst_wires :: "node_id \<Rightarrow> rel_wire list \<Rightarrow> server \<Rightarrow> server" where
  "set_inst_wires i made s =
     (case map_of (sv_instances s) i of
        None \<Rightarrow> s
      | Some r \<Rightarrow> s\<lparr>sv_instances := bt_insert i (r\<lparr>ir_wires := made\<rparr>) (sv_instances s)\<rparr>)"

definition instantiate_content :: "runtime \<Rightarrow> workspace \<Rightarrow> server \<Rightarrow> (server \<times> rel_wire list) option" where
  "instantiate_content e w s = map_option (apply_wires e w) (materialize_all e (ws_id w) (ws_nodes w) s)"

fun open_instances :: "runtime \<Rightarrow> inst list \<Rightarrow> server \<Rightarrow> server option" where
  "open_instances e [] s = Some s"
| "open_instances e (x # xs) s =
     (case instantiate_content e (in_content x) (s\<lparr>sv_instances := bt_insert (in_id x) (inst_record x) (sv_instances s)\<rparr>) of
        None \<Rightarrow> None
      | Some (s1, made) \<Rightarrow> open_instances e xs (set_inst_wires (in_id x) made s1))"

definition srv_expand_group :: "runtime \<Rightarrow> server \<Rightarrow> node_id \<Rightarrow> node_id \<Rightarrow> server option" where
  "srv_expand_group e s ws i =
     (if map_of (sv_instances s) i \<noteq> None then Some s
      else case resolve_group e s ws i of
             None \<Rightarrow> None
           | Some (Inl er) \<Rightarrow> Some s
           | Some (Inr xs) \<Rightarrow> open_instances e xs s)"

subsection \<open>The lines of a group\<close>

definition lines_of :: "port_dir \<Rightarrow> group_node \<Rightarrow> (string \<times> node_id) list" where
  "lines_of dir gn = (case dir of In \<Rightarrow> gn_in gn | Out \<Rightarrow> gn_out gn)"

definition boundary_wired :: "server \<Rightarrow> boundary_wire_ref \<Rightarrow> bool" where
  "boundary_wired s bw =
     (case map_of (g_groups (sv_graph s)) (bw_group bw) of
        None \<Rightarrow> False
      | Some gn \<Rightarrow> (bw_port bw, bw_node bw) \<in> set (lines_of (bw_dir bw) gn))"

fun unwire_all :: "runtime \<Rightarrow> rel_wire list \<Rightarrow> server \<Rightarrow> server" where
  "unwire_all e [] s = s"
| "unwire_all e (w # ws) s = unwire_all e ws (unwire_rel e w s)"

fun move_wires :: "runtime \<Rightarrow> inst list \<Rightarrow> server \<Rightarrow> server" where
  "move_wires e [] s = s"
| "move_wires e (x # xs) s =
     (case map_of (sv_instances s) (in_id x) of
        None \<Rightarrow> move_wires e xs s
      | Some r \<Rightarrow>
          (let want = wires_of (in_content x);
               s1 = unwire_all e (filter (\<lambda>w. w \<notin> set want) (ir_wires r)) (set_inst_wires (in_id x) [] s);
               (s2, made) = apply_wires e (in_content x) s1
           in move_wires e xs (set_inst_wires (in_id x) (filter (\<lambda>w. w \<in> set want) (ir_wires r) @ made) s2)))"

definition rewire_group :: "runtime \<Rightarrow> server \<Rightarrow> node_id \<Rightarrow> node_id \<Rightarrow> (expand_error + server) option" where
  "rewire_group e s ws i =
     (case resolve_group e s ws i of
        None \<Rightarrow> None
      | Some (Inl er) \<Rightarrow> Some (Inl er)
      | Some (Inr xs) \<Rightarrow> Some (Inr (move_wires e xs s)))"

definition edit_lines :: "boundary_wire_ref \<Rightarrow> bool \<Rightarrow> group_node \<Rightarrow> group_node option" where
  "edit_lines bw on gn =
     (let line = (bw_port bw, bw_node bw);
          old = lines_of (bw_dir bw) gn;
          put = (\<lambda>ls. case bw_dir bw of In \<Rightarrow> gn\<lparr>gn_in := ls\<rparr> | Out \<Rightarrow> gn\<lparr>gn_out := ls\<rparr>)
      in if on \<and> line \<notin> set old then Some (put (old @ [line]))
         else if \<not> on \<and> line \<in> set old then Some (put (remove1 line old))
         else None)"

definition set_group :: "node_id \<Rightarrow> group_node \<Rightarrow> server \<Rightarrow> server" where
  "set_group i gn s = on_graph (\<lambda>g. g\<lparr>g_groups := bt_insert i gn (g_groups g)\<rparr>) s"

definition set_boundary_wire :: "runtime \<Rightarrow> server \<Rightarrow> boundary_wire_ref \<Rightarrow> bool \<Rightarrow> server option" where
  "set_boundary_wire e s bw on =
     (case map_of (g_nodes (sv_graph s)) (bw_group bw) of
        None \<Rightarrow> Some s
      | Some r \<Rightarrow>
          (case map_of (g_groups (sv_graph s)) (bw_group bw) of
             None \<Rightarrow> Some s
           | Some before \<Rightarrow>
               (case edit_lines bw on before of
                  None \<Rightarrow> Some s
                | Some after \<Rightarrow>
                    (case rewire_group e (set_group (bw_group bw) after s) (nr_ws r) (bw_group bw) of
                       None \<Rightarrow> None
                     | Some (Inl er) \<Rightarrow> Some (set_group (bw_group bw) before (set_group (bw_group bw) after s))
                     | Some (Inr s1) \<Rightarrow> Some s1))))"

subsection \<open>Removing any node\<close>

datatype removal = RmAny node_id | RmTear node_id | RmTake node_id | RmForget node_id

definition nested_in :: "server \<Rightarrow> node_id \<Rightarrow> node_id list" where
  "nested_in s i = map fst (filter (\<lambda>(_, r). ir_parent r = Some i) (sv_instances s))"

definition forget_group :: "node_id \<Rightarrow> graph \<Rightarrow> graph" where
  "forget_group i g = forget (g\<lparr>g_groups := bt_remove i (g_groups g)\<rparr>) i"

definition take_instance :: "runtime \<Rightarrow> node_id \<Rightarrow> inst_rec \<Rightarrow> server \<Rightarrow> server" where
  "take_instance e i r s = unwire_all e (ir_wires r) (s\<lparr>sv_instances := bt_remove i (sv_instances s)\<rparr>)"

partial_function (option) remove_run :: "runtime \<Rightarrow> removal list \<Rightarrow> server \<Rightarrow> server option" where
  "remove_run e js s =
     (case js of
        [] \<Rightarrow> Some s
      | j # rest \<Rightarrow>
          (case j of
             RmAny i \<Rightarrow>
               if kind_of (sv_graph s) i = Some KdGroup then remove_run e (RmTear i # RmForget i # rest) s
               else remove_run e rest (remove_plain e s i)
           | RmTear i \<Rightarrow> remove_run e (map RmTear (nested_in s i) @ RmTake i # rest) s
           | RmTake i \<Rightarrow>
               (case map_of (sv_instances s) i of
                  None \<Rightarrow> remove_run e rest s
                | Some r \<Rightarrow> remove_run e (map RmAny (ir_nodes r) @ rest) (take_instance e i r s))
           | RmForget i \<Rightarrow> remove_run e rest (on_graph (forget_group i) s)))"

declare remove_run.simps [code]

definition remove_any :: "runtime \<Rightarrow> server \<Rightarrow> node_id \<Rightarrow> server option" where
  "remove_any e s i = remove_run e [RmAny i] s"

definition tear_down_instance :: "runtime \<Rightarrow> server \<Rightarrow> node_id \<Rightarrow> server option" where
  "tear_down_instance e s i = remove_run e [RmTear i] s"

definition remove_group :: "runtime \<Rightarrow> server \<Rightarrow> node_id \<Rightarrow> server option" where
  "remove_group e s i = remove_run e [RmTear i, RmForget i] s"

fun remove_each :: "runtime \<Rightarrow> node_id list \<Rightarrow> server \<Rightarrow> server option" where
  "remove_each e [] s = Some s"
| "remove_each e (i # is) s = (case remove_any e s i of None \<Rightarrow> None | Some s1 \<Rightarrow> remove_each e is s1)"

definition tab_nodes :: "runtime \<Rightarrow> graph \<Rightarrow> node_id \<Rightarrow> node_id list" where
  "tab_nodes e g ws = filter (\<lambda>i. map_option nr_ws (map_of (g_nodes g) i) = Some ws) (rt_order e (map fst (g_nodes g)))"

definition drop_tab :: "node_id \<Rightarrow> graph \<Rightarrow> graph" where
  "drop_tab ws g = g\<lparr>g_workspaces := filter (\<lambda>w. w \<noteq> ws) (g_workspaces g), g_ws_names := bt_remove ws (g_ws_names g)\<rparr>"

definition remove_workspace :: "runtime \<Rightarrow> server \<Rightarrow> node_id \<Rightarrow> server option" where
  "remove_workspace e s ws =
     (if length (g_workspaces (sv_graph s)) \<le> 1 \<or> ws \<notin> set (g_workspaces (sv_graph s)) then Some s
      else map_option (on_graph (drop_tab ws)) (remove_each e (tab_nodes e (sv_graph s) ws) s))"

end
