(* ===== verification/Srv_Apply.thy ===== *)
theory Srv_Apply
  imports Srv_Inst
begin

text \<open>
  The commands of the server (\<open>crates/wk-server/src/server.rs\<close>): loading and saving a document,
  duplication, snapshots and what brings them back, the undo history, \<open>dispatch\<close>, \<open>apply\<close> and
  the reconciling step \<open>tick\<close>.
\<close>

subsection \<open>Loading\<close>

text \<open>The loop of \<open>instantiate\<close> over the nodes of a tab, with what could not be placed.\<close>

fun place_all :: "runtime \<Rightarrow> node_id \<Rightarrow> node_snap list \<Rightarrow> server \<Rightarrow> server option" where
  "place_all e ws [] s = Some s"
| "place_all e ws (n # ns) s =
     (case materialize e s ws n [] of
        None \<Rightarrow> None
      | Some s1 \<Rightarrow>
          place_all e ws ns
            (if node_exists (sv_graph s1) (sn_id n) then s1 else s1\<lparr>sv_unplaced := sv_unplaced s1 @ [(ws, n)]\<rparr>))"

fun expand_all :: "runtime \<Rightarrow> node_id \<Rightarrow> node_snap list \<Rightarrow> server \<Rightarrow> server option" where
  "expand_all e ws [] s = Some s"
| "expand_all e ws (n # ns) s =
     (if is_group (sn_kind n)
      then case srv_expand_group e s ws (sn_id n) of None \<Rightarrow> None | Some s1 \<Rightarrow> expand_all e ws ns s1
      else expand_all e ws ns s)"

definition orphan_wires :: "server \<Rightarrow> workspace \<Rightarrow> (node_id \<times> rel_wire) list" where
  "orphan_wires s w =
     (let orphan = map (\<lambda>(_, n). sn_id n) (filter (\<lambda>(ws, _). ws = ws_id w) (sv_unplaced s))
      in map (Pair (ws_id w)) (filter (\<lambda>(_, a, b). a \<in> set orphan \<or> b \<in> set orphan) (wires_of w)))"

definition instantiate :: "runtime \<Rightarrow> workspace \<Rightarrow> server \<Rightarrow> server option" where
  "instantiate e w s =
     (case place_all e (ws_id w) (ws_nodes w) s of
        None \<Rightarrow> None
      | Some s1 \<Rightarrow>
          expand_all e (ws_id w) (ws_nodes w)
            (fst (apply_wires e w (s1\<lparr>sv_unplaced_wires := sv_unplaced_wires s1 @ orphan_wires s1 w\<rparr>))))"

fun instantiate_all :: "runtime \<Rightarrow> workspace list \<Rightarrow> server \<Rightarrow> server option" where
  "instantiate_all e [] s = Some s"
| "instantiate_all e (w # ws) s = (case instantiate e w s of None \<Rightarrow> None | Some s1 \<Rightarrow> instantiate_all e ws s1)"

definition graph_default :: graph where
  "graph_default =
     \<lparr>g_nodes = [], g_args = [], g_deps = [], g_names = [], g_pos3d = [], g_hidden = [], g_files = [], g_ports = [],
      g_notes = [], g_midi_ins = [], g_midi_outs = [], g_multicasts = [], g_services = [], g_boundaries = [],
      g_groups = [], g_connections = [], g_mount_paths = [], g_midi_links = [], g_serve_links = [], g_serve_ports = [],
      g_midi_channels = [], g_net_links = [], g_link_nets = [], g_captures = [], g_clipboards = [], g_apis = [],
      g_tokens = [], g_iroh = [], g_veilid = [], g_workspaces = [], g_ws_names = [], g_available = []\<rparr>"

definition server_empty :: "dependency list \<Rightarrow> document \<Rightarrow> node_id option \<Rightarrow> server" where
  "server_empty deps doc scratch =
     \<lparr>sv_graph =
        graph_default\<lparr>
          g_available := deps,
          g_workspaces := map ws_id (filter ws_tab doc),
          g_ws_names :=
            insert_all (List.map_filter (\<lambda>w. map_option (Pair (ws_id w)) (ws_name w)) (filter ws_tab doc)) []\<rparr>,
      sv_reg = [], sv_pending_run = [], sv_unplaced = [], sv_unplaced_wires = [],
      sv_authored = filter (\<lambda>(_, w). \<not> ws_tab w) (enumerate 0 doc),
      sv_instances = [], sv_pending_wires = [], sv_undo = [], sv_next_port = 8080, sv_file_seq = 0, sv_host_seq = 0,
      sv_view = (0, Flat), sv_scratch = scratch, sv_ids = 0\<rparr>"

definition server_new :: "runtime \<Rightarrow> dependency list \<Rightarrow> document \<Rightarrow> node_id option \<Rightarrow> (expand_error + server) option" where
  "server_new e deps doc scratch =
     (case expand (rt_sha e) doc of
        None \<Rightarrow> None
      | Some (Inl er) \<Rightarrow> Some (Inl er)
      | Some (Inr _) \<Rightarrow> map_option Inr (instantiate_all e (filter ws_tab doc) (server_empty deps doc scratch)))"

subsection \<open>Saving\<close>

text \<open>\<open>kind as u8\<close>.\<close>

fun kind_index :: "gkind \<Rightarrow> nat" where
  "kind_index KdApp = 0"
| "kind_index KdFile = 1"
| "kind_index KdPort = 2"
| "kind_index KdNetwork = 3"
| "kind_index KdGateway = 4"
| "kind_index KdRouter = 5"
| "kind_index KdIroh = 6"
| "kind_index KdVeilid = 7"
| "kind_index KdNote = 8"
| "kind_index KdCapture = 9"
| "kind_index KdClipboard = 10"
| "kind_index KdApi = 11"
| "kind_index KdMidiIn = 12"
| "kind_index KdHostService = 13"
| "kind_index KdBoundary = 14"
| "kind_index KdGroup = 15"
| "kind_index KdMidiOut = 16"
| "kind_index KdMulticast = 17"

definition saved_nodes :: "runtime \<Rightarrow> server \<Rightarrow> node_id \<Rightarrow> node_snap list" where
  "saved_nodes e s ws =
     List.map_filter (snap_node e s)
       (map fst (sort_key (\<lambda>(i, r). (kind_index (nr_kind r), i)) (filter (\<lambda>(_, r). nr_ws r = ws) (g_nodes (sv_graph s))))) @
     map snd (filter (\<lambda>(w, _). w = ws) (sv_unplaced s))"

definition derived_wires :: "server \<Rightarrow> rel_wire list" where
  "derived_wires s = concat (map (\<lambda>(_, r). ir_wires r) (sv_instances s))"

definition saved_wires :: "server \<Rightarrow> node_id \<Rightarrow> wire_rel \<Rightarrow> link list" where
  "saved_wires s ws rel =
     filter (\<lambda>(a, b).
         map_option nr_ws (map_of (g_nodes (sv_graph s)) a) = Some ws \<and> \<not> is_derived s b \<and> (rel, a, b) \<notin> set (derived_wires s))
       (rel_links rel (sv_graph s)) @
     map (\<lambda>(_, _, l). l) (filter (\<lambda>(w, r, _). w = ws \<and> r = rel) (sv_unplaced_wires s))"

definition settings_of :: "'v wire_table \<Rightarrow> link list \<Rightarrow> 'v wire_table" where
  "settings_of m links = insert_all (List.map_filter (\<lambda>l. map_option (Pair l) (map_of m l)) links) []"

definition save_workspace :: "runtime \<Rightarrow> server \<Rightarrow> node_id \<Rightarrow> workspace" where
  "save_workspace e s ws =
     (let g = sv_graph s;
          connections = saved_wires s ws RConnection;
          midi = saved_wires s ws RMidi;
          serves = saved_wires s ws RServe
      in \<lparr>ws_id = ws, ws_name = map_of (g_ws_names g) ws, ws_tab = True, ws_nodes = saved_nodes e s ws,
          ws_connections = connections, ws_mount_paths = settings_of (g_mount_paths g) connections,
          ws_midi = midi, ws_midi_channels = settings_of (g_midi_channels g) midi,
          ws_serves = serves, ws_serve_ports = settings_of (g_serve_ports g) serves,
          ws_net_links = filter (\<lambda>(_, n). \<not> is_private_link_net s n) (saved_wires s ws RNetLink),
          ws_capture_links = saved_wires s ws RCaptureLink, ws_clipboard_links = saved_wires s ws RClipboardLink,
          ws_api_links = saved_wires s ws RApiLink\<rparr>)"

definition insert_at :: "nat \<Rightarrow> 'a \<Rightarrow> 'a list \<Rightarrow> 'a list" where
  "insert_at k x xs = (let k' = min k (length xs) in take k' xs @ x # drop k' xs)"

definition save :: "runtime \<Rightarrow> server \<Rightarrow> document" where
  "save e s =
     fold (\<lambda>(k, w). insert_at k w) (sv_authored s)
       (filter (\<lambda>w. Some (ws_id w) \<noteq> sv_scratch s \<or> ws_nodes w \<noteq> [])
          (map (save_workspace e s) (g_workspaces (sv_graph s))))"

subsection \<open>Running\<close>

definition run_node :: "runtime \<Rightarrow> server \<Rightarrow> node_id \<Rightarrow> server" where
  "run_node e s i =
     (case app_node s i of
        None \<Rightarrow> s
      | Some node \<Rightarrow>
          if rt_loading e i then s\<lparr>sv_pending_run := bt_insert i () (sv_pending_run s)\<rparr>
          else s\<lparr>sv_pending_run := bt_remove i (sv_pending_run s)\<rparr>)"

fun drain_runs :: "runtime \<Rightarrow> (node_id \<Rightarrow> bool) \<Rightarrow> node_id list \<Rightarrow> server \<Rightarrow> server" where
  "drain_runs e finished [] s = s"
| "drain_runs e finished (i # is) s =
     drain_runs e finished is
       (case app_node s i of
          None \<Rightarrow> s\<lparr>sv_pending_run := bt_remove i (sv_pending_run s)\<rparr>
        | Some node \<Rightarrow>
            if rt_loading e i then (if finished i then s\<lparr>sv_pending_run := bt_remove i (sv_pending_run s)\<rparr> else s)
            else run_node e s i)"

definition drain_pending_run :: "runtime \<Rightarrow> (node_id \<Rightarrow> bool) \<Rightarrow> server \<Rightarrow> server" where
  "drain_pending_run e finished s = drain_runs e finished (rt_order e (map fst (sv_pending_run s))) s"

text \<open>\<open>tick\<close>: what its passes change of the state.\<close>

definition tick :: "runtime \<Rightarrow> (node_id \<Rightarrow> bool) \<Rightarrow> server \<Rightarrow> server" where
  "tick e finished s =
     (let s1 = sync_pending_app_wires e (drain_pending_run e finished s);
          s2 = on_graph (\<lambda>g. sync_channels (sync_mounts g)) s1;
          (g, k) = sync_app_link_nets e (map ap_id (sv_reg s2)) (sv_ids s2) (sv_graph s2)
      in on_graph sync_serves (s2\<lparr>sv_graph := g, sv_ids := k\<rparr>))"

end
