(* ===== verification/Srv_Command.thy ===== *)
theory Srv_Command
  imports Srv_Apply
begin

text \<open>
  The commands of a client (\<open>duplicate\<close>, \<open>snapshot\<close>, \<open>recreate\<close>, \<open>record\<close>, \<open>apply_undo\<close>,
  \<open>refuse_structural_edit\<close>, \<open>dispatch\<close> and \<open>apply\<close> of \<open>crates/wk-server/src/server.rs\<close>).
\<close>

subsection \<open>Duplicating\<close>

definition duplicate_app :: "runtime \<Rightarrow> server \<Rightarrow> node_id \<Rightarrow> app_rec \<Rightarrow> node_rec \<Rightarrow> point \<Rightarrow> server option" where
  "duplicate_app e s i node r off =
     (case (case map_of (g_deps (sv_graph s)) i of
              None \<Rightarrow> None
            | Some want \<Rightarrow> List.find (\<lambda>d. dp_name d = want) (g_available (sv_graph s))) of
        None \<Rightarrow> Some s
      | Some dep \<Rightarrow>
          (let args = get_or (rt_effective e dep) (map_of (g_args (sv_graph s)) i);
               (j, s1) = alloc_id e s
           in map_option
                (\<lambda>name.
                   on_graph (place_app j (dp_name dep) name args (nr_ws r) off (nr_size r)) (spawn j name (ap_options node) s1))
                (generated_node_name e s1 j)))"

definition duplicate :: "runtime \<Rightarrow> server \<Rightarrow> node_id \<Rightarrow> server option" where
  "duplicate e s i =
     (case map_of (g_nodes (sv_graph s)) i of
        None \<Rightarrow> Some s
      | Some r \<Rightarrow>
          (let off = (rt_plus40 e (fst (nr_pos r)), rt_plus40 e (snd (nr_pos r))); ws = nr_ws r
           in case app_node s i of
                Some node \<Rightarrow> duplicate_app e s i node r off
              | None \<Rightarrow>
                  (case map_of (g_files (sv_graph s)) i of
                     Some (FnVolume _ _ _) \<Rightarrow> Some (add_virtual_file e s off ws)
                   | Some (FnBind _ _) \<Rightarrow> Some (add_host_mapped_file e s off ws)
                   | None \<Rightarrow>
                       (case nr_kind r of
                          KdPort \<Rightarrow> Some (add_host_port e s off ws)
                        | KdGateway \<Rightarrow> Some (add_gateway_node e s off ws)
                        | KdNetwork \<Rightarrow> Some (add_net_node e s off ws)
                        | KdIroh \<Rightarrow> Some (add_iroh_node e s off ws)
                        | KdVeilid \<Rightarrow> Some (add_veilid_node e s off ws)
                        | KdGroup \<Rightarrow>
                            (case map_of (g_groups (sv_graph s)) i of
                               None \<Rightarrow> Some s
                             | Some gn \<Rightarrow>
                                 (let (j, s1) = alloc_id e s
                                  in srv_expand_group e (on_graph (place_group j gn ws off (nr_size r)) s1) ws j))
                        | _ \<Rightarrow> Some s))))"

subsection \<open>Snapshots\<close>

definition touching :: "node_id \<Rightarrow> link list \<Rightarrow> link list" where
  "touching i links = filter (\<lambda>(a, b). a = i \<or> b = i) links"

definition lines_to_node :: "runtime \<Rightarrow> graph \<Rightarrow> node_id \<Rightarrow> boundary_wire_ref list" where
  "lines_to_node e g i =
     concat
       (map (\<lambda>j.
          case map_of (g_groups g) j of
            None \<Rightarrow> []
          | Some gn \<Rightarrow>
              map (\<lambda>(dir, port, n). \<lparr>bw_group = j, bw_dir = dir, bw_port = port, bw_node = n\<rparr>)
                (filter (\<lambda>(_, _, n). n = i) (boundary_lines (gn_in gn) (gn_out gn))))
          (rt_order e (map fst (g_groups g))))"

definition take_snapshot :: "runtime \<Rightarrow> server \<Rightarrow> node_id \<Rightarrow> snapshot option" where
  "take_snapshot e s i =
     (let g = sv_graph s
      in case (map_of (g_nodes g) i, snap_node e s i) of
           (Some r, Some n) \<Rightarrow>
             Some \<lparr>ss_ws = nr_ws r, ss_node = n,
               ss_data = (case map_of (g_files g) i of Some (FnVolume _ data _) \<Rightarrow> data | _ \<Rightarrow> []),
               ss_wires =
                 touching i (g_connections g) @ touching i (g_midi_links g) @ touching i (g_serve_links g) @
                 touching i (g_net_links g) @ touching i (g_captures g) @ touching i (g_clipboards g) @ touching i (g_apis g),
               ss_boundary = lines_to_node e g i\<rparr>
         | _ \<Rightarrow> None)"

fun set_lines :: "runtime \<Rightarrow> boundary_wire_ref list \<Rightarrow> server \<Rightarrow> server option" where
  "set_lines e [] s = Some s"
| "set_lines e (bw # bws) s = (case set_boundary_wire e s bw True of None \<Rightarrow> None | Some s1 \<Rightarrow> set_lines e bws s1)"

definition recreate :: "runtime \<Rightarrow> snapshot \<Rightarrow> server \<Rightarrow> server option" where
  "recreate e x s =
     do {
       s1 \<leftarrow> materialize e s (ss_ws x) (ss_node x) (ss_data x);
       s2 \<leftarrow> set_lines e (ss_boundary x) (rewire e (ss_wires x) s1);
       if is_group (sn_kind (ss_node x)) then srv_expand_group e s2 (ss_ws x) (sn_id (ss_node x)) else Some s2
     }"

definition snapshot_workspace :: "runtime \<Rightarrow> server \<Rightarrow> node_id \<Rightarrow> ws_snapshot option" where
  "snapshot_workspace e s ws =
     (let g = sv_graph s
      in if ws \<notin> set (g_workspaces g) then None
         else
           Some \<lparr>wn_id = ws, wn_index = length (takeWhile (\<lambda>w. w \<noteq> ws) (g_workspaces g)),
             wn_name = map_of (g_ws_names g) ws, wn_nodes = List.map_filter (take_snapshot e s) (tab_nodes e g ws)\<rparr>)"

fun materialize_snaps :: "runtime \<Rightarrow> snapshot list \<Rightarrow> server \<Rightarrow> server option" where
  "materialize_snaps e [] s = Some s"
| "materialize_snaps e (x # xs) s =
     (case materialize e s (ss_ws x) (ss_node x) (ss_data x) of None \<Rightarrow> None | Some s1 \<Rightarrow> materialize_snaps e xs s1)"

fun expand_snaps :: "runtime \<Rightarrow> snapshot list \<Rightarrow> server \<Rightarrow> server option" where
  "expand_snaps e [] s = Some s"
| "expand_snaps e (x # xs) s =
     (if is_group (sn_kind (ss_node x))
      then case srv_expand_group e s (ss_ws x) (sn_id (ss_node x)) of None \<Rightarrow> None | Some s1 \<Rightarrow> expand_snaps e xs s1
      else expand_snaps e xs s)"

definition restore_tab :: "ws_snapshot \<Rightarrow> graph \<Rightarrow> graph" where
  "restore_tab x g =
     (let g1 = (if wn_id x \<in> set (g_workspaces g) then g
                else g\<lparr>g_workspaces := insert_at (wn_index x) (wn_id x) (g_workspaces g)\<rparr>)
      in case wn_name x of None \<Rightarrow> g1 | Some name \<Rightarrow> g1\<lparr>g_ws_names := bt_insert (wn_id x) name (g_ws_names g1)\<rparr>)"

definition recreate_workspace :: "runtime \<Rightarrow> ws_snapshot \<Rightarrow> server \<Rightarrow> server option" where
  "recreate_workspace e x s =
     do {
       s1 \<leftarrow> materialize_snaps e (wn_nodes x) (on_graph (restore_tab x) s);
       expand_snaps e (wn_nodes x) (fold (\<lambda>n. rewire e (ss_wires n)) (wn_nodes x) s1)
     }"

subsection \<open>The undo history\<close>

fun coalesces :: "undo \<Rightarrow> undo \<Rightarrow> bool" where
  "coalesces (UPos a p) (UPos b q) = (a = b)"
| "coalesces (USize a p) (USize b q) = (a = b)"
| "coalesces (UArgs a p) (UArgs b q) = (a = b)"
| "coalesces (UText a p) (UText b q) = (a = b)"
| "coalesces u v = False"

definition record_undo :: "undo \<Rightarrow> server \<Rightarrow> server" where
  "record_undo u s =
     (if sv_undo s \<noteq> [] \<and> coalesces (last (sv_undo s)) u then s
      else
        (let us = sv_undo s @ [u]
         in s\<lparr>sv_undo := (if length us > undo_cap then tl us else us)\<rparr>))"

definition rewire_unique :: "runtime \<Rightarrow> server \<Rightarrow> node_id \<Rightarrow> node_id \<Rightarrow> node_id option \<Rightarrow> server" where
  "rewire_unique e s src new_dst old_dst =
     (let g = sv_graph s;
          s1 = (if node_exists g src \<and> node_exists g new_dst \<and> wired g src new_dst then connect_toggle e s src new_dst else s);
          g1 = sv_graph s1
      in case old_dst of
           None \<Rightarrow> s1
         | Some old \<Rightarrow>
             if node_exists g1 src \<and> node_exists g1 old \<and> \<not> wired g1 src old then connect_toggle e s1 src old else s1)"

definition restore_token :: "node_id \<Rightarrow> bytes option \<Rightarrow> graph \<Rightarrow> graph" where
  "restore_token i old g =
     (if node_exists g i
      then g\<lparr>g_tokens := (case old of Some t \<Rightarrow> bt_insert i t (g_tokens g) | None \<Rightarrow> bt_remove i (g_tokens g))\<rparr>
      else g)"

fun uncreate :: "runtime \<Rightarrow> node_id list \<Rightarrow> server \<Rightarrow> server option" where
  "uncreate e [] s = Some s"
| "uncreate e (i # is) s =
     (if node_exists (sv_graph s) i then case remove_any e s i of None \<Rightarrow> None | Some s1 \<Rightarrow> uncreate e is s1
      else uncreate e is s)"

definition restore_port :: "server \<Rightarrow> node_id \<Rightarrow> u16 \<Rightarrow> server" where
  "restore_port s i port =
     (case map_of (g_ports (sv_graph s)) i of None \<Rightarrow> s | Some cur \<Rightarrow> change_port s i (ucast port - ucast cur))"

fun apply_undo :: "runtime \<Rightarrow> undo \<Rightarrow> server \<Rightarrow> server option" where
  "apply_undo e (UPos i p) s = Some (on_graph (\<lambda>g. set_node_pos g i p) s)"
| "apply_undo e (USize i p) s = Some (on_graph (\<lambda>g. set_node_size g i p) s)"
| "apply_undo e (UArgs i a) s = Some (on_graph (\<lambda>g. set_node_args g i (join_with '' '' a)) s)"
| "apply_undo e (UText i t) s = Some (on_graph (\<lambda>g. set_note_text g i t) s)"
| "apply_undo e (UPort i port) s = Some (restore_port s i port)"
| "apply_undo e (URewireUnique src new_dst old_dst) s = Some (rewire_unique e s src new_dst old_dst)"
| "apply_undo e (UWire a b) s =
     Some (if node_exists (sv_graph s) a \<and> node_exists (sv_graph s) b then connect_toggle e s a b else s)"
| "apply_undo e (UToken i old) s = Some (on_graph (restore_token i old) s)"
| "apply_undo e (UUncreate ids) s = uncreate e ids s"
| "apply_undo e (UBoundary bw on) s = set_boundary_wire e s bw on"
| "apply_undo e (URecreate x) s = recreate e x s"
| "apply_undo e (UDropWorkspace i) s = remove_workspace e s i"
| "apply_undo e (URecreateWorkspace x) s = recreate_workspace e x s"

definition undo_last :: "runtime \<Rightarrow> server \<Rightarrow> server option" where
  "undo_last e s =
     (case split_last (sv_undo s) of None \<Rightarrow> Some s | Some (u, us) \<Rightarrow> apply_undo e u (s\<lparr>sv_undo := us\<rparr>))"

subsection \<open>Commands\<close>

datatype refusal = InsideInstance node_id string | IsInstance node_id

definition inside :: "server \<Rightarrow> node_id \<Rightarrow> refusal option" where
  "inside s i =
     (if is_derived s i
      then Some (InsideInstance i
             (case map_of (g_nodes (sv_graph s)) i of None \<Rightarrow> [] | Some r \<Rightarrow> instance_label s (nr_ws r)))
      else None)"

definition or_else :: "'a option \<Rightarrow> 'a option \<Rightarrow> 'a option" where
  "or_else x y = (case x of None \<Rightarrow> y | Some _ \<Rightarrow> x)"

fun refuse_structural_edit :: "server \<Rightarrow> command \<Rightarrow> refusal option" where
  "refuse_structural_edit s (CmdDelete (RrNode i)) = inside s i"
| "refuse_structural_edit s (CmdDuplicate i) = inside s i"
| "refuse_structural_edit s (CmdCreate (ResWire a b)) = or_else (inside s a) (inside s b)"
| "refuse_structural_edit s (CmdCreate (ResBoundary bw)) = or_else (inside s (bw_group bw)) (inside s (bw_node bw))"
| "refuse_structural_edit s (CmdDelete (RrBoundary bw)) = or_else (inside s (bw_group bw)) (inside s (bw_node bw))"
| "refuse_structural_edit s (CmdDelete (RrWire w)) = (case srv_wire_ends w of (a, b) \<Rightarrow> or_else (inside s a) (inside s b))"
| "refuse_structural_edit s (CmdCreate (ResNode k pos ws)) =
     (if map_of (sv_instances s) ws \<noteq> None then Some (IsInstance ws) else None)"
| "refuse_structural_edit s (CmdCreate (ResHostMount path pos ws)) =
     (if map_of (sv_instances s) ws \<noteq> None then Some (IsInstance ws) else None)"
| "refuse_structural_edit s c = None"

definition create_node :: "runtime \<Rightarrow> server \<Rightarrow> node_kind \<Rightarrow> point \<Rightarrow> node_id \<Rightarrow> server option" where
  "create_node e s k pos ws =
     (case k of
        NkApp dep \<Rightarrow> (case list_get (g_available (sv_graph s)) dep of None \<Rightarrow> Some s | Some d \<Rightarrow> launch e s d pos ws)
      | NkVolume \<Rightarrow> Some (add_virtual_file e s pos ws)
      | NkBindMount \<Rightarrow> Some (add_host_mapped_file e s pos ws)
      | NkPort \<Rightarrow> Some (add_host_port e s pos ws)
      | NkNetwork \<Rightarrow> Some (add_net_node e s pos ws)
      | NkGateway \<Rightarrow> Some (add_gateway_node e s pos ws)
      | NkRouter \<Rightarrow> Some (add_router_node e s pos ws)
      | NkIroh \<Rightarrow> Some (add_iroh_node e s pos ws)
      | NkVeilid \<Rightarrow> Some (add_veilid_node e s pos ws)
      | NkNote \<Rightarrow> Some (add_note_node e s pos ws)
      | NkCapture \<Rightarrow> Some (add_capture_node e s pos ws)
      | NkClipboard \<Rightarrow> Some (add_clipboard_node e s pos ws)
      | NkApi \<Rightarrow> Some (add_api_node e s pos ws)
      | NkMidiIn \<Rightarrow> Some (add_midi_in_node e s pos ws)
      | NkMidiOut \<Rightarrow> Some (add_midi_out_node e s pos ws)
      | NkHostService \<Rightarrow> Some (add_host_service e s pos ws)
      | NkMulticast \<Rightarrow> Some (add_multicast_node e s pos ws))"

definition given :: "'a option \<Rightarrow> ('a \<Rightarrow> 's \<Rightarrow> 's) \<Rightarrow> 's \<Rightarrow> 's" where
  "given x f s = (case x of None \<Rightarrow> s | Some v \<Rightarrow> f v s)"

definition update_node :: "runtime \<Rightarrow> node_id \<Rightarrow> node_patch \<Rightarrow> server \<Rightarrow> server" where
  "update_node e i p s =
     (let s1 = given (np_pos p) (\<lambda>v. on_graph (\<lambda>g. set_node_pos g i v)) s;
          s2 = given (np_pos3d p) (\<lambda>v. on_graph (\<lambda>g. set_node_pos3d g i v)) s1;
          s3 = given (np_panel3d p) (\<lambda>v. on_graph (\<lambda>g. set_node_panel3d g i v)) s2;
          s4 = given (np_size p) (\<lambda>v. on_graph (\<lambda>g. set_node_size g i v)) s3;
          s5 = given (np_args p) (\<lambda>v. on_graph (\<lambda>g. set_node_args g i v)) s4;
          s6 = given (np_port_delta p) (\<lambda>v s. change_port s i v) s5;
          s7 = given (np_port_set p) (\<lambda>v s. set_host_port s i v) s6;
          s8 = given (np_text p) (\<lambda>v. on_graph (\<lambda>g. set_note_text g i v)) s7;
          s9 = given (np_host_path p) (\<lambda>v. on_graph (\<lambda>g. set_bind_path g i v)) s8;
          s10 = given (np_midi_device p) (\<lambda>v. on_graph (\<lambda>g. set_midi_device e g i v)) s9;
          s11 = given (np_service_name p) (\<lambda>v. on_graph (\<lambda>g. set_service_name g i v)) s10;
          s12 = given (np_service_target p) (\<lambda>v. on_graph (\<lambda>g. set_service_target g i v)) s11
      in given (np_persist p) (\<lambda>v. on_graph (\<lambda>g. set_persist g i v)) s12)"

fun dispatch :: "runtime \<Rightarrow> command \<Rightarrow> server \<Rightarrow> server option" where
  "dispatch e (CmdCreate (ResNode k pos ws)) s = create_node e s k pos ws"
| "dispatch e (CmdCreate (ResHostMount path pos ws)) s = Some (add_host_mount e s path pos ws)"
| "dispatch e (CmdCreate (ResWire a b)) s = Some (if wired (sv_graph s) a b then s else connect_toggle e s a b)"
| "dispatch e (CmdCreate (ResWorkspace i)) s = Some (on_graph (\<lambda>g. add_workspace g i) s)"
| "dispatch e (CmdCreate (ResBoundary bw)) s = set_boundary_wire e s bw True"
| "dispatch e (CmdUpdate i p) s = Some (update_node e i p s)"
| "dispatch e (CmdDelete (RrBoundary bw)) s = set_boundary_wire e s bw False"
| "dispatch e (CmdDelete (RrNode i)) s = remove_any e s i"
| "dispatch e (CmdDelete (RrWire w)) s = Some (disconnect_wire e s w)"
| "dispatch e (CmdDelete (RrWorkspace i)) s = remove_workspace e s i"
| "dispatch e (CmdSetMount vol ap path) s = Some (on_graph (\<lambda>g. set_mount g vol ap path) s)"
| "dispatch e (CmdSetMidiChannel a b ch) s = Some (on_graph (\<lambda>g. set_midi_channel g a b ch) s)"
| "dispatch e (CmdSetMulticast i iface groups) s =
     (let iface' = (case iface of None \<Rightarrow> None | Some t \<Rightarrow> if trim_spaces t = [] then None else Some (trim_spaces t))
      in Some (on_graph (\<lambda>g. set_multicast_config e g i \<lparr>mc_iface = iface', mc_groups = groups\<rparr>) s))"
| "dispatch e (CmdSetServePort h hp container) s = Some (on_graph (\<lambda>g. set_serve_port g h hp container) s)"
| "dispatch e (CmdSetToken i token) s = Some (on_graph (\<lambda>g. set_node_token e g i token) s)"
| "dispatch e (CmdRun i) s = Some (run_node e s i)"
| "dispatch e (CmdStop i) s = Some s"
| "dispatch e (CmdDuplicate i) s = duplicate e s i"
| "dispatch e (CmdSetView mode) s = Some (s\<lparr>sv_view := (fst (sv_view s) + 1, mode)\<rparr>)"
| "dispatch e CmdUndo s = undo_last e s"

text \<open>What \<open>apply\<close> records: before the command for an edit, after it for a creation or a boundary line.\<close>

definition record_created :: "runtime \<Rightarrow> server \<Rightarrow> server \<Rightarrow> server" where
  "record_created e s s1 =
     (let created = filter (\<lambda>i. \<not> node_exists (sv_graph s) i) (rt_order e (map fst (g_nodes (sv_graph s1))))
      in if created = [] then s1 else record_undo (UUncreate created) s1)"

definition old_dest :: "link list \<Rightarrow> node_id \<Rightarrow> node_id option" where
  "old_dest links src = map_option snd (List.find (\<lambda>(a, _). a = src) links)"

definition record_wire :: "server \<Rightarrow> node_id \<Rightarrow> node_id \<Rightarrow> server" where
  "record_wire s a b =
     (let g = sv_graph s
      in if wired g a b then s
         else case classify a b (srv_class_of g a) (srv_class_of g b) of
                Some (WNet ap net) \<Rightarrow> record_undo (URewireUnique ap net (old_dest (g_net_links g) ap)) s
              | Some (WServe h hp) \<Rightarrow> record_undo (URewireUnique h hp (old_dest (g_serve_links g) h)) s
              | _ \<Rightarrow> record_undo (UWire a b) s)"

definition record_update :: "server \<Rightarrow> node_id \<Rightarrow> node_patch \<Rightarrow> server" where
  "record_update s i p =
     (let g = sv_graph s;
          rec = map_of (g_nodes g) i;
          s1 = (if np_pos p = None then s else given rec (\<lambda>r. record_undo (UPos i (nr_pos r))) s);
          s2 = (if np_size p = None then s1 else given rec (\<lambda>r. record_undo (USize i (nr_size r))) s1);
          s3 = (if np_args p = None then s2 else record_undo (UArgs i (get_or [] (map_of (g_args g) i))) s2);
          s4 = (if np_port_delta p = None then s3 else given (map_of (g_ports g) i) (\<lambda>v. record_undo (UPort i v)) s3)
      in if np_text p = None then s4 else given (map_of (g_notes g) i) (\<lambda>t. record_undo (UText i t)) s4)"

fun record_before :: "runtime \<Rightarrow> command \<Rightarrow> server \<Rightarrow> server" where
  "record_before e (CmdCreate (ResWire a b)) s = record_wire s a b"
| "record_before e (CmdCreate (ResWorkspace i)) s =
     (if i \<in> set (g_workspaces (sv_graph s)) then s else record_undo (UDropWorkspace i) s)"
| "record_before e (CmdUpdate i p) s = record_update s i p"
| "record_before e (CmdDelete (RrNode i)) s = given (take_snapshot e s i) (\<lambda>x. record_undo (URecreate x)) s"
| "record_before e (CmdDelete (RrWire w)) s =
     (if wire_exists (sv_graph s) w then (case srv_wire_ends w of (a, b) \<Rightarrow> record_undo (UWire a b) s) else s)"
| "record_before e (CmdDelete (RrWorkspace i)) s =
     (if length (g_workspaces (sv_graph s)) > 1 \<and> i \<in> set (g_workspaces (sv_graph s))
      then given (snapshot_workspace e s i) (\<lambda>x. record_undo (URecreateWorkspace x)) s else s)"
| "record_before e (CmdSetToken i token) s =
     (if kind_of (sv_graph s) i = Some KdApp then record_undo (UToken i (map_of (g_tokens (sv_graph s)) i)) s else s)"
| "record_before e c s = s"

fun creates_nodes :: "command \<Rightarrow> bool" where
  "creates_nodes (CmdCreate (ResNode k pos ws)) = True"
| "creates_nodes (CmdCreate (ResHostMount path pos ws)) = True"
| "creates_nodes (CmdDuplicate i) = True"
| "creates_nodes c = False"

fun boundary_line :: "command \<Rightarrow> boundary_wire_ref option" where
  "boundary_line (CmdCreate (ResBoundary bw)) = Some bw"
| "boundary_line (CmdDelete (RrBoundary bw)) = Some bw"
| "boundary_line c = None"

definition apply_command :: "runtime \<Rightarrow> command \<Rightarrow> server \<Rightarrow> server option" where
  "apply_command e c s =
     (if refuse_structural_edit s c \<noteq> None then Some s
      else if creates_nodes c then map_option (record_created e s) (dispatch e c s)
      else case boundary_line c of
             Some bw \<Rightarrow>
               map_option (\<lambda>s1. if boundary_wired s1 bw \<noteq> boundary_wired s bw then record_undo (UBoundary bw (boundary_wired s bw)) s1 else s1)
                 (dispatch e c s)
           | None \<Rightarrow> dispatch e c (record_before e c s))"

end
