(* ===== verification/Srv_Moves.thy ===== *)
theory Srv_Moves
  imports Srv_Command
begin

text \<open>
  Every command of the server, every tick and every load is a sequence of small moves of the
  graph and the registry: one node placed, one field edited, one wire toggled, one node removed
  with the wires its kind takes with it. A law of the state is then proved once per move
  (locale \<open>move_law\<close>) and holds in every state the server reaches.
\<close>

subsection \<open>Moves\<close>

type_synonym canvas = "graph \<times> app_rec list"

definition plain_kind :: "gkind \<Rightarrow> bool" where
  "plain_kind k \<longleftrightarrow> k \<in> {KdNetwork, KdGateway, KdRouter, KdCapture, KdClipboard, KdApi}"

inductive move :: "canvas \<Rightarrow> canvas \<Rightarrow> bool" where
  m_app: "move (g, r) (place_app i dep name args ws pos sz g, r @ [\<lparr>ap_id = i, ap_name = name, ap_options = options\<rparr>])"
| m_token: "node_exists g i \<Longrightarrow> move (g, r) (put_token i t g, r)"
| m_file: "move (g, r) (place_file i f ws pos sz g, r)"
| m_port: "move (g, r) (place_port i p ws pos sz g, r)"
| m_note: "move (g, r) (place_note_node i t ws pos sz g, r)"
| m_plain: "plain_kind k \<Longrightarrow> move (g, r) (place g i k ws pos sz, r)"
| m_service: "move (g, r) (place_service i svc ws pos sz g, r)"
| m_multicast: "move (g, r) (place_multicast i cfg ws pos sz g, r)"
| m_iroh: "move (g, r) (place_iroh i own ws pos sz g, r)"
| m_veilid: "move (g, r) (place_veilid i id1 ws pos sz g, r)"
| m_midi_in: "move (g, r) (place_midi_in e i d ws pos sz g, r)"
| m_midi_out: "move (g, r) (place_midi_out e i d ws pos sz g, r)"
| m_boundary: "move (g, r) (place_boundary i bp ws pos sz g, r)"
| m_group: "move (g, r) (place_group i gn ws pos sz g, r)"
| m_pose: "move (g, r) (set_pose n g, r)"
| m_set_pos: "move (g, r) (set_node_pos g i pos, r)"
| m_set_size: "move (g, r) (set_node_size g i pos, r)"
| m_set_pos3d: "move (g, r) (set_node_pos3d g i ps, r)"
| m_set_panel3d: "move (g, r) (set_node_panel3d g i b, r)"
| m_set_args: "move (g, r) (set_node_args g i t, r)"
| m_set_text: "move (g, r) (set_note_text g i t, r)"
| m_set_path: "move (g, r) (set_bind_path g i t, r)"
| m_set_persist: "move (g, r) (set_persist g i b, r)"
| m_set_name: "move (g, r) (set_service_name g i t, r)"
| m_set_target: "move (g, r) (set_service_target g i t, r)"
| m_set_device: "move (g, r) (set_midi_device e g i t, r)"
| m_set_multicast: "move (g, r) (set_multicast_config e g i cfg, r)"
| m_set_token: "move (g, r) (set_node_token e g i t, r)"
| m_old_token: "move (g, r) (restore_token i old g, r)"
| m_mount: "move (g, r) (set_mount g a b t, r)"
| m_channel: "move (g, r) (set_midi_channel g a b ch, r)"
| m_serve_port: "move (g, r) (set_serve_port g a b p, r)"
| m_new_port: "map_of (g_ports g) i \<noteq> None \<Longrightarrow> move (g, r) (sync_serves (g\<lparr>g_ports := bt_insert i p (g_ports g)\<rparr>), r)"
| m_new_group: "map_of (g_groups g) i \<noteq> None \<Longrightarrow> move (g, r) (g\<lparr>g_groups := bt_insert i gn (g_groups g)\<rparr>, r)"
| m_settings: "move (g, r) (apply_settings w g, r)"
| m_mounts: "move (g, r) (sync_mounts g, r)"
| m_channels: "move (g, r) (sync_channels g, r)"
| m_serves: "move (g, r) (sync_serves g, r)"
| m_wire_file: "move (g, r) (toggle_file g a b, r)"
| m_wire_serve: "move (g, r) (toggle_serve g a b, r)"
| m_wire_capture: "move (g, r) (toggle_capture g a b, r)"
| m_wire_clipboard: "move (g, r) (toggle_clipboard g a b, r)"
| m_wire_api: "move (g, r) (toggle_api g a b, r)"
| m_wire_net: "move (g, r) (toggle_net g a b, r)"
| m_wire_midi: "move (g, r) (sync_channels (g\<lparr>g_midi_links := fst (toggle_pair (g_midi_links g) a b)\<rparr>), r)"
| m_link_nets: "move (g, r) (g\<lparr>g_link_nets := m\<rparr>, r)"
| m_new_tab: "move (g, r) (add_workspace g i, r)"
| m_old_tab: "move (g, r) (restore_tab x g, r)"
| m_close_tab: "ws \<in> set (g_workspaces g) \<Longrightarrow> 1 < length (g_workspaces g) \<Longrightarrow> move (g, r) (drop_tab ws g, r)"
| m_del_file: "move (g, r) (remove_file_node g i, r)"
| m_del_port: "move (g, r) (remove_host_port g i, r)"
| m_del_net: "move (g, r) (remove_net_node g i, r)"
| m_del_uplink: "move (g, r) (remove_uplink_node g i, r)"
| m_del_multicast: "move (g, r) (remove_multicast_node g i, r)"
| m_del_note: "move (g, r) (forget g i, r)"
| m_del_capture: "move (g, r) (remove_capture_node g i, r)"
| m_del_clipboard: "move (g, r) (remove_clipboard_node g i, r)"
| m_del_api: "move (g, r) (remove_api_node g i, r)"
| m_del_midi_in: "move (g, r) (remove_midi_in_node e g i, r)"
| m_del_midi_out: "move (g, r) (remove_midi_out_node e g i, r)"
| m_del_member: "move (g, r) (remove_member g i, r)"
| m_del_boundary: "move (g, r) (remove_boundary_port e g i, r)"
| m_del_app: "move (g, r) (close_app e g i, filter (\<lambda>n. ap_id n \<noteq> i) r)"
| m_del_group: "move (g, r) (forget_group i g, r)"
| m_guest_write:
    "map_of (g_files g) i = Some (FnVolume name data p) \<Longrightarrow>
       move (g, r) (g\<lparr>g_files := bt_insert i (FnVolume name data' p) (g_files g)\<rparr>, r)"
| m_guest_knob: "move (g, r) (g, map (\<lambda>n. if ap_id n = i then n\<lparr>ap_options := os\<rparr> else n) r)"

abbreviation moves :: "canvas \<Rightarrow> canvas \<Rightarrow> bool" where
  "moves \<equiv> move\<^sup>*\<^sup>*"

definition canvas_of :: "server \<Rightarrow> canvas" where
  "canvas_of s = (sv_graph s, sv_reg s)"

text \<open>
  \<open>by_moves\<close>: an operation that moves the canvas and leaves alone the undo history, the authored
  definitions and the scratch tab.
\<close>

definition settled :: "server \<Rightarrow> undo list \<times> (nat \<times> workspace) list \<times> node_id option" where
  "settled s = (sv_undo s, sv_authored s, sv_scratch s)"

definition by_moves :: "server \<Rightarrow> server \<Rightarrow> bool" where
  "by_moves s s' \<longleftrightarrow> moves (canvas_of s) (canvas_of s') \<and> settled s' = settled s"

lemma by_moves_refl [simp, intro]: "by_moves s s"
  by (simp add: by_moves_def)

lemma by_moves_trans [trans]: "by_moves s s' \<Longrightarrow> by_moves s' s'' \<Longrightarrow> by_moves s s''"
  by (auto simp: by_moves_def)

lemma by_moves_same: "sv_graph s' = sv_graph s \<Longrightarrow> sv_reg s' = sv_reg s \<Longrightarrow> settled s' = settled s \<Longrightarrow> by_moves s s'"
  by (simp add: by_moves_def canvas_of_def)

lemma by_move: "move (canvas_of s) (canvas_of s') \<Longrightarrow> settled s' = settled s \<Longrightarrow> by_moves s s'"
  by (simp add: by_moves_def r_into_rtranclp)

lemma settled_simps [simp]:
  "settled (on_graph f s) = settled s" "settled (s\<lparr>sv_graph := g\<rparr>) = settled s" "settled (s\<lparr>sv_reg := r\<rparr>) = settled s"
  "settled (s\<lparr>sv_pending_run := pr\<rparr>) = settled s" "settled (s\<lparr>sv_unplaced := un\<rparr>) = settled s"
  "settled (s\<lparr>sv_unplaced_wires := uw\<rparr>) = settled s" "settled (s\<lparr>sv_instances := ins\<rparr>) = settled s"
  "settled (s\<lparr>sv_pending_wires := pw\<rparr>) = settled s" "settled (s\<lparr>sv_next_port := np\<rparr>) = settled s"
  "settled (s\<lparr>sv_file_seq := fs\<rparr>) = settled s" "settled (s\<lparr>sv_host_seq := hq\<rparr>) = settled s"
  "settled (s\<lparr>sv_view := v\<rparr>) = settled s" "settled (s\<lparr>sv_ids := k\<rparr>) = settled s"
  by (simp_all add: settled_def on_graph_def)

lemma on_graph_move: "move (sv_graph s, sv_reg s) (f (sv_graph s), sv_reg s) \<Longrightarrow> by_moves s (on_graph f s)"
  by (rule by_move) (simp add: canvas_of_def on_graph_def, simp)

text \<open>An edit of the graph after a change of fields that no move concerns.\<close>

lemma on_graph_move_after:
  assumes "sv_graph s' = sv_graph s" "sv_reg s' = sv_reg s" "settled s' = settled s"
    "move (sv_graph s, sv_reg s) (f (sv_graph s), sv_reg s)"
  shows "by_moves s (on_graph f s')"
  using assms by (intro by_move) (simp_all add: canvas_of_def, simp add: on_graph_def)

subsection \<open>Private links\<close>

definition graph_moves :: "graph \<Rightarrow> graph \<Rightarrow> bool" where
  "graph_moves g g' \<longleftrightarrow> (\<forall>r. moves (g, r) (g', r))"

lemma graph_moves_refl [simp, intro]: "graph_moves g g"
  by (simp add: graph_moves_def)

lemma graph_moves_trans [trans]: "graph_moves g g' \<Longrightarrow> graph_moves g' g'' \<Longrightarrow> graph_moves g g''"
  by (auto simp: graph_moves_def intro: rtranclp_trans)

lemma graph_moveI: "(\<And>r. move (g, r) (g', r)) \<Longrightarrow> graph_moves g g'"
  by (auto simp: graph_moves_def)

lemma graph_moves_by:
  "graph_moves (sv_graph s) (sv_graph s') \<Longrightarrow> sv_reg s' = sv_reg s \<Longrightarrow> settled s' = settled s \<Longrightarrow> by_moves s s'"
  by (simp add: graph_moves_def by_moves_def canvas_of_def)

lemma link_nets_moves: "graph_moves g (g\<lparr>g_link_nets := m\<rparr>)"
  by (rule graph_moveI) (rule m_link_nets)

lemma toggle_net_moves: "graph_moves g (toggle_net g a b)"
  by (rule graph_moveI) (rule m_wire_net)

lemma part_link_moves: "graph_moves g (toggle_net (toggle_net (g\<lparr>g_link_nets := m\<rparr>) a n) b n)"
  by (rule graph_moves_trans [OF link_nets_moves graph_moves_trans [OF toggle_net_moves toggle_net_moves]])

lemma join_link_moves: "graph_moves g ((toggle_net (toggle_net g a n) b n)\<lparr>g_link_nets := m\<rparr>)"
  by (rule graph_moves_trans [OF graph_moves_trans [OF toggle_net_moves toggle_net_moves] link_nets_moves])

lemma part_links_moves: "graph_moves g (part_links keys g)"
proof (induction keys g rule: part_links.induct)
  case (2 key keys g)
  then show ?case
    by (cases "map_of (g_link_nets g) key") (simp_all add: graph_moves_trans [OF part_link_moves])
qed simp

lemma join_links_moves: "graph_moves g (fst (join_links e keys k g))"
proof (induction e keys k g rule: join_links.induct)
  case (2 e key keys k g)
  show ?case
  proof (cases "map_of (g_link_nets g) key = None")
    case True
    let ?g1 = "toggle_net (toggle_net g (fst key) (rt_id e k)) (snd key) (rt_id e k)"
    have "join_links e (key # keys) k g =
        join_links e keys (k + 1) (?g1\<lparr>g_link_nets := bt_insert key (rt_id e k) (g_link_nets ?g1)\<rparr>)"
      using True by (simp only: join_links.simps Let_def simp_thms if_False)
    then show ?thesis using graph_moves_trans [OF join_link_moves 2(2) [OF _ refl refl]] True by simp
  next
    case False
    then show ?thesis using 2(1) by auto
  qed
qed simp

lemma sync_app_link_nets_moves: "graph_moves g (fst (sync_app_link_nets e reg k g))"
  unfolding sync_app_link_nets_def Let_def by (rule graph_moves_trans [OF part_links_moves join_links_moves])

lemma toggle_midi_moves: "graph_moves g (fst (toggle_midi e reg k g a b))"
  unfolding toggle_midi_def
  by (rule graph_moves_trans [OF graph_moveI sync_app_link_nets_moves]) (rule m_wire_midi)

subsection \<open>Operations are moves\<close>

named_theorems moving "Operations of the server that are sequences of moves"

lemma toggle_moves [moving]: "by_moves s (srv_toggle e rel a b s)"
proof (cases rel)
  case RMidi
  then show ?thesis using toggle_midi_moves [of "sv_graph s" e "map ap_id (sv_reg s)" "sv_ids s" a b]
    by (auto simp: srv_toggle_def srv_toggle_midi_def split: prod.split intro: graph_moves_by)
qed (auto simp: srv_toggle_def intro!: on_graph_move intro: move.intros)

lemma unwire_rel_moves [moving]: "by_moves s (unwire_rel e w s)"
  by (auto simp: unwire_rel_def split: prod.split intro: moving)

lemma connect_toggle_moves [moving]: "by_moves s (connect_toggle e s a b)"
  by (auto simp: connect_toggle_def split: option.split wire.split intro: moving by_moves_same)

lemma disconnect_wire_moves [moving]: "by_moves s (disconnect_wire e s w)"
  by (auto simp: disconnect_wire_def split: prod.split intro: moving)

lemma rewire_moves [moving]: "by_moves s (rewire e wires s)"
  by (induction e wires s rule: rewire.induct) (auto intro: moving by_moves_trans)

lemma retry_wires_moves: "by_moves s (retry_wires e pending s)"
proof (induction e pending s rule: retry_wires.induct)
  case (2 e a b pending s)
  show ?case
    by (subst retry_wires.simps, rule by_moves_trans [OF _ 2]) (auto intro: moving by_moves_same)
qed simp

lemma sync_pending_moves [moving]: "by_moves s (sync_pending_app_wires e s)"
  unfolding sync_pending_app_wires_def by (rule by_moves_trans [OF by_moves_same retry_wires_moves]) simp_all

lemma set_host_port_moves [moving]: "by_moves s (set_host_port s i p)"
  by (auto simp: set_host_port_def split: option.split intro!: on_graph_move_after m_new_port)

lemma change_port_moves [moving]: "by_moves s (change_port s i d)"
  by (auto simp: change_port_def split: option.split intro: moving)

lemma remove_plain_moves [moving]: "by_moves s (remove_plain e s i)"
proof -
  have "by_moves s (close_node e s i)"
    by (rule by_move) (auto simp: close_node_def canvas_of_def on_graph_def intro: m_del_app)
  then show ?thesis
    unfolding remove_plain_def by (auto split: option.split gkind.split intro!: on_graph_move intro: move.intros)
qed

lemma alloc_id_same: "alloc_id e s = (i, s1) \<Longrightarrow> sv_graph s1 = sv_graph s \<and> sv_reg s1 = sv_reg s \<and> settled s1 = settled s"
  by (auto simp: alloc_id_def)

lemma spawn_moves:
  assumes "sv_graph s' = sv_graph s" "sv_reg s' = sv_reg s" "settled s' = settled s"
  shows "by_moves s (on_graph (place_app i dep name args ws pos sz) (spawn i name options s'))"
  using assms by (intro by_move) (simp_all add: canvas_of_def spawn_def, simp add: on_graph_def m_app)

lemma create_multicast_moves: "by_moves s (create_multicast e s i cfg pos sz ws)"
  by (auto simp: create_multicast_def intro!: on_graph_move m_multicast)

lemma create_uplink_moves: "by_moves s (create_uplink e s i secret pos sz ws)"
  by (auto simp: create_uplink_def split: option.split intro!: on_graph_move m_iroh)

lemma create_veilid_moves: "by_moves s (create_veilid_uplink e s i secret pos sz ws)"
  by (auto simp: create_veilid_uplink_def split: option.split intro!: on_graph_move m_veilid)

lemma alloc_moves: "alloc_id e s = (i, s1) \<Longrightarrow> by_moves s1 s2 \<Longrightarrow> by_moves s s2"
  using alloc_id_same [of e s i s1] by (auto simp: by_moves_def canvas_of_def)

lemmas add_defs =
  add_virtual_file_def add_host_mapped_file_def add_host_mount_def add_host_port_def add_note_node_def add_plain_def
  add_host_service_def add_multicast_node_def add_midi_in_node_def add_midi_out_node_def add_iroh_node_def
  add_veilid_node_def add_capture_node_def add_clipboard_node_def add_api_node_def add_net_node_def
  add_gateway_node_def add_router_node_def

lemma host_mount_moves: "by_moves s (on_graph (\<lambda>g. sync_mounts (place_file i f ws pos sz g)) s)"
proof -
  have "on_graph (\<lambda>g. sync_mounts (place_file i f ws pos sz g)) s = on_graph sync_mounts (on_graph (place_file i f ws pos sz) s)"
    by (simp add: on_graph_def)
  moreover have "by_moves s (on_graph (place_file i f ws pos sz) s)" by (rule on_graph_move) (rule m_file)
  moreover have "by_moves s1 (on_graph sync_mounts s1)" for s1 by (rule on_graph_move) (rule m_mounts)
  ultimately show ?thesis using by_moves_trans by simp
qed

lemma add_moves:
  "by_moves s (add_virtual_file e s pos ws)" "by_moves s (add_host_mapped_file e s pos ws)"
  "by_moves s (add_host_port e s pos ws)" "by_moves s (add_note_node e s pos ws)"
  "by_moves s (add_host_service e s pos ws)" "by_moves s (add_midi_in_node e s pos ws)"
  "by_moves s (add_midi_out_node e s pos ws)"
  by (auto simp: add_defs alloc_id_def Let_def intro!: on_graph_move_after intro: move.intros)

lemma add_uplink_moves:
  "by_moves s (add_multicast_node e s pos ws)" "by_moves s (add_iroh_node e s pos ws)" "by_moves s (add_veilid_node e s pos ws)"
  "by_moves s (add_host_mount e s path pos ws)"
  by (auto simp: add_defs split: prod.split
      intro: alloc_moves create_multicast_moves create_uplink_moves create_veilid_moves host_mount_moves)

lemma add_plain_moves: "plain_kind k \<Longrightarrow> by_moves s (add_plain e s k pos ws)"
  by (auto simp: add_plain_def alloc_id_def intro!: on_graph_move_after m_plain)

lemma launch_moves: "launch e s dep pos ws = Some s' \<Longrightarrow> by_moves s s'"
  by (auto simp: launch_def alloc_id_def split: option.splits intro: spawn_moves)

lemma create_node_moves: "create_node e s k pos ws = Some s' \<Longrightarrow> by_moves s s'"
  by (auto simp: create_node_def add_capture_node_def add_clipboard_node_def add_api_node_def add_net_node_def
      add_gateway_node_def add_router_node_def plain_kind_def split: node_kind.splits option.splits
      intro: add_moves add_uplink_moves add_plain_moves launch_moves)

lemma set_peer_moves: "by_moves s (set_peer i t s)"
  by (auto simp: set_peer_def split: option.split intro!: on_graph_move m_set_args)

lemma set_pose_moves: "by_moves s (on_graph (set_pose n) s)"
  by (rule on_graph_move) (rule m_pose)

lemma materialize_plain_moves: "by_moves s (materialize_plain e s ws n data)"
proof (cases "sn_kind n")
  case (SkIroh a b)
  then show ?thesis
    by (simp add: materialize_plain_def Let_def by_moves_trans [OF create_uplink_moves set_peer_moves])
next
  case (SkVeilid a b)
  then show ?thesis
    by (simp add: materialize_plain_def Let_def by_moves_trans [OF create_veilid_moves set_peer_moves])
next
  case (SkMulticast a b)
  then show ?thesis by (simp add: materialize_plain_def Let_def create_multicast_moves)
qed (auto simp: materialize_plain_def Let_def plain_kind_def intro!: on_graph_move_after intro: move.intros)

lemma place_app_exists: "node_exists (place_app i dep name args ws pos sz g) i"
  by (simp add: place_app_def place_def node_exists_def)

lemma materialize_app_moves:
  assumes "materialize_app e s ws n dep name options args token = Some s'"
  shows "by_moves s s'"
proof -
  obtain ident tok args' where
    s': "s' = (case tok of None \<Rightarrow> on_graph (place_app (sn_id n) (dp_name dep) ident args' ws (sn_pos n) (sn_size n)) (spawn (sn_id n) ident options s)
         | Some t \<Rightarrow> on_graph (put_token (sn_id n) t)
             (on_graph (place_app (sn_id n) (dp_name dep) ident args' ws (sn_pos n) (sn_size n)) (spawn (sn_id n) ident options s)))"
    using assms by (auto simp: materialize_app_def Let_def bind_eq_Some_conv)
  let ?s1 = "on_graph (place_app (sn_id n) (dp_name dep) ident args' ws (sn_pos n) (sn_size n)) (spawn (sn_id n) ident options s)"
  have 1: "by_moves s ?s1" by (rule spawn_moves) simp_all
  have 2: "by_moves ?s1 (on_graph (put_token (sn_id n) t) ?s1)" for t
    by (rule on_graph_move, rule m_token) (simp add: on_graph_def place_app_exists)
  show ?thesis using s' 1 by_moves_trans [OF 1 2] by (auto split: option.splits)
qed

lemma materialize_moves [moving]: "materialize e s ws n data = Some s' \<Longrightarrow> by_moves s s'"
proof -
  assume m: "materialize e s ws n data = Some s'"
  show ?thesis
  proof (cases "\<exists>dep name options args token. sn_kind n = SkApp dep name options args token")
    case True
    with m show ?thesis
      by (auto simp: materialize_def split: option.splits
          intro: by_moves_trans [OF materialize_app_moves set_pose_moves])
  next
    case False
    with m have "s' = on_graph (set_pose n) (materialize_plain e s ws n data)"
      by (auto simp: materialize_def split: snap_kind.splits)
    then show ?thesis using by_moves_trans [OF materialize_plain_moves set_pose_moves] by simp
  qed
qed

lemma materialize_all_moves [moving]: "materialize_all e ws ns s = Some s' \<Longrightarrow> by_moves s s'"
  by (induction e ws ns s rule: materialize_all.induct) (auto split: option.splits intro: moving by_moves_trans)

lemma apply_links_moves: "by_moves s (fst (apply_links e ws s made))"
proof (induction e ws s made rule: apply_links.induct)
  case (2 e rel a b rest s made)
  then show ?case by (auto intro: by_moves_trans [OF toggle_moves])
qed simp

lemma apply_wires_moves [moving]: "by_moves s (fst (apply_wires e w s))"
proof -
  obtain s1 made where l: "apply_links e (wires_of w) s [] = (s1, made)" by fastforce
  then have "by_moves s s1" using apply_links_moves [of s e "wires_of w" "[]"] by simp
  moreover have "by_moves s1 (on_graph (apply_settings w) s1)" by (rule on_graph_move) (rule m_settings)
  ultimately show ?thesis using by_moves_trans l by (simp add: apply_wires_def)
qed

end
