(* ===== verification/Srv_Runs.thy ===== *)
theory Srv_Runs
  imports Srv_Moves
begin

text \<open>
  The commands of a client, the tick and the load of a document as sequences of moves, and the
  states a server reaches.
\<close>

subsection \<open>Instances\<close>

lemma set_inst_wires_same: "by_moves s (set_inst_wires i made s)"
  by (rule by_moves_same) (auto simp: set_inst_wires_def split: option.split)

lemma open_instances_moves [moving]: "open_instances e xs s = Some s' \<Longrightarrow> by_moves s s'"
proof (induction e xs s rule: open_instances.induct)
  case (2 e x xs s)
  let ?s0 = "s\<lparr>sv_instances := bt_insert (in_id x) (inst_record x) (sv_instances s)\<rparr>"
  obtain s1 where m: "materialize_all e (ws_id (in_content x)) (ws_nodes (in_content x)) ?s0 = Some s1"
    and r: "open_instances e xs (set_inst_wires (in_id x) (snd (apply_wires e (in_content x) s1)) (fst (apply_wires e (in_content x) s1))) = Some s'"
    using 2(2) by (auto simp: instantiate_content_def split: option.splits prod.splits)
  have "by_moves s ?s0" by (rule by_moves_same) simp_all
  also have "by_moves ?s0 s1" using m by (rule moving)
  also have "by_moves s1 (fst (apply_wires e (in_content x) s1))" by (rule moving)
  also have "by_moves \<dots> (set_inst_wires (in_id x) (snd (apply_wires e (in_content x) s1)) \<dots>)" by (rule set_inst_wires_same)
  also have "by_moves \<dots> s'"
    using 2(1) [of "(fst (apply_wires e (in_content x) s1), snd (apply_wires e (in_content x) s1))"] m r
    by (auto simp: instantiate_content_def)
  finally show ?case .
qed simp

lemma srv_expand_group_moves [moving]: "srv_expand_group e s ws i = Some s' \<Longrightarrow> by_moves s s'"
  by (auto simp: srv_expand_group_def split: if_splits option.splits sum.splits intro: moving)

lemma unwire_all_moves [moving]: "by_moves s (unwire_all e ws s)"
  by (induction e ws s rule: unwire_all.induct) (auto intro: moving by_moves_trans)

lemma move_wires_moves [moving]: "by_moves s (move_wires e xs s)"
proof (induction e xs s rule: move_wires.induct)
  case (2 e x xs s)
  show ?case
  proof (cases "map_of (sv_instances s) (in_id x)")
    case (Some r)
    let ?want = "wires_of (in_content x)"
    let ?s1 = "unwire_all e (filter (\<lambda>w. w \<notin> set ?want) (ir_wires r)) (set_inst_wires (in_id x) [] s)"
    let ?a = "apply_wires e (in_content x) ?s1"
    let ?s2 = "set_inst_wires (in_id x) (filter (\<lambda>w. w \<in> set ?want) (ir_wires r) @ snd ?a) (fst ?a)"
    have "by_moves s (set_inst_wires (in_id x) [] s)" by (rule set_inst_wires_same)
    also have "by_moves \<dots> ?s1" by (rule moving)
    also have "by_moves ?s1 (fst ?a)" by (rule moving)
    also have "by_moves (fst ?a) ?s2" by (rule set_inst_wires_same)
    also have "by_moves ?s2 (move_wires e xs ?s2)"
      using 2(2) [OF Some refl refl, of ?a "fst ?a" "snd ?a"] by simp
    finally show ?thesis using Some by (simp add: Let_def split_beta)
  qed (use 2(1) in auto)
qed simp

lemma set_group_moves: "map_of (g_groups (sv_graph s)) i \<noteq> None \<Longrightarrow> by_moves s (set_group i gn s)"
  unfolding set_group_def by (rule on_graph_move) (rule m_new_group)

lemma set_boundary_wire_moves [moving]:
  assumes "set_boundary_wire e s bw on = Some s'"
  shows "by_moves s s'"
proof (cases "s' = s")
  case False
  then obtain before after ws where
    b: "map_of (g_groups (sv_graph s)) (bw_group bw) = Some before"
    and r: "s' = set_group (bw_group bw) before (set_group (bw_group bw) after s) \<or>
      rewire_group e (set_group (bw_group bw) after s) ws (bw_group bw) = Some (Inr s')"
    using assms by (auto simp: set_boundary_wire_def split: option.splits sum.splits)
  have 1: "by_moves s (set_group (bw_group bw) after s)" using b by (simp add: set_group_moves)
  have 2: "by_moves (set_group (bw_group bw) after s) (set_group (bw_group bw) before (set_group (bw_group bw) after s))"
    by (rule set_group_moves) (simp add: set_group_def on_graph_def)
  have 3: "by_moves (set_group (bw_group bw) after s) s'"
    if "rewire_group e (set_group (bw_group bw) after s) ws (bw_group bw) = Some (Inr s')"
    using that by (auto simp: rewire_group_def split: option.splits sum.splits intro: moving)
  show ?thesis using r by_moves_trans [OF 1 2] by_moves_trans [OF 1 3] by blast
qed simp

subsection \<open>Removal\<close>

lemma take_instance_moves: "by_moves s (take_instance e i r s)"
  unfolding take_instance_def by (rule by_moves_trans [OF by_moves_same unwire_all_moves]) simp_all

lemma forget_group_moves: "by_moves s (on_graph (forget_group i) s)"
  by (rule on_graph_move) (rule m_del_group)

text \<open>
  What holds of a removal that returns: any reflexive, transitive relation that the single steps
  of the stack satisfy.
\<close>

lemma remove_run_rel:
  assumes "remove_run e js s = Some s'"
    and refl: "\<And>s. R s s"
    and trans: "\<And>s1 s2 s3. R s1 s2 \<Longrightarrow> R s2 s3 \<Longrightarrow> R s1 s3"
    and plain: "\<And>s i. R s (remove_plain e s i)"
    and taken: "\<And>s i r. map_of (sv_instances s) i = Some r \<Longrightarrow> R s (take_instance e i r s)"
    and forgot: "\<And>s i. R s (on_graph (forget_group i) s)"
  shows "R s s'"
proof (rule remove_run.raw_induct [of "\<lambda>e1 js s s'. e1 = e \<longrightarrow> R s s'", rule_format, OF _ assms(1) HOL.refl])
  fix f e1 js s s'
  assume IH: "\<And>e1 js s s'. f e1 js s = Some s' \<Longrightarrow> e1 = e \<Longrightarrow> R s s'"
    and run: "(case js of [] \<Rightarrow> Some s
      | j # rest \<Rightarrow>
          (case j of
             RmAny i \<Rightarrow> if kind_of (sv_graph s) i = Some KdGroup then f e1 (RmTear i # RmForget i # rest) s else f e1 rest (remove_plain e1 s i)
           | RmTear i \<Rightarrow> f e1 (map RmTear (nested_in s i) @ RmTake i # rest) s
           | RmTake i \<Rightarrow>
               (case map_of (sv_instances s) i of None \<Rightarrow> f e1 rest s
                | Some r \<Rightarrow> f e1 (map RmAny (ir_nodes r) @ rest) (take_instance e1 i r s))
           | RmForget i \<Rightarrow> f e1 rest (on_graph (forget_group i) s))) = Some s'" and e1: "e1 = e"
  have IH': "R s s'" if "f e js s = Some s'" for js s s' using IH that by blast
  show "R s s'"
    using run e1 refl trans [OF plain IH'] trans [OF taken IH'] trans [OF forgot IH'] IH'
    by (auto split: list.splits removal.splits if_splits option.splits)
qed

lemma remove_run_moves: "remove_run e js s = Some s' \<Longrightarrow> by_moves s s'"
  by (rule remove_run_rel [of e js s s' by_moves])
    (auto intro: by_moves_trans moving take_instance_moves forget_group_moves)

lemma remove_any_moves [moving]: "remove_any e s i = Some s' \<Longrightarrow> by_moves s s'"
  unfolding remove_any_def by (rule remove_run_moves)

lemma remove_each_moves: "remove_each e is s = Some s' \<Longrightarrow> by_moves s s'"
  by (induction e "is" s rule: remove_each.induct) (auto split: option.splits intro: moving by_moves_trans)

text \<open>No removal of a node, and no wire, touches the tabs.\<close>

named_theorems tabs "Operations that keep the tabs"

lemma toggle_net_tabs [tabs]: "g_workspaces (toggle_net g a b) = g_workspaces g"
  by (simp add: toggle_net_def)

lemma part_links_tabs [tabs]: "g_workspaces (part_links keys g) = g_workspaces g"
  by (induction keys g rule: part_links.induct) (auto simp: tabs split: option.split)

lemma join_links_tabs [tabs]: "g_workspaces (fst (join_links e keys k g)) = g_workspaces g"
  by (induction e keys k g rule: join_links.induct) (auto simp: tabs Let_def)

lemma prune_links_tabs [tabs]: "g_workspaces (prune_links i ls g) = g_workspaces g"
  by (induction i ls g rule: prune_links.induct) (auto simp: tabs)

lemma toggle_tabs [tabs]: "g_workspaces (sv_graph (srv_toggle e rel a b s)) = g_workspaces (sv_graph s)"
proof (cases rel)
  case RMidi
  then show ?thesis
    by (simp add: srv_toggle_def srv_toggle_midi_def toggle_midi_def sync_app_link_nets_def split_beta Let_def tabs sync_channels_def)
qed (simp_all add: srv_toggle_def on_graph_def toggle_file_def toggle_serve_def toggle_capture_def toggle_clipboard_def
    toggle_api_def tabs sync_mounts_def sync_serves_def)

lemma unwire_all_tabs [tabs]: "g_workspaces (sv_graph (unwire_all e ws s)) = g_workspaces (sv_graph s)"
  by (induction e ws s rule: unwire_all.induct) (auto simp: unwire_rel_def tabs split: prod.split)

lemmas removal_defs =
  remove_file_node_def remove_host_port_def remove_net_node_def remove_uplink_node_def remove_multicast_node_def
  remove_capture_node_def remove_clipboard_node_def remove_api_node_def remove_midi_in_node_def remove_midi_out_node_def
  remove_boundary_port_def remove_member_def close_app_def close_node_def forget_def sync_mounts_def sync_serves_def
  sync_channels_def prune_app_link_net_def

lemma remove_plain_tabs [tabs]: "g_workspaces (sv_graph (remove_plain e s i)) = g_workspaces (sv_graph s)"
  by (auto simp: remove_plain_def removal_defs on_graph_def Let_def tabs split: option.split gkind.split)

lemma remove_run_tabs: "remove_run e js s = Some s' \<Longrightarrow> g_workspaces (sv_graph s') = g_workspaces (sv_graph s)"
  by (rule remove_run_rel [of e js s s' "\<lambda>s s'. g_workspaces (sv_graph s') = g_workspaces (sv_graph s)"])
    (auto simp: tabs take_instance_def on_graph_def forget_group_def forget_def)

lemma remove_each_tabs: "remove_each e is s = Some s' \<Longrightarrow> g_workspaces (sv_graph s') = g_workspaces (sv_graph s)"
  by (induction e "is" s rule: remove_each.induct) (auto simp: remove_any_def dest: remove_run_tabs split: option.splits)

lemma remove_workspace_moves [moving]: "remove_workspace e s ws = Some s' \<Longrightarrow> by_moves s s'"
  by (auto simp: remove_workspace_def split: if_splits dest: remove_each_tabs
      intro!: by_moves_trans [OF remove_each_moves on_graph_move [of _ "drop_tab ws"]] m_close_tab)

subsection \<open>Commands\<close>

lemma run_node_same [moving]: "by_moves s (run_node e s i)"
  by (rule by_moves_same) (auto simp: run_node_def split: option.split)

lemma drain_runs_moves: "by_moves s (drain_runs e fin is s)"
proof (induction e fin "is" s rule: drain_runs.induct)
  case (2 e fin i "is" s)
  show ?case
    by (subst drain_runs.simps, rule by_moves_trans [OF _ 2]) (auto split: option.split intro: moving by_moves_same)
qed simp

lemma duplicate_app_moves: "duplicate_app e s i node r off = Some s' \<Longrightarrow> by_moves s s'"
  by (auto simp: duplicate_app_def alloc_id_def Let_def split: option.splits intro!: spawn_moves)

lemma duplicate_moves [moving]:
  assumes "duplicate e s i = Some s'"
  shows "by_moves s s'"
proof -
  have g: "by_moves s s'"
    if "srv_expand_group e (on_graph (place_group (rt_id e (sv_ids s)) gn ws pos sz) (s\<lparr>sv_ids := Suc (sv_ids s)\<rparr>)) ws' j = Some s'"
    for gn ws pos sz ws' j
    by (rule by_moves_trans [OF on_graph_move_after srv_expand_group_moves [OF that]]) (auto intro: m_group)
  show ?thesis
    using assms unfolding duplicate_def
    by (auto simp: Let_def alloc_id_def add_net_node_def add_gateway_node_def plain_kind_def
        split: option.splits file_node.splits gkind.splits
        intro: duplicate_app_moves add_moves add_uplink_moves add_plain_moves g)
qed

lemma set_lines_moves: "set_lines e bws s = Some s' \<Longrightarrow> by_moves s s'"
  by (induction e bws s rule: set_lines.induct) (auto split: option.splits intro: moving by_moves_trans)

lemma recreate_moves [moving]:
  assumes "recreate e x s = Some s'"
  shows "by_moves s s'"
proof -
  obtain s1 s2 where m: "materialize e s (ss_ws x) (ss_node x) (ss_data x) = Some s1"
    and l: "set_lines e (ss_boundary x) (rewire e (ss_wires x) s1) = Some s2"
    and r: "s' = s2 \<or> srv_expand_group e s2 (ss_ws x) (sn_id (ss_node x)) = Some s'"
    using assms by (auto simp: recreate_def bind_eq_Some_conv split: if_splits)
  have "by_moves s s1" using m by (rule moving)
  also have "by_moves s1 (rewire e (ss_wires x) s1)" by (rule moving)
  also have "by_moves \<dots> s2" using l by (rule set_lines_moves)
  also have "by_moves s2 s'" using r by (auto intro: moving)
  finally show ?thesis .
qed

lemma materialize_snaps_moves: "materialize_snaps e xs s = Some s' \<Longrightarrow> by_moves s s'"
  by (induction e xs s rule: materialize_snaps.induct) (auto split: option.splits intro: moving by_moves_trans)

lemma expand_snaps_moves: "expand_snaps e xs s = Some s' \<Longrightarrow> by_moves s s'"
  by (induction e xs s rule: expand_snaps.induct) (auto split: option.splits if_splits intro: moving by_moves_trans)

lemma rewire_snaps_moves: "by_moves s (fold (\<lambda>n. rewire e (ss_wires n)) xs s)"
  by (induction xs arbitrary: s) (auto intro: by_moves_trans moving)

lemma recreate_workspace_moves [moving]:
  assumes "recreate_workspace e x s = Some s'"
  shows "by_moves s s'"
proof -
  obtain s1 where m: "materialize_snaps e (wn_nodes x) (on_graph (restore_tab x) s) = Some s1"
    and r: "expand_snaps e (wn_nodes x) (fold (\<lambda>n. rewire e (ss_wires n)) (wn_nodes x) s1) = Some s'"
    using assms by (auto simp: recreate_workspace_def bind_eq_Some_conv)
  have "by_moves s (on_graph (restore_tab x) s)" by (rule on_graph_move) (rule m_old_tab)
  also have "by_moves \<dots> s1" using m by (rule materialize_snaps_moves)
  also have "by_moves s1 (fold (\<lambda>n. rewire e (ss_wires n)) (wn_nodes x) s1)" by (rule rewire_snaps_moves)
  also have "by_moves \<dots> s'" using r by (rule expand_snaps_moves)
  finally show ?thesis .
qed

lemma uncreate_moves [moving]: "uncreate e is s = Some s' \<Longrightarrow> by_moves s s'"
  by (induction e "is" s rule: uncreate.induct) (auto split: option.splits if_splits intro: moving by_moves_trans)

lemma rewire_unique_moves: "by_moves s (rewire_unique e s a b old)"
proof -
  have "by_moves s (if node_exists (sv_graph s) a \<and> node_exists (sv_graph s) b \<and> wired (sv_graph s) a b
      then connect_toggle e s a b else s)" (is "by_moves s ?s1")
    by (auto intro: moving)
  moreover have "by_moves s2 (case old of None \<Rightarrow> s2
      | Some d \<Rightarrow> if node_exists (sv_graph s2) a \<and> node_exists (sv_graph s2) d \<and> \<not> wired (sv_graph s2) a d
          then connect_toggle e s2 a d else s2)" for s2
    by (auto split: option.split intro: moving)
  ultimately show ?thesis unfolding rewire_unique_def Let_def by (rule by_moves_trans)
qed

lemma apply_undo_moves [moving]: "apply_undo e u s = Some s' \<Longrightarrow> by_moves s s'"
  by (cases u)
    (auto simp: restore_port_def split: option.splits if_splits
      intro: moving rewire_unique_moves on_graph_move m_set_pos m_set_size m_set_args m_set_text m_old_token)

lemma undo_last_moves:
  assumes "undo_last e s = Some s'"
  shows "moves (canvas_of s) (canvas_of s')" "settled s' = (butlast (sv_undo s), sv_authored s, sv_scratch s)"
proof -
  have "moves (canvas_of s) (canvas_of s') \<and> settled s' = (butlast (sv_undo s), sv_authored s, sv_scratch s)"
    using assms by (auto simp: undo_last_def settled_def by_moves_def canvas_of_def split: option.splits dest!: apply_undo_moves)
  then show "moves (canvas_of s) (canvas_of s')" "settled s' = (butlast (sv_undo s), sv_authored s, sv_scratch s)" by auto
qed

lemma given_moves: "(\<And>v s. by_moves s (f v s)) \<Longrightarrow> by_moves s0 s \<Longrightarrow> by_moves s0 (given x f s)"
  by (auto simp: given_def split: option.split intro: by_moves_trans)

lemma update_node_moves: "by_moves s (update_node e i p s)"
  unfolding update_node_def Let_def
  by (intro given_moves by_moves_refl change_port_moves set_host_port_moves on_graph_move)
    (rule m_set_pos m_set_pos3d m_set_panel3d m_set_size m_set_args m_set_text m_set_path m_set_device m_set_name
      m_set_target m_set_persist)+

lemma dispatch_moves: "dispatch e c s = Some s' \<Longrightarrow> c \<noteq> CmdUndo \<Longrightarrow> by_moves s s'"
  by (cases "(e, c, s)" rule: dispatch.cases)
    (auto simp: Let_def intro: moving create_node_moves add_uplink_moves update_node_moves by_moves_same
      on_graph_move m_new_tab m_mount m_channel m_set_multicast m_serve_port m_set_token)

text \<open>What recording changes: the history only, which stays within its cap.\<close>

definition recorded :: "server \<Rightarrow> server \<Rightarrow> bool" where
  "recorded s s' \<longleftrightarrow>
     canvas_of s' = canvas_of s \<and> sv_authored s' = sv_authored s \<and> sv_scratch s' = sv_scratch s \<and>
     (length (sv_undo s) \<le> undo_cap \<longrightarrow> length (sv_undo s') \<le> undo_cap)"

lemma recorded_refl [simp, intro]: "recorded s s"
  by (simp add: recorded_def)

lemma recorded_trans: "recorded s s' \<Longrightarrow> recorded s' s'' \<Longrightarrow> recorded s s''"
  by (simp add: recorded_def)

lemma record_undo_recorded [intro]: "recorded s (record_undo u s)"
  by (auto simp: recorded_def record_undo_def canvas_of_def Let_def)

lemma given_recorded: "(\<And>v s. recorded s (f v s)) \<Longrightarrow> recorded s0 s \<Longrightarrow> recorded s0 (given x f s)"
  by (auto simp: given_def split: option.split intro: recorded_trans)

lemma record_update_recorded: "recorded s (record_update s i p)"
proof -
  have cond: "recorded s0 (if b then s1 else s2)" if "recorded s0 s1" "recorded s0 s2" for s0 s1 s2 :: server and b
    using that by simp
  show ?thesis
    unfolding record_update_def Let_def
    by (intro cond given_recorded record_undo_recorded recorded_refl recorded_trans [OF _ record_undo_recorded])
qed

lemma record_before_recorded: "recorded s (record_before e c s)"
proof (cases "\<exists>i p. c = CmdUpdate i p")
  case False
  then show ?thesis
    by (cases "(e, c, s)" rule: record_before.cases)
      (auto simp: record_wire_def Let_def split: option.split wire.split prod.split intro: given_recorded)
qed (auto intro: record_update_recorded)

lemma record_created_recorded: "recorded s1 (record_created e s s1)"
  by (auto simp: record_created_def Let_def)

text \<open>What a command keeps beside the canvas.\<close>

definition commanded :: "server \<Rightarrow> server \<Rightarrow> bool" where
  "commanded s s' \<longleftrightarrow>
     moves (canvas_of s) (canvas_of s') \<and> sv_authored s' = sv_authored s \<and> sv_scratch s' = sv_scratch s \<and>
     (length (sv_undo s) \<le> undo_cap \<longrightarrow> length (sv_undo s') \<le> undo_cap)"

lemma commanded_trans: "commanded s s' \<Longrightarrow> commanded s' s'' \<Longrightarrow> commanded s s''"
  by (auto simp: commanded_def)

lemma by_moves_commanded: "by_moves s s' \<Longrightarrow> commanded s s'"
  by (auto simp: by_moves_def commanded_def settled_def)

lemma recorded_commanded: "recorded s s' \<Longrightarrow> commanded s s'"
  by (auto simp: recorded_def commanded_def)

lemma undo_last_commanded: "undo_last e s = Some s' \<Longrightarrow> commanded s s'"
  using undo_last_moves [of e s s'] by (auto simp: commanded_def settled_def)

lemma apply_command_commanded:
  assumes "apply_command e c s = Some s'"
  shows "commanded s s'"
proof (cases "c = CmdUndo")
  case True
  then show ?thesis using assms by (simp add: apply_command_def undo_last_commanded)
next
  case c: False
  have d: "commanded s1 s2" if "dispatch e c s1 = Some s2" for s1 s2
    using dispatch_moves [OF that c] by (rule by_moves_commanded)
  have *: "s' = s \<or> (\<exists>s1. commanded s s1 \<and> recorded s1 s') \<or> dispatch e c (record_before e c s) = Some s'"
    using assms d unfolding apply_command_def
    by (auto split: if_splits option.splits intro: record_created_recorded)
  then show ?thesis
    using d commanded_trans recorded_commanded record_before_recorded [of s e c] by_moves_commanded by blast
qed

lemma tick_moves: "by_moves s (tick e fin s)"
proof -
  define s1 where "s1 = sync_pending_app_wires e (drain_pending_run e fin s)"
  define s2 where "s2 = on_graph (\<lambda>g. sync_channels (sync_mounts g)) s1"
  define gk where "gk = sync_app_link_nets e (map ap_id (sv_reg s2)) (sv_ids s2) (sv_graph s2)"
  define s3 where "s3 = s2\<lparr>sv_graph := fst gk, sv_ids := snd gk\<rparr>"
  have "by_moves s (drain_pending_run e fin s)" by (simp add: drain_pending_run_def drain_runs_moves)
  also have "by_moves \<dots> s1" unfolding s1_def by (rule moving)
  also have "by_moves s1 (on_graph sync_mounts s1)" by (rule on_graph_move) (rule m_mounts)
  also have "by_moves \<dots> (on_graph sync_channels \<dots>)" by (rule on_graph_move) (rule m_channels)
  also have "on_graph sync_channels (on_graph sync_mounts s1) = s2" by (simp add: s2_def on_graph_def)
  also have "by_moves s2 s3"
    by (rule graph_moves_by) (simp_all add: s3_def gk_def sync_app_link_nets_moves)
  also have "by_moves s3 (on_graph sync_serves s3)" by (rule on_graph_move) (rule m_serves)
  also have "on_graph sync_serves s3 = tick e fin s"
    by (simp add: tick_def Let_def s1_def [symmetric] s2_def [symmetric] gk_def [symmetric] s3_def split_beta)
  finally show ?thesis .
qed

subsection \<open>Loading\<close>

lemma place_all_moves: "place_all e ws ns s = Some s' \<Longrightarrow> by_moves s s'"
proof (induction e ws ns s rule: place_all.induct)
  case (2 e ws n ns s)
  then obtain s1 where m: "materialize e s ws n [] = Some s1"
    and r: "by_moves (if node_exists (sv_graph s1) (sn_id n) then s1 else s1\<lparr>sv_unplaced := sv_unplaced s1 @ [(ws, n)]\<rparr>) s'"
    by (auto split: option.splits)
  have "by_moves s s1" using m by (rule moving)
  also have "by_moves s1 (if node_exists (sv_graph s1) (sn_id n) then s1 else s1\<lparr>sv_unplaced := sv_unplaced s1 @ [(ws, n)]\<rparr>)"
    by (rule by_moves_same) simp_all
  also note r
  finally show ?case .
qed simp

lemma expand_all_moves: "expand_all e ws ns s = Some s' \<Longrightarrow> by_moves s s'"
  by (induction e ws ns s rule: expand_all.induct) (auto split: option.splits if_splits intro: moving by_moves_trans)

lemma instantiate_moves:
  assumes "instantiate e w s = Some s'"
  shows "by_moves s s'"
proof -
  obtain s1 where p: "place_all e (ws_id w) (ws_nodes w) s = Some s1"
    and r: "expand_all e (ws_id w) (ws_nodes w)
      (fst (apply_wires e w (s1\<lparr>sv_unplaced_wires := sv_unplaced_wires s1 @ orphan_wires s1 w\<rparr>))) = Some s'"
    using assms by (auto simp: instantiate_def split: option.splits)
  have "by_moves s s1" using p by (rule place_all_moves)
  also have "by_moves s1 (s1\<lparr>sv_unplaced_wires := sv_unplaced_wires s1 @ orphan_wires s1 w\<rparr>)" by (rule by_moves_same) simp_all
  also have "by_moves \<dots> (fst (apply_wires e w \<dots>))" by (rule moving)
  also have "by_moves \<dots> s'" using r by (rule expand_all_moves)
  finally show ?thesis .
qed

lemma instantiate_all_moves: "instantiate_all e ws s = Some s' \<Longrightarrow> by_moves s s'"
  by (induction e ws s rule: instantiate_all.induct) (auto split: option.splits intro: instantiate_moves by_moves_trans)

subsection \<open>Runs\<close>

text \<open>
  What happens to a server: a client's command, a tick, a guest that writes a volume or turns a
  knob. Between two events the outside may have changed, so each has a runtime of its own.
\<close>

inductive srv_step :: "server \<Rightarrow> server \<Rightarrow> bool" where
  s_command: "apply_command e c s = Some s' \<Longrightarrow> srv_step s s'"
| s_tick: "srv_step s (tick e fin s)"
| s_write:
    "map_of (g_files (sv_graph s)) i = Some (FnVolume name data p) \<Longrightarrow>
       srv_step s (on_graph (\<lambda>g. g\<lparr>g_files := bt_insert i (FnVolume name data' p) (g_files g)\<rparr>) s)"
| s_knob: "srv_step s (s\<lparr>sv_reg := map (\<lambda>n. if ap_id n = i then n\<lparr>ap_options := os\<rparr> else n) (sv_reg s)\<rparr>)"

text \<open>The states that follow the load of a document with at least one tab, no id used for two.\<close>

inductive srv_reachable :: "server \<Rightarrow> bool" where
  r_new:
    "server_new e deps doc scratch = Some (Inr s) \<Longrightarrow> filter ws_tab doc \<noteq> [] \<Longrightarrow>
       distinct (map ws_id (filter ws_tab doc)) \<Longrightarrow> srv_reachable s"
| r_step: "srv_reachable s \<Longrightarrow> srv_step s s' \<Longrightarrow> srv_reachable s'"

lemma step_commanded: "srv_step s s' \<Longrightarrow> commanded s s'"
proof (induction rule: srv_step.induct)
  case (s_write s i name data p data')
  show ?case by (rule by_moves_commanded, rule on_graph_move) (rule m_guest_write [OF s_write])
next
  case (s_knob s i os)
  show ?case by (rule by_moves_commanded, rule by_move) (simp_all add: canvas_of_def m_guest_knob)
qed (auto intro: apply_command_commanded by_moves_commanded tick_moves)

lemma reachable_commanded:
  "srv_reachable s \<Longrightarrow>
     \<exists>deps doc scratch. filter ws_tab doc \<noteq> [] \<and> distinct (map ws_id (filter ws_tab doc)) \<and>
       commanded (server_empty deps doc scratch) s"
proof (induction rule: srv_reachable.induct)
  case (r_new e deps doc scratch s)
  then have "by_moves (server_empty deps doc scratch) s"
    by (auto simp: server_new_def split: option.splits sum.splits intro: instantiate_all_moves)
  with r_new show ?case using by_moves_commanded by blast
next
  case (r_step s s')
  then show ?case by (blast intro: commanded_trans step_commanded)
qed

text \<open>A law of the canvas: it holds of an empty server and every move keeps it.\<close>

locale move_law =
  fixes law :: "canvas \<Rightarrow> bool"
  assumes law_empty: "filter ws_tab doc \<noteq> [] \<Longrightarrow> distinct (map ws_id (filter ws_tab doc)) \<Longrightarrow>
      law (canvas_of (server_empty deps doc scratch))"
    and law_move: "move c c' \<Longrightarrow> law c \<Longrightarrow> law c'"
begin

lemma law_moves: "moves c c' \<Longrightarrow> law c \<Longrightarrow> law c'"
  by (induction rule: rtranclp_induct) (auto intro: law_move)

lemma law_kept: "commanded s s' \<Longrightarrow> law (canvas_of s) \<Longrightarrow> law (canvas_of s')"
  unfolding commanded_def using law_moves by blast

lemma law_reachable: "srv_reachable s \<Longrightarrow> law (canvas_of s)"
  by (meson law_empty law_kept reachable_commanded)

end

end
