(* ===== verification/Srv_Inv.thy ===== *)
theory Srv_Inv
  imports Srv_Runs
begin

text \<open>
  Laws of the server: no entry of a side table outlives its node, every placed node has what
  its saved form needs, the settings of wires belong to wires, a source has one destination.
  Each is a law of the moves (\<open>move_law\<close>) and so holds in every state that is reached.
\<close>

subsection \<open>What the parts of a move change\<close>

lemma toggle_net_only: "toggle_net g a b = g\<lparr>g_net_links := g_net_links (toggle_net g a b)\<rparr>"
  by (simp add: toggle_net_def)

lemma prune_links_only:
  "\<exists>nets m. prune_links i ls g = g\<lparr>g_net_links := nets, g_link_nets := m\<rparr>"
proof (induction i ls g rule: prune_links.induct)
  case (1 i g)
  have "g = g\<lparr>g_net_links := g_net_links g, g_link_nets := g_link_nets g\<rparr>" by simp
  then show ?case by (metis prune_links.simps(1))
next
  case (2 i a b net rest g)
  let ?h = "toggle_net (g\<lparr>g_link_nets := bt_remove (a, b) (g_link_nets g)\<rparr>) (if a = i then b else a) net"
  obtain nets m where p: "prune_links i rest ?h = ?h\<lparr>g_net_links := nets, g_link_nets := m\<rparr>" using 2 by blast
  have "?h\<lparr>g_net_links := nets, g_link_nets := m\<rparr> = g\<lparr>g_net_links := nets, g_link_nets := m\<rparr>"
    by (subst toggle_net_only) simp
  then have "prune_links i (((a, b), net) # rest) g = g\<lparr>g_net_links := nets, g_link_nets := m\<rparr>"
    using p by (simp only: prune_links.simps)
  then show ?case by blast
qed

lemma prune_app_link_net_only:
  obtains nets m where "prune_app_link_net e g i = g\<lparr>g_net_links := nets, g_link_nets := m\<rparr>"
  unfolding prune_app_link_net_def Let_def using prune_links_only by blast

lemma prune_app_link_net_keeps [simp]:
  "g_nodes (prune_app_link_net e g i) = g_nodes g" "g_args (prune_app_link_net e g i) = g_args g"
  "g_deps (prune_app_link_net e g i) = g_deps g" "g_names (prune_app_link_net e g i) = g_names g"
  "g_files (prune_app_link_net e g i) = g_files g" "g_ports (prune_app_link_net e g i) = g_ports g"
  "g_tokens (prune_app_link_net e g i) = g_tokens g" "g_iroh (prune_app_link_net e g i) = g_iroh g"
  "g_veilid (prune_app_link_net e g i) = g_veilid g" "g_notes (prune_app_link_net e g i) = g_notes g"
  "g_services (prune_app_link_net e g i) = g_services g" "g_boundaries (prune_app_link_net e g i) = g_boundaries g"
  "g_groups (prune_app_link_net e g i) = g_groups g" "g_connections (prune_app_link_net e g i) = g_connections g"
  "g_mount_paths (prune_app_link_net e g i) = g_mount_paths g" "g_serve_links (prune_app_link_net e g i) = g_serve_links g"
  "g_serve_ports (prune_app_link_net e g i) = g_serve_ports g" "g_captures (prune_app_link_net e g i) = g_captures g"
  "g_clipboards (prune_app_link_net e g i) = g_clipboards g" "g_apis (prune_app_link_net e g i) = g_apis g"
  "g_workspaces (prune_app_link_net e g i) = g_workspaces g"
  by (rule prune_app_link_net_only [of e g i], simp)+

lemmas place_defs =
  place_def place_app_def put_token_def place_file_def place_port_def place_note_node_def place_service_def place_multicast_def
  place_iroh_def place_veilid_def place_midi_in_def place_midi_out_def place_boundary_def place_group_def
  open_midi_device_def open_midi_out_device_def

lemmas edit_defs =
  set_pose_def set_node_pos_def set_node_size_def set_node_pos3d_def set_node_panel3d_def set_node_args_def set_note_text_def
  set_bind_path_def set_persist_def set_service_name_def set_service_target_def set_midi_device_def
  set_multicast_config_def set_node_token_def restore_token_def set_mount_def set_midi_channel_def set_serve_port_def
  apply_settings_def add_workspace_def restore_tab_def drop_tab_def open_midi_device_def open_midi_out_device_def

lemmas sync_defs = sync_mounts_def sync_channels_def sync_serves_def

lemmas toggle_defs = toggle_file_def toggle_serve_def toggle_capture_def toggle_clipboard_def toggle_api_def toggle_net_def

lemmas delete_defs =
  remove_file_node_def remove_host_port_def remove_net_node_def remove_uplink_node_def remove_multicast_node_def
  remove_capture_node_def remove_clipboard_node_def remove_api_node_def remove_midi_in_node_def remove_midi_out_node_def
  remove_boundary_port_def remove_member_def close_app_def forget_def forget_group_def

text \<open>The tables that belong to nodes; the moves that leave them, and the removals that are one \<open>forget\<close> for them.\<close>

definition core where
  "core g =
     (g_nodes g, g_args g, g_deps g, g_names g, g_files g, g_ports g, g_tokens g, g_iroh g, g_veilid g, g_notes g,
      g_services g, g_boundaries g, g_groups g)"

lemma core_prune [simp]: "core (prune_app_link_net e g i) = core g"
  by (simp add: core_def)

lemma quiet:
  "core (set_pose n g) = core g" "core (set_node_pos3d g i ps) = core g" "core (set_node_panel3d g i b) = core g"
  "core (set_midi_device e g i t) = core g" "core (set_multicast_config e g i cfg) = core g"
  "core (set_mount g x y t) = core g" "core (set_midi_channel g x y ch) = core g" "core (set_serve_port g x y p) = core g"
  "core (apply_settings w g) = core g" "core (sync_mounts g) = core g" "core (sync_channels g) = core g" "core (sync_serves g) = core g"
  "core (toggle_file g x y) = core g" "core (toggle_serve g x y) = core g" "core (toggle_capture g x y) = core g"
  "core (toggle_clipboard g x y) = core g" "core (toggle_api g x y) = core g" "core (toggle_net g x y) = core g"
  "core (sync_channels (g\<lparr>g_midi_links := ls\<rparr>)) = core g" "core (g\<lparr>g_link_nets := m\<rparr>) = core g"
  "core (add_workspace g i) = core g" "core (restore_tab x1 g) = core g" "core (drop_tab ws g) = core g"
  by (auto simp: core_def edit_defs sync_defs toggle_defs Let_def split: option.split gkind.split)

lemma forget_core: "core g' = core g \<Longrightarrow> core (forget g' i) = core (forget g i)"
  by (simp add: core_def forget_def)

lemma cut:
  "core (remove_file_node g i) = core (forget g i)" "core (remove_host_port g i) = core (forget g i)"
  "core (remove_net_node g i) = core (forget g i)" "core (remove_uplink_node g i) = core (forget g i)"
  "core (remove_multicast_node g i) = core (forget g i)" "core (remove_capture_node g i) = core (forget g i)"
  "core (remove_clipboard_node g i) = core (forget g i)" "core (remove_api_node g i) = core (forget g i)"
  "core (remove_midi_in_node e g i) = core (forget g i)" "core (remove_midi_out_node e g i) = core (forget g i)"
  "core (remove_member g i) = core (forget g i)" "core (remove_boundary_port e g i) = core (forget g i)"
  "core (close_app e g i) = core (forget g i)"
  by (simp_all add: core_def delete_defs sync_defs Let_def bt_remove_filter)

subsection \<open>Tabs\<close>

definition tabs_ok :: "canvas \<Rightarrow> bool" where
  "tabs_ok c \<longleftrightarrow> g_workspaces (fst c) \<noteq> [] \<and> distinct (g_workspaces (fst c))"

lemma insert_at_set [simp]: "set (insert_at k x xs) = insert x (set xs)"
  by (simp add: insert_at_def Let_def) (metis append_take_drop_id set_append Un_commute)

lemma insert_at_distinct: "distinct xs \<Longrightarrow> x \<notin> set xs \<Longrightarrow> distinct (insert_at k x xs)"
  by (auto simp: insert_at_def Let_def set_take_disj_set_drop_if_distinct dest: in_set_takeD in_set_dropD)

lemma insert_at_ne [simp]: "insert_at k x xs \<noteq> []"
  by (simp add: insert_at_def Let_def)

lemma drop_leaves_one: "distinct xs \<Longrightarrow> 1 < length xs \<Longrightarrow> filter (\<lambda>w. w \<noteq> x) xs \<noteq> []"
  by (cases xs rule: remdups_adj.cases) (auto simp: filter_empty_conv)

lemma tabs_move: "move c c' \<Longrightarrow> tabs_ok c \<Longrightarrow> tabs_ok c'"
  by (erule move.cases)
    (auto simp: tabs_ok_def place_defs edit_defs sync_defs toggle_defs delete_defs Let_def insert_at_distinct drop_leaves_one
      split: option.split file_node.split gkind.split)

interpretation tabs: move_law tabs_ok
  by unfold_locales (simp add: tabs_ok_def canvas_of_def server_empty_def graph_default_def, rule tabs_move)

subsection \<open>No entry outlives its node\<close>

definition has_entry :: "graph \<Rightarrow> node_id \<Rightarrow> bool" where
  "has_entry g i \<longleftrightarrow>
     map_of (g_args g) i \<noteq> None \<or> map_of (g_deps g) i \<noteq> None \<or> map_of (g_names g) i \<noteq> None \<or> map_of (g_files g) i \<noteq> None \<or>
     map_of (g_ports g) i \<noteq> None \<or> map_of (g_tokens g) i \<noteq> None \<or> map_of (g_iroh g) i \<noteq> None \<or>
     map_of (g_veilid g) i \<noteq> None \<or> map_of (g_notes g) i \<noteq> None \<or> map_of (g_services g) i \<noteq> None \<or>
     map_of (g_boundaries g) i \<noteq> None"

definition no_orphans :: "canvas \<Rightarrow> bool" where
  "no_orphans c \<longleftrightarrow> (\<forall>i. has_entry (fst c) i \<longrightarrow> node_exists (fst c) i)"

lemma no_orphans_local:
  assumes "no_orphans (g, r)"
    and "\<And>i. has_entry g' i \<Longrightarrow> \<not> node_exists g' i \<Longrightarrow> has_entry g i \<and> \<not> node_exists g i"
  shows "no_orphans (g', r')"
  using assms unfolding no_orphans_def by auto

lemma no_orphans_core: "core g' = core g \<Longrightarrow> no_orphans (g, r) \<Longrightarrow> no_orphans (g', r')"
  by (simp add: no_orphans_def has_entry_def node_exists_def core_def)

lemma no_orphans_forget: "no_orphans (g, r) \<Longrightarrow> no_orphans (forget g i, r')"
  by (rule no_orphans_local) (simp_all add: has_entry_def node_exists_def forget_def split: if_splits)

lemma no_orphans_cut: "core g' = core (forget g i) \<Longrightarrow> no_orphans (g, r) \<Longrightarrow> no_orphans (g', r')"
  by (rule no_orphans_core [OF _ no_orphans_forget])

lemma no_orphans_edit:
  "no_orphans (g, r) \<Longrightarrow> no_orphans (set_node_pos g i p, r)" "no_orphans (g, r) \<Longrightarrow> no_orphans (set_node_size g i p, r)"
  "no_orphans (g, r) \<Longrightarrow> no_orphans (set_node_args g i t, r)" "no_orphans (g, r) \<Longrightarrow> no_orphans (set_note_text g i t, r)"
  "no_orphans (g, r) \<Longrightarrow> no_orphans (set_bind_path g i t, r)" "no_orphans (g, r) \<Longrightarrow> no_orphans (set_persist g i b, r)"
  "no_orphans (g, r) \<Longrightarrow> no_orphans (set_service_name g i t, r)" "no_orphans (g, r) \<Longrightarrow> no_orphans (set_service_target g i t, r)"
  "no_orphans (g, r) \<Longrightarrow> no_orphans (restore_token i old g, r)"
  by (erule no_orphans_local;
      auto simp: has_entry_def node_exists_def edit_defs Let_def split: option.splits file_node.splits if_splits)+

lemma no_orphans_token: "no_orphans (g, r) \<Longrightarrow> no_orphans (set_node_token e g i t, r)"
  by (erule no_orphans_local)
    (auto simp: has_entry_def node_exists_def kind_of_def set_node_token_def split: if_splits)

lemma no_orphans_place:
  "no_orphans (g, r) \<Longrightarrow> no_orphans (place_app i dep name args ws pos sz g, r')"
  "no_orphans (g, r) \<Longrightarrow> no_orphans (place_file i f ws pos sz g, r)" "no_orphans (g, r) \<Longrightarrow> no_orphans (place_port i q ws pos sz g, r)"
  "no_orphans (g, r) \<Longrightarrow> no_orphans (place_note_node i t ws pos sz g, r)" "no_orphans (g, r) \<Longrightarrow> no_orphans (place g i k ws pos sz, r)"
  "no_orphans (g, r) \<Longrightarrow> no_orphans (place_service i svc ws pos sz g, r)"
  "no_orphans (g, r) \<Longrightarrow> no_orphans (place_multicast i cfg ws pos sz g, r)" "no_orphans (g, r) \<Longrightarrow> no_orphans (place_iroh i own ws pos sz g, r)"
  "no_orphans (g, r) \<Longrightarrow> no_orphans (place_veilid i idt ws pos sz g, r)" "no_orphans (g, r) \<Longrightarrow> no_orphans (place_midi_in e i d ws pos sz g, r)"
  "no_orphans (g, r) \<Longrightarrow> no_orphans (place_midi_out e i d ws pos sz g, r)" "no_orphans (g, r) \<Longrightarrow> no_orphans (place_boundary i bp ws pos sz g, r)"
  "no_orphans (g, r) \<Longrightarrow> no_orphans (place_group i gn ws pos sz g, r)"
  by (erule no_orphans_local; auto simp: has_entry_def node_exists_def place_defs split: option.splits if_splits)+

lemma no_orphans_move: "move c c' \<Longrightarrow> no_orphans c \<Longrightarrow> no_orphans c'"
proof (erule move.cases; clarify;
    ((rule no_orphans_core, (rule quiet; fail), assumption) | (rule no_orphans_cut, (rule cut; fail), assumption) |
     (rule no_orphans_place no_orphans_edit no_orphans_token no_orphans_forget, assumption) | (rule no_orphans_local, assumption))?)
qed (auto simp: has_entry_def node_exists_def put_token_def sync_serves_def forget_group_def forget_def no_orphans_def split: if_splits)

interpretation orphans: move_law no_orphans
  by unfold_locales
    (simp add: no_orphans_def has_entry_def canvas_of_def server_empty_def graph_default_def, rule no_orphans_move)

subsection \<open>Every node has what its saved form needs\<close>

definition in_reg :: "node_id \<Rightarrow> app_rec list \<Rightarrow> bool" where
  "in_reg i r \<longleftrightarrow> (\<exists>n \<in> set r. ap_id n = i)"

lemma in_reg_simps [simp]:
  "in_reg i (r @ [\<lparr>ap_id = j, ap_name = name, ap_options = os\<rparr>]) \<longleftrightarrow> i = j \<or> in_reg i r"
  "in_reg i (filter (\<lambda>n. ap_id n \<noteq> j) r) \<longleftrightarrow> i \<noteq> j \<and> in_reg i r"
  "in_reg i (map (\<lambda>n. if ap_id n = j then n\<lparr>ap_options := os\<rparr> else n) r) \<longleftrightarrow> in_reg i r"
  by (induction r) (auto simp: in_reg_def)

definition has_payload :: "graph \<Rightarrow> app_rec list \<Rightarrow> node_id \<Rightarrow> gkind \<Rightarrow> bool" where
  "has_payload g r i k =
     (case k of
        KdApp \<Rightarrow> in_reg i r
      | KdFile \<Rightarrow> map_of (g_files g) i \<noteq> None
      | KdPort \<Rightarrow> map_of (g_ports g) i \<noteq> None
      | KdHostService \<Rightarrow> map_of (g_services g) i \<noteq> None
      | KdBoundary \<Rightarrow> map_of (g_boundaries g) i \<noteq> None
      | KdGroup \<Rightarrow> map_of (g_groups g) i \<noteq> None
      | _ \<Rightarrow> True)"

definition payloads_ok :: "canvas \<Rightarrow> bool" where
  "payloads_ok c \<longleftrightarrow> (\<forall>i x. map_of (g_nodes (fst c)) i = Some x \<longrightarrow> has_payload (fst c) (snd c) i (nr_kind x))"

lemma map_of_unline: "map_of (map (\<lambda>(j, gn). (j, unline i gn)) m) k = map_option (unline i) (map_of m k)"
  by (induction m) auto

lemma has_payload_simps [simp]:
  "has_payload g r i KdApp \<longleftrightarrow> in_reg i r" "has_payload g r i KdFile \<longleftrightarrow> map_of (g_files g) i \<noteq> None"
  "has_payload g r i KdPort \<longleftrightarrow> map_of (g_ports g) i \<noteq> None" "has_payload g r i KdHostService \<longleftrightarrow> map_of (g_services g) i \<noteq> None"
  "has_payload g r i KdBoundary \<longleftrightarrow> map_of (g_boundaries g) i \<noteq> None" "has_payload g r i KdGroup \<longleftrightarrow> map_of (g_groups g) i \<noteq> None"
  "has_payload g r i KdMidiIn" "has_payload g r i KdMidiOut" "has_payload g r i KdNote" "has_payload g r i KdMulticast"
  "has_payload g r i KdIroh" "has_payload g r i KdVeilid" "plain_kind k \<Longrightarrow> has_payload g r i k"
  by (auto simp: has_payload_def plain_kind_def)

text \<open>A payload depends on the tables and the registry at the node alone.\<close>

lemma has_payload_local:
  assumes "has_payload g r i k" "in_reg i r \<Longrightarrow> in_reg i r'"
    "map_of (g_files g) i \<noteq> None \<Longrightarrow> map_of (g_files g') i \<noteq> None"
    "map_of (g_ports g) i \<noteq> None \<Longrightarrow> map_of (g_ports g') i \<noteq> None"
    "map_of (g_services g) i \<noteq> None \<Longrightarrow> map_of (g_services g') i \<noteq> None"
    "map_of (g_boundaries g) i \<noteq> None \<Longrightarrow> map_of (g_boundaries g') i \<noteq> None"
    "map_of (g_groups g) i \<noteq> None \<Longrightarrow> map_of (g_groups g') i \<noteq> None"
  shows "has_payload g' r' i k"
  using assms by (cases k) (auto simp: has_payload_def)

lemma payloads_local:
  assumes ok: "payloads_ok (g, r)"
    and nodes: "\<And>i x. map_of (g_nodes g') i = Some x \<Longrightarrow>
      (\<exists>y. map_of (g_nodes g) i = Some y \<and> nr_kind y = nr_kind x) \<or> has_payload g' r' i (nr_kind x)"
    and kept: "\<And>i. node_exists g' i \<Longrightarrow> in_reg i r \<Longrightarrow> in_reg i r'"
      "\<And>i. node_exists g' i \<Longrightarrow> map_of (g_files g) i \<noteq> None \<Longrightarrow> map_of (g_files g') i \<noteq> None"
      "\<And>i. node_exists g' i \<Longrightarrow> map_of (g_ports g) i \<noteq> None \<Longrightarrow> map_of (g_ports g') i \<noteq> None"
      "\<And>i. node_exists g' i \<Longrightarrow> map_of (g_services g) i \<noteq> None \<Longrightarrow> map_of (g_services g') i \<noteq> None"
      "\<And>i. node_exists g' i \<Longrightarrow> map_of (g_boundaries g) i \<noteq> None \<Longrightarrow> map_of (g_boundaries g') i \<noteq> None"
      "\<And>i. node_exists g' i \<Longrightarrow> map_of (g_groups g) i \<noteq> None \<Longrightarrow> map_of (g_groups g') i \<noteq> None"
  shows "payloads_ok (g', r')"
  unfolding payloads_ok_def fst_conv snd_conv
proof (intro allI impI)
  fix i x
  assume n: "map_of (g_nodes g') i = Some x"
  then have e: "node_exists g' i" by (simp add: node_exists_def)
  from nodes [OF n] show "has_payload g' r' i (nr_kind x)"
  proof
    assume "\<exists>y. map_of (g_nodes g) i = Some y \<and> nr_kind y = nr_kind x"
    then have "has_payload g r i (nr_kind x)" using ok by (metis payloads_ok_def fst_conv snd_conv)
    then show ?thesis using kept [OF e] by (rule has_payload_local)
  qed
qed

lemma payloads_core:
  assumes "core g' = core g" "payloads_ok (g, r)" "\<And>i. node_exists g i \<Longrightarrow> in_reg i r \<Longrightarrow> in_reg i r'"
  shows "payloads_ok (g', r')"
  by (rule payloads_local [OF assms(2)])
    (use assms(1) in \<open>simp_all add: core_def node_exists_def\<close>, use assms(1,3) in \<open>simp add: core_def node_exists_def\<close>)

lemma payloads_forget:
  assumes "payloads_ok (g, r)" "\<And>j. j \<noteq> i \<Longrightarrow> in_reg j r \<Longrightarrow> in_reg j r'"
  shows "payloads_ok (forget g i, r')"
  by (rule payloads_local [OF assms(1)]) (auto simp: node_exists_def forget_def map_of_unline assms(2) split: if_splits)

lemma payloads_cut:
  assumes "core g' = core (forget g i)" "payloads_ok (g, r)" "\<And>j. j \<noteq> i \<Longrightarrow> in_reg j r \<Longrightarrow> in_reg j r'"
  shows "payloads_ok (g', r')"
  using payloads_core [OF assms(1) payloads_forget [OF assms(2,3)]] by auto

lemma payloads_move: "move c c' \<Longrightarrow> payloads_ok c \<Longrightarrow> payloads_ok c'"
  by (erule move.cases; clarify;
      ((rule payloads_core, (rule quiet; fail), assumption, assumption) | (rule payloads_cut, (rule cut; fail), assumption, force) |
       (rule payloads_local, assumption)))
    (auto simp: node_exists_def kind_of_def place_defs edit_defs sync_serves_def forget_def forget_group_def Let_def map_of_unline
      split: option.splits file_node.splits if_splits)

interpretation payloads: move_law payloads_ok
  by unfold_locales (simp add: payloads_ok_def canvas_of_def server_empty_def graph_default_def, rule payloads_move)

subsection \<open>Wires\<close>

definition wires_ok :: "canvas \<Rightarrow> bool" where
  "wires_ok c \<longleftrightarrow>
     fst ` set (g_mount_paths (fst c)) \<subseteq> set (g_connections (fst c)) \<and>
     fst ` set (g_serve_ports (fst c)) \<subseteq> set (g_serve_links (fst c)) \<and>
     one_dest (g_serve_links (fst c)) \<and> one_dest (g_captures (fst c)) \<and> one_dest (g_clipboards (fst c)) \<and> one_dest (g_apis (fst c))"

lemma prune_side_map_keys: "fst ` set (prune_side_map m ls) \<subseteq> set ls"
  by (auto simp: prune_side_map_def)

lemma prune_side_map_sub: "fst ` set m \<subseteq> S \<Longrightarrow> fst ` set (prune_side_map m ls) \<subseteq> S"
  by (auto simp: prune_side_map_def)

lemma wires_move: "move c c' \<Longrightarrow> wires_ok c \<Longrightarrow> wires_ok c'"
  by (erule move.cases)
    (auto simp: wires_ok_def place_defs edit_defs sync_defs toggle_defs delete_defs Let_def untouched_def not_from_def not_to_def
      prune_side_map_def unique_links.wf_toggle
      split: option.splits file_node.splits gkind.splits if_splits)

interpretation wires: move_law wires_ok
  by unfold_locales (simp add: wires_ok_def one_dest_def canvas_of_def server_empty_def graph_default_def, rule wires_move)

end
