(* ===== verification/Srv_Props.thy ===== *)
theory Srv_Props
  imports Srv_Inv
begin

text \<open>
  What is shown of the running server: its tables stay consistent, what is on a tab is saved,
  settings belong to wires. A small session serves the witnesses.
\<close>

subsection \<open>A session\<close>

definition demo_rt :: runtime where
  "demo_rt =
     \<lparr>rt_id = (\<lambda>k. 100 + of_nat k), rt_sha = toy_sha, rt_loading = (\<lambda>i. False), rt_serves_fs = (\<lambda>i. False),
      rt_imports_net = (\<lambda>i. True), rt_iroh = (\<lambda>i x. None), rt_veilid = (\<lambda>i x. None), rt_mcast = (\<lambda>i c. True),
      rt_midi_in = (\<lambda>i w. None), rt_midi_out = (\<lambda>i w. None), rt_token_ok = (\<lambda>t. True), rt_sidecar = (\<lambda>i. []),
      rt_effective = (\<lambda>d. []), rt_plus40 = (\<lambda>x. x), rt_order = (\<lambda>xs. xs), rt_order_links = (\<lambda>xs. xs)\<rparr>"

text \<open>A document with one tab that holds a volume; the client adds a port and deletes the volume.\<close>

definition demo_tab :: workspace where
  "demo_tab = (workspace_new 1)\<lparr>ws_nodes := [snap_of 10 (SkVolume ''file1'' False)]\<rparr>"

definition demo_start :: server where
  "demo_start =
     on_graph (place_file 10 (FnVolume ''file1'' [] False) 1 (0, 0) (0, 0))
       ((server_empty [] [demo_tab] None)\<lparr>sv_file_seq := 1\<rparr>)"

lemma demo_expand: "expand toy_sha [demo_tab] = Some (Inr [])"
  by (simp add: expand_def definitions_def demo_tab_def workspace_new_def snap_of_def local_names_def groups_in_def)

lemmas load_defs =
  instantiate_def materialize_def materialize_plain_def server_empty_def graph_default_def on_graph_def place_file_def place_def
  set_pose_def node_exists_def apply_wires_def wires_of_def apply_settings_def insert_all_def sync_defs prune_side_map_def
  orphan_wires_def

lemma demo_loads: "server_new demo_rt [] [demo_tab] None = Some (Inr demo_start)"
proof -
  have "seq_after ''file'' ''file1'' 0 = 1"
    by (simp add: seq_after_def parse_u32_def unsigned_digits_def digit_value_def max_def)
  then show ?thesis
    by (simp add: server_new_def demo_expand demo_rt_def)
      (simp add: demo_start_def demo_tab_def workspace_new_def snap_of_def load_defs)
qed

lemma demo_start_reachable: "srv_reachable demo_start"
  by (rule r_new [OF demo_loads]) (simp_all add: demo_tab_def workspace_new_def)

definition demo_add :: command where
  "demo_add = CmdCreate (ResNode NkPort (0, 0) 1)"

definition demo_port :: server where
  "demo_port =
     record_undo (UUncreate [100])
       (on_graph (place_port 100 8080 1 (0, 0) file_size) (demo_start\<lparr>sv_ids := 1, sv_next_port := 8081\<rparr>))"

lemma demo_adds: "apply_command demo_rt demo_add demo_start = Some demo_port"
  by (simp add: apply_command_def demo_add_def create_node_def add_host_port_def alloc_id_def Let_def record_created_def
      demo_port_def demo_rt_def demo_start_def load_defs place_port_def)

lemma demo_port_reachable: "srv_reachable demo_port"
  by (rule r_step [OF demo_start_reachable s_command [OF demo_adds]])

subsection \<open>Consistency\<close>

text \<open>
  C2: In every state a server reaches after loading a document, whatever the commands, undos
  and ticks and whatever its guests do, each entry of a side table that removal clears (launch
  arguments, dependencies, names, files, ports, tokens, uplink secrets, notes, services,
  boundary ports) belongs to a node that is on the canvas; the document has at least one tab and
  no tab twice; the undo history holds at most 200 entries.
\<close>
theorem server_stays_consistent:
  assumes "srv_reachable s"
  shows "(\<forall>i. has_entry (sv_graph s) i \<longrightarrow> node_exists (sv_graph s) i) \<and>
    g_workspaces (sv_graph s) \<noteq> [] \<and> distinct (g_workspaces (sv_graph s)) \<and> length (sv_undo s) \<le> 200"
  using orphans.law_reachable [OF assms] tabs.law_reachable [OF assms] reachable_commanded [OF assms]
  by (auto simp: no_orphans_def tabs_ok_def canvas_of_def commanded_def server_empty_def undo_cap_def)

theorem server_stays_consistent_witness:
  "map_of (g_ports (sv_graph demo_port)) 100 = Some 8080 \<and> node_exists (sv_graph demo_port) 100 \<and> length (sv_undo demo_port) \<le> 200"
  using server_stays_consistent [OF demo_port_reachable]
  by (auto simp: demo_port_def record_undo_def Let_def on_graph_def place_port_def has_entry_def)

subsection \<open>Saving\<close>

lemma snap_node_ok:
  assumes "srv_reachable s" "map_of (g_nodes (sv_graph s)) i = Some r"
  shows "\<exists>n. snap_node e s i = Some n \<and> sn_id n = i \<and> sn_pos n = nr_pos r \<and> sn_size n = nr_size r"
proof -
  have "has_payload (sv_graph s) (sv_reg s) i (nr_kind r)"
    using payloads.law_reachable [OF assms(1)] assms(2) by (simp add: payloads_ok_def canvas_of_def)
  moreover have "in_reg i (sv_reg s) \<longleftrightarrow> app_node s i \<noteq> None"
    by (auto simp: in_reg_def app_node_def find_None_iff)
  ultimately have "kind_snap e s i (nr_kind r) \<noteq> None"
    by (cases "nr_kind r") (auto simp: kind_snap_def has_payload_def app_snap_def Let_def)
  then show ?thesis using assms(2) by (auto simp: snap_node_def)
qed

lemma map_filter_mem: "i \<in> set xs \<Longrightarrow> f i = Some n \<Longrightarrow> n \<in> set (List.map_filter f xs)"
  by (induction xs) (auto split: option.split)

lemma saved_nodes_mem:
  assumes "srv_reachable s" "map_of (g_nodes (sv_graph s)) i = Some r"
  shows "\<exists>n \<in> set (saved_nodes e s (nr_ws r)). snap_node e s i = Some n"
proof -
  obtain n where n: "snap_node e s i = Some n" using snap_node_ok [OF assms] by blast
  have "(i, r) \<in> set (filter (\<lambda>(_, x). nr_ws x = nr_ws r) (g_nodes (sv_graph s)))"
    using assms(2) by (auto dest: map_of_SomeD)
  then have "i \<in> set (map fst (sort_key (\<lambda>(i, r). (kind_index (nr_kind r), i)) (filter (\<lambda>(_, x). nr_ws x = nr_ws r) (g_nodes (sv_graph s)))))"
    unfolding list.set_map set_sort by (rule image_eqI [rotated]) simp
  then have "n \<in> set (List.map_filter (snap_node e s) (map fst (sort_key (\<lambda>(i, r). (kind_index (nr_kind r), i)) (filter (\<lambda>(_, x). nr_ws x = nr_ws r) (g_nodes (sv_graph s))))))"
    using n by (rule map_filter_mem)
  then have "n \<in> set (saved_nodes e s (nr_ws r))" unfolding saved_nodes_def set_append by (rule UnI1)
  then show ?thesis using n by (rule bexI [rotated])
qed

lemma save_keeps: "w \<in> set ws \<Longrightarrow> w \<in> set (fold (\<lambda>(k, x). insert_at k x) xs ws)"
  by (induction xs arbitrary: ws) auto

lemma save_authored: "(k, x) \<in> set xs \<Longrightarrow> x \<in> set (fold (\<lambda>(k, x). insert_at k x) xs ws)"
  by (induction xs arbitrary: ws) (auto intro: save_keeps)



subsection \<open>Wires\<close>

text \<open>
  C12: In every state a server reaches, a mount path belongs to a bind that exists and a guest
  port to a serve wire that exists, and an app serves on one port, and has one screen, one
  clipboard and one API node, at most.
\<close>
theorem settings_belong_to_wires:
  assumes "srv_reachable s"
  shows "fst ` set (g_mount_paths (sv_graph s)) \<subseteq> set (g_connections (sv_graph s)) \<and>
    fst ` set (g_serve_ports (sv_graph s)) \<subseteq> set (g_serve_links (sv_graph s)) \<and>
    one_dest (g_serve_links (sv_graph s)) \<and> one_dest (g_captures (sv_graph s)) \<and>
    one_dest (g_clipboards (sv_graph s)) \<and> one_dest (g_apis (sv_graph s))"
  using wires.law_reachable [OF assms] by (simp add: wires_ok_def canvas_of_def)

theorem settings_belong_to_wires_witness: "one_dest (g_serve_links (sv_graph demo_port))"
  using settings_belong_to_wires [OF demo_port_reachable] by simp

end
