(* ===== verification/Srv_Undo.thy ===== *)
theory Srv_Undo
  imports Srv_Props
begin

text \<open>
  Undo (\<open>apply_undo\<close> of \<open>crates/wk-server/src/server.rs\<close>) against the command it takes back: what a
  document says of a node (\<open>snap_node\<close>) after a deletion or a creation was undone is what it said before.
  A node is followed through the commands by \<open>looks\<close>, its entries in every table; wires and group lines
  leave those tables alone (\<open>wire_only\<close>).
\<close>


subsection \<open>What is known of one node\<close>

definition looks where
  "looks s j =
     (let g = sv_graph s
      in (map_of (g_nodes g) j, map_of (g_args g) j, map_of (g_deps g) j, map_of (g_names g) j, map_of (g_pos3d g) j,
          map_of (g_hidden g) j, map_of (g_files g) j, map_of (g_ports g) j, map_of (g_notes g) j, map_of (g_midi_ins g) j,
          map_of (g_midi_outs g) j, map_of (g_multicasts g) j, map_of (g_services g) j, map_of (g_boundaries g) j,
          map_of (g_tokens g) j, map_of (g_iroh g) j, map_of (g_veilid g) j, app_node s j))"

lemma snap_node_looks:
  assumes "looks s' j = looks s j"
    and "kind_of (sv_graph s) j = Some KdGroup \<Longrightarrow> map_of (g_groups (sv_graph s')) j = map_of (g_groups (sv_graph s)) j"
  shows "snap_node e s' j = snap_node e s j"
proof -
  have "kind_snap e s' j k = kind_snap e s j k" if "kind_of (sv_graph s) j = Some k" for k
    using assms that by (cases k) (simp_all add: looks_def kind_snap_def app_snap_def peer_ticket_def Let_def)
  then show ?thesis
    using assms(1) by (auto simp: snap_node_def looks_def kind_of_def Let_def split: option.split)
qed

subsection \<open>Wires leave the tables\<close>

definition tables where
  "tables g =
     (g_nodes g, g_args g, g_deps g, g_names g, g_pos3d g, g_hidden g, g_files g, g_ports g, g_notes g, g_midi_ins g,
      g_midi_outs g, g_multicasts g, g_services g, g_boundaries g, g_tokens g, g_iroh g, g_veilid g)"

lemma tables_net [simp]: "tables (toggle_net g a b) = tables g" "tables (g\<lparr>g_link_nets := m\<rparr>) = tables g"
  by (simp_all add: tables_def toggle_net_def)

lemma tables_part [simp]: "tables (part_links keys g) = tables g"
  by (induction keys g rule: part_links.induct) (simp_all split: option.split)

lemma tables_join [simp]: "tables (fst (join_links e keys k g)) = tables g"
  by (induction e keys k g rule: join_links.induct) (simp_all add: Let_def)

lemma tables_prune [simp]: "tables (prune_app_link_net e g i) = tables g"
  by (rule prune_app_link_net_only [of e g i]) (simp add: tables_def)

definition wire_only :: "server \<Rightarrow> server \<Rightarrow> bool" where
  "wire_only s s' \<longleftrightarrow> tables (sv_graph s') = tables (sv_graph s) \<and> sv_reg s' = sv_reg s"

lemma wire_only_refl [simp, intro]: "wire_only s s"
  by (simp add: wire_only_def)

lemma wire_only_trans [trans]: "wire_only s s' \<Longrightarrow> wire_only s' s'' \<Longrightarrow> wire_only s s''"
  by (simp add: wire_only_def)

lemma wire_only_looks: "wire_only s s' \<Longrightarrow> looks s' j = looks s j"
  by (simp add: wire_only_def looks_def tables_def app_node_def Let_def)

lemma wire_only_toggle: "wire_only s (srv_toggle e rel a b s)"
proof (cases rel)
  case RMidi
  have "tables (sync_channels (g\<lparr>g_midi_links := ls\<rparr>)) = tables g" for g ls by (simp add: tables_def sync_channels_def)
  with RMidi show ?thesis
    by (simp add: wire_only_def srv_toggle_def srv_toggle_midi_def toggle_midi_def sync_app_link_nets_def split_beta Let_def)
qed (simp_all add: wire_only_def srv_toggle_def on_graph_def,
     simp_all add: tables_def toggle_file_def toggle_serve_def toggle_capture_def toggle_clipboard_def toggle_api_def
       sync_mounts_def sync_serves_def)

lemma wire_only_connect: "wire_only s (connect_toggle e s a b)"
  using wire_only_toggle by (auto simp: connect_toggle_def split: option.split wire.split) (simp_all add: wire_only_def)

lemma wire_only_rewire: "wire_only s (rewire e ws s)"
  by (induction e ws s rule: rewire.induct) (auto intro: wire_only_trans wire_only_connect)

lemma wire_only_unwire: "wire_only s (unwire_all e ws s)"
  by (induction e ws s rule: unwire_all.induct)
    (auto simp: unwire_rel_def split: prod.split intro: wire_only_trans wire_only_toggle)

lemma wire_only_links: "wire_only s (fst (apply_links e ws s made))"
  by (induction e ws s made rule: apply_links.induct) (auto intro: wire_only_trans wire_only_toggle)

lemma wire_only_apply: "wire_only s (fst (apply_wires e w s))"
proof -
  have "wire_only s1 (on_graph (apply_settings w) s1)" for s1
    by (simp add: wire_only_def on_graph_def apply_settings_def tables_def sync_defs Let_def)
  then show ?thesis
    using wire_only_links [of s e "wires_of w" "[]"] by (auto simp: apply_wires_def split: prod.split intro: wire_only_trans)
qed

lemma wire_only_inst [simp]: "wire_only s (set_inst_wires i made s)"
  by (simp add: wire_only_def set_inst_wires_def split: option.split)

lemma wire_only_move: "wire_only s (move_wires e xs s)"
proof (induction e xs s rule: move_wires.induct)
  case (2 e x xs s)
  show ?case
  proof (cases "map_of (sv_instances s) (in_id x)")
    case (Some r)
    let ?want = "wires_of (in_content x)"
    let ?s1 = "unwire_all e (filter (\<lambda>w. w \<notin> set ?want) (ir_wires r)) (set_inst_wires (in_id x) [] s)"
    let ?a = "apply_wires e (in_content x) ?s1"
    let ?s2 = "set_inst_wires (in_id x) (filter (\<lambda>w. w \<in> set ?want) (ir_wires r) @ snd ?a) (fst ?a)"
    have "wire_only s (set_inst_wires (in_id x) [] s)" by simp
    also have "wire_only \<dots> ?s1" by (rule wire_only_unwire)
    also have "wire_only ?s1 (fst ?a)" by (rule wire_only_apply)
    also have "wire_only (fst ?a) ?s2" by simp
    also have "wire_only ?s2 (move_wires e xs ?s2)" using 2(2) [OF Some refl refl, of ?a "fst ?a" "snd ?a"] by simp
    finally show ?thesis using Some by (simp add: Let_def split_beta)
  qed (use 2(1) in auto)
qed simp

lemma wire_only_group [simp]: "wire_only s (set_group i gn s)"
  by (simp add: wire_only_def set_group_def on_graph_def tables_def)

lemma wire_only_boundary: "set_boundary_wire e s bw on = Some s' \<Longrightarrow> wire_only s s'"
  by (auto simp: set_boundary_wire_def rewire_group_def split: option.splits sum.splits
      intro: wire_only_trans [OF wire_only_group] wire_only_move wire_only_group)

lemma wire_only_lines: "set_lines e bws s = Some s' \<Longrightarrow> wire_only s s'"
  by (induction e bws s rule: set_lines.induct) (auto split: option.splits intro: wire_only_trans wire_only_boundary)

subsection \<open>Removing a node\<close>

lemma remove_any_plain: "kind_of (sv_graph s) i \<noteq> Some KdGroup \<Longrightarrow> remove_any e s i = Some (remove_plain e s i)"
  by (simp add: remove_any_def remove_run.simps [of e "[RmAny i]"] remove_run.simps [of e "[]"])

lemmas plain_removal = remove_plain_def on_graph_def delete_defs close_node_def sync_defs Let_def

lemma prune_keeps_rest [simp]:
  "g_pos3d (prune_app_link_net e g i) = g_pos3d g" "g_hidden (prune_app_link_net e g i) = g_hidden g"
  "g_midi_ins (prune_app_link_net e g i) = g_midi_ins g" "g_midi_outs (prune_app_link_net e g i) = g_midi_outs g"
  "g_multicasts (prune_app_link_net e g i) = g_multicasts g"
  by (rule prune_app_link_net_only [of e g i], simp)+

text \<open>What a removal leaves of the node, and of the other nodes.\<close>

lemma remove_plain_gone:
  assumes "kind_of (sv_graph s) i = Some k" "k \<noteq> KdGroup"
  shows "map_of (g_nodes (sv_graph (remove_plain e s i))) i = None \<and>
    map_of (g_pos3d (sv_graph (remove_plain e s i))) i = None \<and> map_of (g_hidden (sv_graph (remove_plain e s i))) i = None"
  using assms by (cases k) (simp_all add: plain_removal)

lemma find_filter_other: "j \<noteq> i \<Longrightarrow> List.find (\<lambda>n. ap_id n = j) (filter (\<lambda>n. ap_id n \<noteq> i) r) = List.find (\<lambda>n. ap_id n = j) r"
  by (induction r) auto

lemma remove_plain_others:
  assumes "kind_of (sv_graph s) i = Some k" "j \<noteq> i"
  shows "looks (remove_plain e s i) j = looks s j"
  using assms by (cases k) (simp_all add: looks_def app_node_def find_filter_other plain_removal)

lemma map_of_unlined:
  assumes "\<And>gn. map_of m j = Some gn \<Longrightarrow> unline i gn = gn"
  shows "map_of (map (\<lambda>(j, gn). (j, unline i gn)) m) j = map_of m j"
  using assms by (cases "map_of m j") (simp_all add: map_of_unline)

lemma remove_plain_groups:
  assumes "kind_of (sv_graph s) i = Some k" "k \<noteq> KdGroup"
  shows "g_groups (sv_graph (remove_plain e s i)) = map (\<lambda>(j, gn). (j, unline i gn)) (g_groups (sv_graph s))"
  using assms by (cases k) (simp_all add: plain_removal)

subsection \<open>Undoing a deletion\<close>

definition rests :: "gkind \<Rightarrow> bool" where
  "rests k \<longleftrightarrow> k \<notin> {KdApp, KdGroup, KdIroh, KdVeilid}"

definition restores :: "runtime \<Rightarrow> node_id \<Rightarrow> bool" where
  "restores e i \<longleftrightarrow>
     (\<forall>cfg. rt_mcast e i cfg) \<and> (\<forall>d. rt_midi_in e i d \<in> {None, Some d}) \<and> (\<forall>d. rt_midi_out e i d \<in> {None, Some d})"

lemma materialize_plain_restores:
  assumes "kind_snap e s (sn_id n) k = Some (sn_kind n)" "rests k" "restores e' (sn_id n)"
  shows "map_of (g_nodes (sv_graph (materialize_plain e' s1 ws n data))) (sn_id n) =
      Some \<lparr>nr_kind = k, nr_ws = ws, nr_pos = sn_pos n, nr_size = sn_size n\<rparr> \<and>
    kind_snap e' (materialize_plain e' s1 ws n data) (sn_id n) k = Some (sn_kind n) \<and>
    g_pos3d (sv_graph (materialize_plain e' s1 ws n data)) = g_pos3d (sv_graph s1) \<and>
    g_hidden (sv_graph (materialize_plain e' s1 ws n data)) = g_hidden (sv_graph s1)"
proof (cases k)
  case KdFile
  then obtain f where "sn_kind n = (case f of FnVolume name data persist \<Rightarrow> SkVolume name persist | FnBind name path \<Rightarrow> SkBindMount path)"
    using assms(1) by (auto simp: kind_snap_def Let_def eq_commute [of "sn_kind n"])
  then show ?thesis using KdFile by (cases f) (simp_all add: materialize_plain_def kind_snap_def on_graph_def place_defs Let_def)
next
  case KdBoundary
  then obtain p :: boundary_port where "sn_kind n = (case bp_dir p of In \<Rightarrow> SkInPort (bp_name p) (bp_kind p) | Out \<Rightarrow> SkOutPort (bp_name p) (bp_kind p))"
    using assms(1) by (auto simp: kind_snap_def Let_def eq_commute [of "sn_kind n"])
  then show ?thesis using KdBoundary by (cases "bp_dir p") (simp_all add: materialize_plain_def kind_snap_def on_graph_def place_defs Let_def)
next
  case KdPort
  then obtain q where "sn_kind n = SkPort q" using assms(1) by (auto simp: kind_snap_def Let_def eq_commute [of "sn_kind n"])
  then show ?thesis using KdPort by (simp add: materialize_plain_def kind_snap_def on_graph_def place_defs Let_def)
next
  case KdHostService
  then obtain a b where "sn_kind n = SkHostService a b" using assms(1) by (auto simp: kind_snap_def Let_def eq_commute [of "sn_kind n"])
  then show ?thesis using KdHostService by (simp add: materialize_plain_def kind_snap_def on_graph_def place_defs Let_def)
next
  case KdMidiIn
  then obtain d where d: "sn_kind n = SkMidiIn d" using assms(1) by (auto simp: kind_snap_def Let_def eq_commute [of "sn_kind n"])
  have "rt_midi_in e' (sn_id n) d \<in> {None, Some d}" using assms(3) by (simp add: restores_def)
  then show ?thesis
    using KdMidiIn d by (auto simp: materialize_plain_def kind_snap_def on_graph_def place_defs Let_def get_or_def split: option.split)
next
  case KdMidiOut
  then obtain d where d: "sn_kind n = SkMidiOut d" using assms(1) by (auto simp: kind_snap_def Let_def eq_commute [of "sn_kind n"])
  have "rt_midi_out e' (sn_id n) d \<in> {None, Some d}" using assms(3) by (simp add: restores_def)
  then show ?thesis
    using KdMidiOut d by (auto simp: materialize_plain_def kind_snap_def on_graph_def place_defs Let_def get_or_def split: option.split)
next
  case KdMulticast
  then obtain a b where "sn_kind n = SkMulticast a b" using assms(1) by (auto simp: kind_snap_def Let_def eq_commute [of "sn_kind n"])
  then show ?thesis
    using KdMulticast assms(3)
    by (simp add: materialize_plain_def kind_snap_def on_graph_def place_defs Let_def create_multicast_def restores_def get_or_def)
qed (use assms in \<open>simp_all add: kind_snap_def Let_def rests_def eq_commute [of _ "sn_kind n"]\<close>,
    simp_all add: materialize_plain_def kind_snap_def on_graph_def place_defs get_or_def Let_def)

lemma kind_snap_pose: "kind_snap e (on_graph (set_pose n) s) i k = kind_snap e s i k"
  by (cases k) (simp_all add: kind_snap_def app_snap_def app_node_def peer_ticket_def on_graph_def set_pose_def Let_def split: option.split)

definition app_or_group :: "snap_kind \<Rightarrow> bool" where
  "app_or_group k = (case k of SkApp a b c d x \<Rightarrow> True | _ \<Rightarrow> is_group k)"

lemma kind_snap_plain:
  assumes "kind_snap e s i k = Some kk" "rests k"
  shows "\<not> app_or_group kk"
proof -
  have "\<not> app_or_group (case f of FnVolume name data persist \<Rightarrow> SkVolume name persist | FnBind name path \<Rightarrow> SkBindMount path)" for f
    by (cases f) (simp_all add: app_or_group_def)
  moreover have "\<not> app_or_group (case bp_dir p of In \<Rightarrow> SkInPort (bp_name p) (bp_kind p) | Out \<Rightarrow> SkOutPort (bp_name p) (bp_kind p))" for p :: boundary_port
    by (cases "bp_dir p") (simp_all add: app_or_group_def)
  moreover have "\<not> app_or_group (SkMulticast a b)" for a b by (simp add: app_or_group_def)
  ultimately show ?thesis
    using assms by (cases k) (auto simp: kind_snap_def rests_def Let_def app_or_group_def)
qed

lemma materialize_not_app:
  assumes "\<not> app_or_group (sn_kind n)"
  shows "materialize e s ws n data = Some (on_graph (set_pose n) (materialize_plain e s ws n data))"
  using assms by (cases "sn_kind n") (simp_all add: materialize_def app_or_group_def)

lemma snap_nodeD:
  assumes "snap_node e s i = Some n" "kind_of (sv_graph s) i = Some k"
  shows "sn_id n = i" "kind_snap e s i k = Some (sn_kind n)"
  using assms by (auto simp: snap_node_def kind_of_def split: option.splits)

lemma materialize_restores:
  assumes n: "snap_node e s i = Some n" and k: "kind_of (sv_graph s) i = Some k" "rests k" and e': "restores e' i"
    and gone: "map_of (g_pos3d (sv_graph s1)) i = None" "map_of (g_hidden (sv_graph s1)) i = None"
  shows "materialize e' s1 ws n data = Some (on_graph (set_pose n) (materialize_plain e' s1 ws n data))"
    and "snap_node e' (on_graph (set_pose n) (materialize_plain e' s1 ws n data)) i = Some n"
    and "map_of (g_nodes (sv_graph (on_graph (set_pose n) (materialize_plain e' s1 ws n data)))) i =
      Some \<lparr>nr_kind = k, nr_ws = ws, nr_pos = sn_pos n, nr_size = sn_size n\<rparr>"
proof -
  note i = snap_nodeD [OF n k(1)]
  show "materialize e' s1 ws n data = Some (on_graph (set_pose n) (materialize_plain e' s1 ws n data))"
    by (rule materialize_not_app [OF kind_snap_plain [OF i(2) k(2)]])
  let ?p = "materialize_plain e' s1 ws n data"
  have p: "map_of (g_nodes (sv_graph ?p)) i = Some \<lparr>nr_kind = k, nr_ws = ws, nr_pos = sn_pos n, nr_size = sn_size n\<rparr>"
    "kind_snap e' ?p i k = Some (sn_kind n)" "g_pos3d (sv_graph ?p) = g_pos3d (sv_graph s1)" "g_hidden (sv_graph ?p) = g_hidden (sv_graph s1)"
    using materialize_plain_restores [of e s n k e' s1 ws data] i k(2) e' by auto
  then show nodes: "map_of (g_nodes (sv_graph (on_graph (set_pose n) ?p))) i =
      Some \<lparr>nr_kind = k, nr_ws = ws, nr_pos = sn_pos n, nr_size = sn_size n\<rparr>"
    by (simp add: on_graph_def set_pose_def Let_def split: option.split)
  have pose: "map_of (g_pos3d (sv_graph (on_graph (set_pose n) ?p))) i = sn_pos3d n"
    "(map_of (g_hidden (sv_graph (on_graph (set_pose n) ?p))) i = None) = sn_panel3d n"
    using gone p(3,4) i(1) by (auto simp: on_graph_def set_pose_def Let_def split: option.split)
  show "snap_node e' (on_graph (set_pose n) ?p) i = Some n"
    using nodes pose p(2) i(1) by (simp add: snap_node_def kind_snap_pose)
qed

lemma kind_snap_rests: "rests k \<Longrightarrow> kind_snap e' s i k = kind_snap e s i k"
  by (cases k) (simp_all add: kind_snap_def rests_def)

lemma materialize_plain_others:
  assumes "\<not> app_or_group (sn_kind n)" "j \<noteq> sn_id n"
  shows "looks (materialize_plain e s ws n data) j = looks s j"
  using assms
  by (cases "sn_kind n")
    (simp_all add: materialize_plain_def looks_def app_node_def on_graph_def place_defs Let_def app_or_group_def
      create_uplink_def create_veilid_uplink_def create_multicast_def set_peer_def set_node_args_def split: option.split)

lemma pose_others: "j \<noteq> sn_id n \<Longrightarrow> looks (on_graph (set_pose n) s) j = looks s j"
  by (simp add: looks_def app_node_def on_graph_def set_pose_def Let_def split: option.split)

lemma remove_plain_undo [simp]: "sv_undo (remove_plain e s i) = sv_undo s"
  by (simp add: remove_plain_def on_graph_def delete_defs close_node_def Let_def split: option.split gkind.split)

lemma record_undo_last: "\<not> coalesces (last (sv_undo s)) u \<Longrightarrow> last (sv_undo (record_undo u s)) = u \<and> sv_undo (record_undo u s) \<noteq> []"
  by (cases "sv_undo s") (auto simp: record_undo_def undo_cap_def Let_def)

lemma record_undo_looks [simp]: "sv_graph (record_undo u s) = sv_graph s" "looks (record_undo u s) j = looks s j"
  by (simp_all add: record_undo_def looks_def app_node_def Let_def)

lemma looks_undo [simp]: "looks (s\<lparr>sv_undo := us\<rparr>) j = looks s j"
  by (simp add: looks_def app_node_def)

lemma recreate_restores:
  assumes x: "take_snapshot e s i = Some x" and k: "kind_of (sv_graph s) i = Some k" "rests k" and e': "restores e' i"
    and gone: "map_of (g_pos3d (sv_graph s1)) i = None" "map_of (g_hidden (sv_graph s1)) i = None"
  obtains s2 where "recreate e' x s1 = set_lines e' (ss_boundary x) (rewire e' (ss_wires x) s2)"
    and "snap_node e' s2 i = snap_node e s i" "map_of (g_nodes (sv_graph s2)) i = map_of (g_nodes (sv_graph s)) i"
    and "\<And>j. j \<noteq> i \<Longrightarrow> looks s2 j = looks s1 j"
    and "k = KdFile \<Longrightarrow> ss_data x \<noteq> [] \<Longrightarrow> map_of (g_files (sv_graph s2)) i = map_of (g_files (sv_graph s)) i"
proof -
  obtain r n where r: "map_of (g_nodes (sv_graph s)) i = Some r" and n: "snap_node e s i = Some n"
    and x': "ss_ws x = nr_ws r" "ss_node x = n"
      "ss_data x = (case map_of (g_files (sv_graph s)) i of Some (FnVolume _ data _) \<Rightarrow> data | _ \<Rightarrow> [])"
    using x by (auto simp: take_snapshot_def Let_def split: option.splits)
  let ?p = "materialize_plain e' s1 (ss_ws x) n (ss_data x)" and ?s2 = "on_graph (set_pose n) (materialize_plain e' s1 (ss_ws x) n (ss_data x))"
  note m = materialize_restores [OF n k e' gone, of "ss_ws x" "ss_data x"] and i = snap_nodeD [OF n k(1)]
  have plain: "\<not> app_or_group (sn_kind n)" using kind_snap_plain [OF i(2) k(2)] .
  have ng: "\<not> is_group (sn_kind n)" using plain by (cases "sn_kind n") (simp_all add: app_or_group_def)
  show thesis
  proof (rule that [of ?s2])
    show "recreate e' x s1 = set_lines e' (ss_boundary x) (rewire e' (ss_wires x) ?s2)"
      using m(1) ng x'(2) by (simp add: recreate_def)
    show "snap_node e' ?s2 i = snap_node e s i" using m(2) n by simp
    show "map_of (g_nodes (sv_graph ?s2)) i = map_of (g_nodes (sv_graph s)) i"
      using m(3) r k(1) n x'(1) by (auto simp: kind_of_def snap_node_def)
    show "looks ?s2 j = looks s1 j" if "j \<noteq> i" for j
      using that plain i(1) by (simp add: pose_others materialize_plain_others)
    show "map_of (g_files (sv_graph ?s2)) i = map_of (g_files (sv_graph s)) i" if d: "k = KdFile" "ss_data x \<noteq> []"
    proof -
      obtain name persist where f: "map_of (g_files (sv_graph s)) i = Some (FnVolume name (ss_data x) persist)"
        using d(2) x'(3) by (auto split: option.splits file_node.splits)
      then have "sn_kind n = SkVolume name persist" using i(2) d(1) by (simp add: kind_snap_def)
      then show ?thesis
        using d(2) f i(1) by (auto simp: materialize_plain_def on_graph_def set_pose_def place_defs Let_def split: option.split)
    qed
  qed
qed


text \<open>The two commands: a removal whose snapshot is the newest entry of the history, and its re-creation.\<close>

definition deleted :: "runtime \<Rightarrow> snapshot \<Rightarrow> node_id \<Rightarrow> server \<Rightarrow> server" where
  "deleted e x i s = remove_plain e (record_undo (URecreate x) s) i"

lemma delete_runs:
  assumes "kind_of (sv_graph s) i = Some k" "k \<noteq> KdGroup" "\<not> is_derived s i" "take_snapshot e s i = Some x"
  shows "apply_command e (CmdDelete (RrNode i)) s = Some (deleted e x i s)"
  using assms remove_any_plain [of "record_undo (URecreate x) s" i e]
  by (simp add: apply_command_def inside_def given_def deleted_def)

lemma undo_recreates:
  "apply_command e' CmdUndo (deleted e x i s) = recreate e' x ((deleted e x i s)\<lparr>sv_undo := butlast (sv_undo (deleted e x i s))\<rparr>)"
proof -
  have "last (sv_undo (deleted e x i s)) = URecreate x" "sv_undo (deleted e x i s) \<noteq> []"
    using record_undo_last [of s "URecreate x"] by (cases "last (sv_undo s)"; simp add: deleted_def)+
  then show ?thesis by (simp add: apply_command_def undo_last_def split_last_def)
qed

lemma deleted_gone:
  assumes "kind_of (sv_graph s) i = Some k" "k \<noteq> KdGroup"
  shows "map_of (g_nodes (sv_graph (deleted e x i s))) i = None \<and> map_of (g_pos3d (sv_graph (deleted e x i s))) i = None \<and>
    map_of (g_hidden (sv_graph (deleted e x i s))) i = None" "j \<noteq> i \<Longrightarrow> looks (deleted e x i s) j = looks s j"
  using remove_plain_gone [of "record_undo (URecreate x) s" i k e] remove_plain_others [of "record_undo (URecreate x) s" i k j e] assms
  by (simp_all add: deleted_def)



subsection \<open>Undoing a creation\<close>

definition adds_only :: "node_id \<Rightarrow> server \<Rightarrow> server \<Rightarrow> bool" where
  "adds_only i s s' \<longleftrightarrow>
     (\<forall>j. j \<noteq> i \<longrightarrow> looks s' j = looks s j) \<and> g_groups (sv_graph s') = g_groups (sv_graph s) \<and>
     kind_of (sv_graph s') i \<noteq> Some KdGroup"

lemma find_snoc_other: "ap_id n \<noteq> j \<Longrightarrow> List.find (\<lambda>n. ap_id n = j) (r @ [n]) = List.find (\<lambda>n. ap_id n = j) r"
  by (induction r) auto

lemma create_node_adds:
  assumes "create_node e s k pos ws = Some s1" "\<not> node_exists (sv_graph s) (rt_id e (sv_ids s))"
  shows "adds_only (rt_id e (sv_ids s)) s s1"
  using assms
  by (cases k)
    (auto simp: create_node_def launch_def spawn_def adds_only_def looks_def app_node_def find_snoc_other on_graph_def
      add_defs alloc_id_def place_defs kind_of_def node_exists_def create_uplink_def create_veilid_uplink_def create_multicast_def
      sync_defs Let_def split: option.splits if_splits)

lemma uncreate_one:
  assumes "set ids \<subseteq> {i}" "ids \<noteq> []" "kind_of (sv_graph s) i = Some k" "k \<noteq> KdGroup"
  shows "uncreate e ids s = Some (remove_plain e s i)"
proof -
  have skip: "uncreate e is s' = Some s'" if "set is \<subseteq> {i}" "\<not> node_exists (sv_graph s') i" for "is" s'
    using that by (induction "is") auto
  obtain "is" where "ids = i # is" "set is \<subseteq> {i}" using assms(1,2) by (cases ids) auto
  with assms(3,4) skip [of "is" "remove_plain e s i"] remove_plain_gone [OF assms(3,4), of e] show ?thesis
    by (auto simp: remove_any_plain node_exists_def kind_of_def)
qed

lemma create_runs:
  assumes "apply_command e (CmdCreate (ResNode k pos ws)) s = Some s1"
  shows "s1 = s \<or> (\<exists>s0. create_node e s k pos ws = Some s0 \<and> s1 = record_created e s s0)"
proof (cases "refuse_structural_edit s (CmdCreate (ResNode k pos ws)) = None")
  case True
  with assms show ?thesis by (simp add: apply_command_def del: refuse_structural_edit.simps) blast
next
  case False
  with assms show ?thesis by (simp add: apply_command_def del: refuse_structural_edit.simps)
qed

lemma node_exists_keys: "node_exists g j \<longleftrightarrow> j \<in> fst ` set (g_nodes g)"
  by (simp add: node_exists_def map_of_eq_None_iff)

lemma unline_off:
  assumes "i \<notin> snd ` set (gn_in gn @ gn_out gn)"
  shows "unline i gn = gn"
proof -
  have "filter (\<lambda>(_, n). n \<noteq> i) ls = ls" if "i \<notin> snd ` set ls" for ls :: "(string \<times> node_id) list"
    using that by (force simp: filter_id_conv)
  then show ?thesis using assms by (simp add: unline_def image_Un)
qed

text \<open>
  C14: A creation can be undone. Whatever kind of node a client creates, the undo that follows
  returns, and then every node of the document is described as before the creation, the new one
  not at all. The identity drawn for it must be fresh and on no group line.
\<close>

theorem created_node_is_undone:
  assumes i_def: "i = rt_id e (sv_ids s)"
    and "apply_command e (CmdCreate (ResNode k pos ws)) s = Some s1" "node_exists (sv_graph s1) i" "\<not> node_exists (sv_graph s) i"
    and "\<forall>gn \<in> ran (map_of (g_groups (sv_graph s))). i \<notin> snd ` set (gn_in gn @ gn_out gn)"
    and "\<forall>xs. set (rt_order e xs) = set xs"
  shows "\<exists>s2. apply_command e' CmdUndo s1 = Some s2 \<and> (\<forall>j. snap_node e' s2 j = snap_node e' s j)"
proof -
  obtain s0 where c: "create_node e s k pos ws = Some s0" and s1: "s1 = record_created e s s0"
    using create_runs [OF assms(2)] assms(3,4) by metis
  have a: "adds_only i s s0" using create_node_adds [OF c] assms(4) by (simp add: i_def)
  have g1: "sv_graph s1 = sv_graph s0" by (simp add: s1 record_created_def Let_def)
  have old: "node_exists (sv_graph s0) j = node_exists (sv_graph s) j" if "j \<noteq> i" for j
    using a that by (auto simp: adds_only_def looks_def node_exists_def Let_def)
  define ids where "ids = filter (\<lambda>j. \<not> node_exists (sv_graph s) j) (rt_order e (map fst (g_nodes (sv_graph s0))))"
  have "set ids = {j. node_exists (sv_graph s0) j \<and> \<not> node_exists (sv_graph s) j}"
    using assms(6) by (auto simp: ids_def node_exists_keys)
  then have ids: "set ids = {i}" using assms(3,4) old g1 by (simp add: set_eq_iff) metis
  then have "s1 = record_undo (UUncreate ids) s0" by (auto simp: s1 record_created_def ids_def [symmetric] Let_def)
  moreover have "\<not> coalesces u (UUncreate ids)" for u by (cases u) auto
  ultimately have l: "last (sv_undo s1) = UUncreate ids" "sv_undo s1 \<noteq> []" using record_undo_last by auto
  let ?t = "s1\<lparr>sv_undo := butlast (sv_undo s1)\<rparr>"
  obtain kk where kk: "kind_of (sv_graph ?t) i = Some kk" "kk \<noteq> KdGroup"
    using a assms(3) g1 by (auto simp: adds_only_def kind_of_def node_exists_def)
  let ?s2 = "remove_plain e' ?t i"
  have undo: "apply_command e' CmdUndo s1 = Some ?s2"
    using l ids uncreate_one [OF _ _ kk, of ids e'] by (cases ids) (simp_all add: apply_command_def undo_last_def split_last_def)
  have "snap_node e' ?s2 j = snap_node e' s j" for j
  proof (cases "j = i")
    case True
    then show ?thesis
      using remove_plain_gone [OF kk, of e'] assms(4) by (simp add: snap_node_def node_exists_def)
  next
    case False
    have "unline i gn = gn" if "map_of (g_groups (sv_graph s)) j = Some gn" for gn
      using unline_off [of i gn] ranI [of "map_of (g_groups (sv_graph s))" j gn] that assms(5) by blast
    then have "map_of (g_groups (sv_graph ?s2)) j = map_of (g_groups (sv_graph s)) j"
      using a g1 by (simp add: remove_plain_groups [OF kk] adds_only_def map_of_unlined)
    moreover have "looks s1 j = looks s j" using a False by (simp add: adds_only_def s1 record_created_def Let_def)
    then have "looks ?s2 j = looks s j" using remove_plain_others [OF kk(1) False, of e'] by simp
    ultimately show ?thesis by (intro snap_node_looks) simp_all
  qed
  with undo show ?thesis by blast
qed

lemmas demo_eval = demo_port_def demo_start_def record_undo_def Let_def on_graph_def place_port_def load_defs demo_tab_def workspace_new_def

lemma demo_rest:
  "kind_of (sv_graph demo_port) 100 = Some KdPort" "\<not> is_derived demo_port 100" "snap_node demo_rt demo_port 100 \<noteq> None"
  "restores demo_rt 100" "lines_to_node demo_rt (sv_graph demo_port) 100 = []"
  by (simp_all add: demo_eval kind_of_def is_derived_def snap_node_def kind_snap_def restores_def demo_rt_def lines_to_node_def)


theorem created_node_is_undone_witness:
  "\<exists>s2. apply_command demo_rt CmdUndo demo_port = Some s2 \<and> snap_node demo_rt s2 100 = None \<and>
    snap_node demo_rt s2 10 = snap_node demo_rt demo_start 10"
proof -
  have "rt_id demo_rt (sv_ids demo_start) = 100" "node_exists (sv_graph demo_port) 100" "\<not> node_exists (sv_graph demo_start) 100"
    "\<forall>gn \<in> ran (map_of (g_groups (sv_graph demo_start))). 100 \<notin> snd ` set (gn_in gn @ gn_out gn)"
    "\<forall>xs. set (rt_order demo_rt xs) = set xs" "snap_node demo_rt demo_start 100 = None"
    by (simp_all add: demo_eval demo_rt_def node_exists_def snap_node_def)
  then show ?thesis
    using created_node_is_undone [of 100 demo_rt demo_start NkPort "(0, 0)" 1 demo_port demo_rt] demo_adds by (auto simp: demo_add_def)
qed

end
