(* ===== verification/Srv_Limits.thy ===== *)
theory Srv_Limits
  imports Srv_Undo
begin

text \<open>
  Where the server (\<open>crates/wk-server/src/server.rs\<close>) does not do what its comments say: private networks
  of a MIDI wire, the grants of a deleted app, wires between nodes that do not exist, uplinks that
  could not be made.
\<close>

subsection \<open>Private links\<close>

lemma toggle_unique_new:
  "(x, y) \<notin> set ls \<Longrightarrow> set (fst (toggle_unique ls x y)) = {p \<in> set ls. fst p \<noteq> x} \<union> {(x, y)}"
  by (auto simp: toggle_unique_def)

text \<open>
  C40: A MIDI wire takes an app off its network. The private network of a wire between two apps that
  use the network is meant to be additional; but an app has one network, so that the wire
  replaces the one the user had wired it to.
\<close>

theorem midi_wire_leaves_the_network:
  assumes "g_midi_links g = []" "g_link_nets g = []" "(a, n) \<in> set (g_net_links g)"
    and "a \<noteq> b" "kind_of g a = Some KdApp" "kind_of g b = Some KdApp"
    and "{a, b} \<subseteq> set reg" "rt_imports_net e a" "rt_imports_net e b"
    and "rt_id e k \<notin> snd ` set (g_net_links g)"
    and "\<And>ls. set (rt_order_links e ls) = set ls" "\<And>ls. length (rt_order_links e ls) = length ls"
  shows "(a, n) \<notin> set (g_net_links (fst (toggle_midi e reg k g a b))) \<and>
    (a, rt_id e k) \<in> set (g_net_links (fst (toggle_midi e reg k g a b)))"
proof -
  let ?c = "canonical_pair a b" and ?net = "rt_id e k"
  have o: "rt_order_links e [] = []" using assms(12) [of "[]"] by simp
  have o1: "rt_order_links e [x] = [x]" for x
    using assms(11) [of "[x]"] assms(12) [of "[x]"] by (cases "rt_order_links e [x]") auto
  let ?g0 = "g\<lparr>g_midi_links := [(a, b)], g_midi_channels := prune_side_map (g_midi_channels g) [(a, b)]\<rparr>"
  have t: "fst (toggle_midi e reg k g a b) =
     (let g1 = toggle_net (toggle_net ?g0 (fst ?c) ?net) (snd ?c) ?net in g1\<lparr>g_link_nets := bt_insert ?c ?net (g_link_nets g1)\<rparr>)"
    using assms(1,2,7,8,9) o o1
    by (simp add: toggle_midi_def sync_channels_def toggle_pair_def sync_app_link_nets_def linked_pairs_def Let_def)
  have k: "kind_of ?g0 x = kind_of g x" for x by (simp add: kind_of_def)
  have k1: "kind_of (h\<lparr>g_net_links := ls\<rparr>) x = kind_of h x" for h ls x by (simp add: kind_of_def)
  have c: "(fst ?c = a \<and> snd ?c = b) \<or> (fst ?c = b \<and> snd ?c = a)" by (simp add: canonical_pair_def)
  have new: "(x, ?net) \<notin> set (g_net_links g)" for x using assms(10) by force
  have n: "n \<noteq> ?net" using assms(3) new by auto
  let ?ls = "fst (toggle_unique (fst (toggle_unique (g_net_links g) (fst ?c) ?net)) (snd ?c) ?net)"
  have nl: "g_net_links (fst (toggle_midi e reg k g a b)) = ?ls"
    using assms(5,6) c by (auto simp: t Let_def toggle_net_def k k1)
  have "set ?ls = {p \<in> {p \<in> set (g_net_links g). fst p \<noteq> fst ?c} \<union> {(fst ?c, ?net)}. fst p \<noteq> snd ?c} \<union> {(snd ?c, ?net)}"
    using new c assms(4) by (subst toggle_unique_new) (auto simp: toggle_unique_new)
  then show ?thesis using nl n c assms(4) by auto
qed

definition demo_apps :: graph where
  "demo_apps =
     (sv_graph (server_empty [] [demo_tab] None))
       \<lparr>g_nodes := map (\<lambda>i. (i, \<lparr>nr_kind = KdApp, nr_ws = 1, nr_pos = (0, 0), nr_size = file_size\<rparr>)) [1, 2], g_net_links := [(1, 5)]\<rparr>"

theorem midi_wire_leaves_the_network_witness:
  "(1, 5) \<in> set (g_net_links demo_apps) \<and> (1, 5) \<notin> set (g_net_links (fst (toggle_midi demo_rt [1, 2] 0 demo_apps 1 2))) \<and>
   (1, 100) \<in> set (g_net_links (fst (toggle_midi demo_rt [1, 2] 0 demo_apps 1 2)))"
  using midi_wire_leaves_the_network [of demo_apps 1 5 2 "[1, 2]" demo_rt 0]
  by (simp add: demo_apps_def demo_rt_def kind_of_def load_defs)

subsection \<open>What a removal and a failure leave\<close>

text \<open>Closing an app leaves its capture and API grants in the graph.\<close>

lemma deleted_app_keeps_its_grants:
  "g_captures (sv_graph (close_node e s i)) = g_captures (sv_graph s)" "g_apis (sv_graph (close_node e s i)) = g_apis (sv_graph s)"
  by (simp_all add: close_node_def on_graph_def close_app_def Let_def forget_def sync_defs)

text \<open>A wire between two identities that name no node is made all the same.\<close>

lemma wire_between_missing_nodes:
  "\<not> node_exists (sv_graph demo_start) 77 \<and> \<not> node_exists (sv_graph demo_start) 78 \<and>
   map_option (\<lambda>s. g_midi_links (sv_graph s)) (apply_command demo_rt (CmdCreate (ResWire 77 78)) demo_start) = Some [(77, 78)]"
  by (simp add: apply_command_def or_else_def inside_def is_derived_def demo_start_def load_defs demo_tab_def workspace_new_def
      wired_def record_wire_def srv_class_of_def kind_of_def classify_def classify_plain_def record_undo_def connect_toggle_def
      app_loading_def app_serves_fs_def app_node_def srv_toggle_def srv_toggle_midi_def toggle_midi_def sync_app_link_nets_def
      linked_pairs_def toggle_pair_def demo_rt_def is_boundary_def Let_def undo_cap_def)

text \<open>A loaded uplink that could not be made is no node, but its pose is kept.\<close>

lemma failed_uplink_leaves_a_pose:
  assumes "rt_iroh e i None = None" "\<not> node_exists (sv_graph s) i" 
  shows "\<exists>s'. materialize e s ws \<lparr>sn_id = i, sn_pos = p, sn_size = z, sn_pos3d = Some q, sn_panel3d = True, sn_kind = SkIroh None None\<rparr> [] = Some s' \<and>
    \<not> node_exists (sv_graph s') i \<and> map_of (g_pos3d (sv_graph s')) i = Some q"
  using assms by (simp add: materialize_def materialize_plain_def create_uplink_def set_peer_def set_pose_def on_graph_def node_exists_def)

end
