(* ===== verification/Terminal.thy ===== *)
theory Terminal
  imports Exec_Pipe "HOL-Library.Sublist"
begin

text \<open>
  The terminal of a node (\<open>crates/wk-server/src/terminal.rs\<close>): the guest's standard streams
  (\<open>TermIo\<close>), the bounded log that clients follow (\<open>LogRing\<close>, and the follower of
  \<open>crates/wk-api/src/lib.rs\<close>) and the cooked line discipline (\<open>Terminal::key_input\<close>).

  The screen is the crate \<open>alacritty_terminal\<close>: its state has any type, and the record \<open>vt\<close> holds
  what is called of it, with the texts it writes back (\<open>Event::PtyWrite\<close>). A task is a number, as
  for the pipes; \<open>io_woken\<close> lists the calls of \<open>Waker::wake\<close>. Every method takes the locks it needs,
  so one method body is one step.
\<close>

subsection \<open>The log\<close>

definition log_cap :: nat where
  "log_cap = 256 * 1024"

record log_ring =
  lr_data :: bytes
  lr_total :: u64

definition log_new :: log_ring where
  "log_new = \<lparr>lr_data = [], lr_total = 0\<rparr>"

text \<open>The loop that pops the oldest bytes.\<close>

function evict :: "bytes \<Rightarrow> bytes" where
  "evict d = (if length d > log_cap then evict (tl d) else d)"
  by auto
termination by (relation "measure length") auto

declare evict.simps [simp del]

definition log_push :: "log_ring \<Rightarrow> bytes \<Rightarrow> log_ring" where
  "log_push r b = \<lparr>lr_data = evict (lr_data r @ b), lr_total = lr_total r + of_nat (length b)\<rparr>"

definition u64_sub_sat :: "u64 \<Rightarrow> u64 \<Rightarrow> u64" where
  "u64_sub_sat a b = (if b \<le> a then a - b else 0)"

definition log_read :: "log_ring \<Rightarrow> u64 \<Rightarrow> bytes \<times> u64" where
  "log_read r from =
     (let earliest = lr_total r - of_nat (length (lr_data r));
          skip = unat (u64_sub_sat (max from earliest) earliest)
      in (drop skip (lr_data r), lr_total r))"

subsection \<open>The standard streams\<close>

record inp_state =
  in_buf :: bytes
  in_waker :: "nat option"
  in_closed :: bool

record tty_mode =
  tm_echo :: bool
  tm_canonical :: bool

record term_io =
  io_out :: bytes
  io_log :: log_ring
  io_inp :: inp_state
  io_out_nl :: "bool option"
  io_tty :: tty_mode
  io_size :: "u16 \<times> u16"
  io_woken :: "nat list"

definition term_io_new :: term_io where
  "term_io_new =
     \<lparr>io_out = [], io_log = log_new, io_inp = \<lparr>in_buf = [], in_waker = None, in_closed = False\<rparr>, io_out_nl = None,
      io_tty = \<lparr>tm_echo = True, tm_canonical = True\<rparr>, io_size = (80, 24), io_woken = []\<rparr>"

definition set_term_size :: "u16 \<Rightarrow> u16 \<Rightarrow> term_io \<Rightarrow> term_io" where
  "set_term_size cols rows io = io\<lparr>io_size := (cols, rows)\<rparr>"

definition set_tty :: "bool \<Rightarrow> bool \<Rightarrow> term_io \<Rightarrow> term_io" where
  "set_tty echo canonical io = io\<lparr>io_tty := \<lparr>tm_echo = echo, tm_canonical = canonical\<rparr>\<rparr>"

definition is_raw :: "term_io \<Rightarrow> bool" where
  "is_raw io \<longleftrightarrow> \<not> tm_canonical (io_tty io)"

definition set_output_nl :: "bool \<Rightarrow> term_io \<Rightarrow> term_io" where
  "set_output_nl nl io = io\<lparr>io_out_nl := Some nl\<rparr>"

definition out_limit :: nat where
  "out_limit = 4 * 1024 * 1024"

text \<open>What \<open>write_out\<close> makes of the guest's bytes, and the rest of it.\<close>

definition post_process :: "term_io \<Rightarrow> bytes \<Rightarrow> bytes" where
  "post_process io b =
     (let translate = (case io_out_nl io of Some nl \<Rightarrow> nl | None \<Rightarrow> \<not> is_raw io)
      in if translate \<and> 10 \<in> set b then concat (map (\<lambda>c. if c = 10 then [13, c] else [c]) b) else b)"

definition write_out :: "bytes \<Rightarrow> term_io \<Rightarrow> term_io" where
  "write_out b io =
     (let b' = post_process io b;
          io1 = (if length (io_out io) < out_limit then io\<lparr>io_out := io_out io @ b'\<rparr> else io)
      in io1\<lparr>io_log := log_push (io_log io1) b'\<rparr>)"

definition drain_out :: "term_io \<Rightarrow> bytes \<times> term_io" where
  "drain_out io = (io_out io, io\<lparr>io_out := []\<rparr>)"

definition wake_in :: "term_io \<Rightarrow> term_io" where
  "wake_in io =
     (case in_waker (io_inp io) of
        None \<Rightarrow> io
      | Some t \<Rightarrow> io\<lparr>io_inp := (io_inp io)\<lparr>in_waker := None\<rparr>, io_woken := io_woken io @ [t]\<rparr>)"

definition feed_in :: "bytes \<Rightarrow> term_io \<Rightarrow> term_io" where
  "feed_in b io = wake_in (io\<lparr>io_inp := (io_inp io)\<lparr>in_buf := in_buf (io_inp io) @ b\<rparr>\<rparr>)"

definition term_close :: "term_io \<Rightarrow> term_io" where
  "term_close io = wake_in (io\<lparr>io_inp := (io_inp io)\<lparr>in_closed := True\<rparr>\<rparr>)"

definition reopen :: "term_io \<Rightarrow> term_io" where
  "reopen io = io\<lparr>io_inp := (io_inp io)\<lparr>in_closed := False\<rparr>, io_out_nl := None\<rparr>"

text \<open>The guest's end: \<open>InPipe::read\<close>, \<open>OutPipe::check_write\<close> and \<open>InReady::poll\<close>.\<close>

definition stdin_read :: "nat \<Rightarrow> term_io \<Rightarrow> (stream_error + bytes) \<times> term_io" where
  "stdin_read sz io =
     (let i = io_inp io
      in if in_buf i = [] then (if in_closed i then Inl Closed else Inr [], io)
         else
           (let n = min sz (length (in_buf i))
            in (Inr (take n (in_buf i)), io\<lparr>io_inp := i\<lparr>in_buf := drop n (in_buf i)\<rparr>\<rparr>)))"

definition out_check_write :: nat where
  "out_check_write = 2 ^ 16"

definition in_ready :: "nat \<Rightarrow> term_io \<Rightarrow> bool \<times> term_io" where
  "in_ready t io =
     (let i = io_inp io
      in if in_buf i \<noteq> [] \<or> in_closed i then (True, io) else (False, io\<lparr>io_inp := i\<lparr>in_waker := Some t\<rparr>\<rparr>))"

subsection \<open>The terminal\<close>

record 'v vt =
  vt_new :: "nat \<Rightarrow> nat \<Rightarrow> 'v"
  vt_advance :: "'v \<Rightarrow> bytes \<Rightarrow> 'v \<times> bytes list"
  vt_resize :: "'v \<Rightarrow> nat \<Rightarrow> nat \<Rightarrow> 'v \<times> bytes list"

record 'v terminal =
  tl_term :: 'v
  tl_line :: bytes

definition terminal_new :: "'v vt \<Rightarrow> term_io \<Rightarrow> 'v terminal" where
  "terminal_new V io =
     (case io_size io of (cols, rows) \<Rightarrow> \<lparr>tl_term = vt_new V (unat cols) (unat rows), tl_line = []\<rparr>)"

text \<open>\<open>EventProxy::send_event\<close> for what the screen writes back, in order.\<close>

definition reply_events :: "bytes list \<Rightarrow> term_io \<Rightarrow> term_io" where
  "reply_events texts io = fold feed_in texts io"

definition term_feed :: "'v vt \<Rightarrow> bytes \<Rightarrow> 'v terminal \<times> term_io \<Rightarrow> 'v terminal \<times> term_io" where
  "term_feed V b x =
     (case x of (t, io) \<Rightarrow>
        case vt_advance V (tl_term t) b of (v, texts) \<Rightarrow> (t\<lparr>tl_term := v\<rparr>, reply_events texts io))"

definition term_resize :: "'v vt \<Rightarrow> u16 \<Rightarrow> u16 \<Rightarrow> 'v terminal \<times> term_io \<Rightarrow> 'v terminal \<times> term_io" where
  "term_resize V cols rows x =
     (case x of (t, io) \<Rightarrow>
        let c = max cols 1; r = max rows 1
        in if io_size io = (c, r) then (t, io)
           else case vt_resize V (tl_term t) (unat c) (unat r) of
                  (v, texts) \<Rightarrow> (t\<lparr>tl_term := v\<rparr>, set_term_size c r (reply_events texts io)))"

definition set_line :: "bytes \<Rightarrow> 'v terminal \<times> term_io \<Rightarrow> 'v terminal \<times> term_io" where
  "set_line l x = (case x of (t, io) \<Rightarrow> (t\<lparr>tl_line := l\<rparr>, io))"

text \<open>The final byte of a control sequence, and the loop that swallows one.\<close>

fun skip_csi :: "bytes \<Rightarrow> bytes" where
  "skip_csi [] = []"
| "skip_csi (b # bs) = (if 0x40 \<le> b \<and> b \<le> 0x7E then bs else skip_csi bs)"

lemma skip_csi_length: "length (skip_csi bs) \<le> length bs"
  by (induction bs) auto

definition printable :: "u8 \<Rightarrow> bool" where
  "printable b \<longleftrightarrow> 0x20 \<le> b \<and> b \<le> 0x7E"

text \<open>The effect of one byte that starts no control sequence.\<close>

definition key_byte :: "'v vt \<Rightarrow> bool \<Rightarrow> u8 \<Rightarrow> 'v terminal \<times> term_io \<Rightarrow> 'v terminal \<times> term_io" where
  "key_byte V echo b x =
     (if b = 13 \<or> b = 10
      then
        (let x1 = term_feed V [13, 10] x; line = tl_line (fst x1) @ [10]
         in set_line [] (fst x1, feed_in line (snd x1)))
      else if (b = 0x7F \<or> b = 8) \<and> tl_line (fst x) \<noteq> []
      then
        (let x1 = set_line (butlast (tl_line (fst x))) x
         in if echo then term_feed V [8, 32, 8] x1 else x1)
      else if b = 3 then term_feed V [94, 67, 13, 10] (set_line [] x)
      else if b = 4 \<and> tl_line (fst x) = [] then (fst x, term_close (snd x))
      else if printable b
      then
        (let x1 = set_line (tl_line (fst x) @ [b]) x
         in if echo then term_feed V [b] x1 else x1)
      else x)"

function key_loop :: "'v vt \<Rightarrow> bool \<Rightarrow> bytes \<Rightarrow> 'v terminal \<times> term_io \<Rightarrow> 'v terminal \<times> term_io" where
  "key_loop V echo [] x = x"
| "key_loop V echo (b # bs) x =
     (if b = 0x1B \<and> bs \<noteq> [] \<and> hd bs = 0x5B then key_loop V echo (skip_csi (tl bs)) x
      else key_loop V echo bs (key_byte V echo b x))"
  by pat_completeness auto
termination
  by (relation "measure (\<lambda>(V, echo, bs, x). length bs)")
    (auto simp: le_imp_less_Suc le_trans [OF skip_csi_length])

definition key_input :: "'v vt \<Rightarrow> bytes \<Rightarrow> 'v terminal \<times> term_io \<Rightarrow> 'v terminal \<times> term_io" where
  "key_input V bs x = key_loop V (tm_echo (io_tty (snd x))) bs x"

subsection \<open>The log against the whole output\<close>

lemma evict_drop: "evict d = drop (length d - log_cap) d"
proof (induction d rule: evict.induct)
  case (1 d)
  show ?case
  proof (cases "length d > log_cap")
    case True
    then have "d \<noteq> []" "length d - log_cap = Suc (length (tl d) - log_cap)" by auto
    then show ?thesis using 1 True by (simp add: evict.simps [of d] drop_Suc)
  qed (simp add: evict.simps [of d])
qed

definition ring_holds :: "log_ring \<Rightarrow> bytes \<Rightarrow> bool" where
  "ring_holds r out \<longleftrightarrow> lr_data r = drop (length out - log_cap) out \<and> lr_total r = of_nat (length out)"

lemma ring_new [simp]: "ring_holds log_new []"
  by (simp add: ring_holds_def log_new_def)

lemma ring_push: "ring_holds r out \<Longrightarrow> ring_holds (log_push r b) (out @ b)"
proof -
  assume r: "ring_holds r out"
  let ?k = "length out - log_cap"
  have "evict (drop ?k out @ b) = drop (length (out @ b) - log_cap) (out @ b)"
    by (cases "length out \<le> log_cap") (auto simp: evict_drop add.commute)
  with r show ?thesis by (simp add: ring_holds_def log_push_def)
qed

lemma ring_read:
  assumes "ring_holds r out" "length out < 2 ^ 64" "n \<le> length out"
  shows "log_read r (of_nat n) = (drop (max n (length out - log_cap)) out, of_nat (length out))"
proof -
  define k where "k = length out - log_cap"
  have d: "lr_data r = drop k out" "lr_total r = of_nat (length out)" using assms(1) by (simp_all add: ring_holds_def k_def)
  have len: "length (lr_data r) = length out - k" by (simp add: d)
  have e: "lr_total r - of_nat (length (lr_data r)) = (of_nat k :: u64)"
    unfolding d(2) len by (simp add: k_def)
  have kl: "k \<le> length out" by (simp add: k_def)
  have u: "unat (of_nat m :: u64) = m" if "m \<le> length out" for m
    using that assms(2) by (simp add: unat_of_nat take_bit_nat_eq_self)
  have le: "((of_nat a :: u64) \<le> of_nat b) = (a \<le> b)" if "a \<le> length out" "b \<le> length out" for a b
    using that u by (simp add: word_le_nat_alt)
  have "unat (u64_sub_sat (max (of_nat n) (of_nat k)) (of_nat k :: u64)) = n - k"
  proof (cases "k \<le> n")
    case True
    then have "(of_nat k :: u64) \<le> of_nat n" using assms(3) kl by (simp add: le)
    then show ?thesis using True assms(3) kl u by (simp add: u64_sub_sat_def max_def unat_sub)
  next
    case False
    then have "(of_nat n :: u64) \<le> of_nat k" using assms(3) kl by (simp add: le)
    then show ?thesis using False by (simp add: u64_sub_sat_def max_def)
  qed
  then show ?thesis unfolding log_read_def e Let_def by (auto simp: d k_def max_def)
qed

text \<open>
  The follower of \<open>wk logs -f\<close> (\<open>ClientMsg::Logs\<close> in \<open>crates/wk-api/src/lib.rs\<close>): it sends the scrollback,
  then polls; between two polls the guest writes any number of times. The value is what was sent.
\<close>

fun follow_log :: "u64 \<Rightarrow> log_ring \<Rightarrow> bytes list list \<Rightarrow> bytes" where
  "follow_log cursor r [] = []"
| "follow_log cursor r (ws # rest) =
     (let r1 = fold (\<lambda>b r. log_push r b) ws r;
          (chunk, nxt) = log_read r1 cursor
      in chunk @ follow_log (if chunk \<noteq> [] then nxt else cursor) r1 rest)"

definition stream_logs :: "log_ring \<Rightarrow> bytes list list \<Rightarrow> bytes" where
  "stream_logs r writes = (let (bytes, cursor) = log_read r 0 in bytes @ follow_log cursor r writes)"

lemma ring_pushes: "ring_holds r out \<Longrightarrow> ring_holds (fold (\<lambda>b r. log_push r b) ws r) (out @ concat ws)"
proof (induction ws arbitrary: r out)
  case (Cons b ws)
  then show ?case using Cons.IH [OF ring_push [OF Cons.prems, of b]] by simp
qed simp

lemma follow_log_all:
  assumes "ring_holds r out" "\<forall>ws \<in> set writes. length (concat ws) \<le> log_cap"
    and "length out + length (concat (concat writes)) < 2 ^ 64"
  shows "follow_log (of_nat (length out)) r writes = concat (concat writes)"
  using assms
proof (induction writes arbitrary: r out)
  case (Cons ws rest)
  let ?out = "out @ concat ws"
  note r1 = ring_pushes [OF Cons.prems(1), of ws]
  have read: "log_read (fold (\<lambda>b r. log_push r b) ws r) (of_nat (length out)) = (concat ws, of_nat (length ?out))"
    using ring_read [OF r1, of "length out"] Cons.prems(2,3) by (auto simp: max_def)
  have "(if concat ws \<noteq> [] then of_nat (length ?out) else of_nat (length out)) = (of_nat (length ?out) :: u64)"
    by (cases "concat ws = []") (simp_all del: concat_eq_Nil_conv)
  moreover have "follow_log (of_nat (length ?out)) (fold (\<lambda>b r. log_push r b) ws r) rest = concat (concat rest)"
    using Cons.IH [OF r1] Cons.prems(2,3) by simp
  ultimately show ?case by (simp add: read Let_def del: length_append concat_eq_Nil_conv)
qed simp



subsection \<open>Runs of a node's terminal\<close>

datatype term_op =
    GuestWrite bytes | GuestRead nat | GuestAwait nat | GuestTty bool bool | GuestOutputNl bool
  | ClientInput bytes | ClientKeys bytes | ClientRender | ClientDrain | ClientResize u16 u16 | ClientSetSize u16 u16
  | NodeClose | NodeReopen

text \<open>
  The guest's calls, those of a client (the attached one of \<open>wk-api\<close> feeds, sizes and drains; the local one types
  and renders: \<open>drain_out\<close> into \<open>feed\<close>), and those of the node that is stopped and run again.
\<close>

fun term_step :: "'v vt \<Rightarrow> term_op \<Rightarrow> 'v terminal \<times> term_io \<Rightarrow> 'v terminal \<times> term_io" where
  "term_step V (GuestWrite b) (t, io) = (t, write_out b io)"
| "term_step V (GuestRead n) (t, io) = (t, snd (stdin_read n io))"
| "term_step V (GuestAwait k) (t, io) = (t, snd (in_ready k io))"
| "term_step V (GuestTty e c) (t, io) = (t, set_tty e c io)"
| "term_step V (GuestOutputNl nl) (t, io) = (t, set_output_nl nl io)"
| "term_step V (ClientInput b) (t, io) = (t, feed_in b io)"
| "term_step V (ClientKeys b) (t, io) = key_input V b (t, io)"
| "term_step V ClientRender (t, io) = (let (b, io1) = drain_out io in term_feed V b (t, io1))"
| "term_step V ClientDrain (t, io) = (t, snd (drain_out io))"
| "term_step V (ClientResize c r) (t, io) = term_resize V c r (t, io)"
| "term_step V (ClientSetSize c r) (t, io) = (t, set_term_size c r io)"
| "term_step V NodeClose (t, io) = (t, term_close io)"
| "term_step V NodeReopen (t, io) = (t, reopen io)"

text \<open>What went out of the guest, to the clients, and into the guest.\<close>

fun put_out :: "term_op \<Rightarrow> term_io \<Rightarrow> bytes" where
  "put_out (GuestWrite b) io = post_process io b"
| "put_out c io = []"

fun taken_out :: "term_op \<Rightarrow> term_io \<Rightarrow> bytes" where
  "taken_out ClientRender io = fst (drain_out io)"
| "taken_out ClientDrain io = fst (drain_out io)"
| "taken_out c io = []"

fun got_in :: "term_op \<Rightarrow> term_io \<Rightarrow> bytes" where
  "got_in (GuestRead n) io = (case fst (stdin_read n io) of Inl _ \<Rightarrow> [] | Inr d \<Rightarrow> d)"
| "got_in c io = []"

definition newly_woken :: "term_io \<Rightarrow> term_io \<Rightarrow> nat option" where
  "newly_woken io io' = (case drop (length (io_woken io)) (io_woken io') of [] \<Rightarrow> None | t # _ \<Rightarrow> Some t)"

definition term_wstep :: "'v vt \<Rightarrow> term_op \<Rightarrow> 'v terminal \<times> term_io \<Rightarrow> ('v terminal \<times> term_io) \<times> nat option" where
  "term_wstep V c x = (let x' = term_step V c x in (x', newly_woken (snd x) (snd x')))"

fun await_of :: "term_op \<Rightarrow> nat option" where
  "await_of (GuestAwait t) = Some t"
| "await_of _ = None"

definition stdin_ready :: "'v terminal \<times> term_io \<Rightarrow> bool" where
  "stdin_ready x \<longleftrightarrow> in_buf (io_inp (snd x)) \<noteq> [] \<or> in_closed (io_inp (snd x))"

definition stdin_slot :: "'v terminal \<times> term_io \<Rightarrow> nat option" where
  "stdin_slot x = in_waker (io_inp (snd x))"

subsection \<open>Sleeping and waking\<close>

text \<open>Standard input is left alone, or the task that waits is woken.\<close>

definition wakes :: "term_io \<Rightarrow> term_io \<Rightarrow> bool" where
  "wakes io io' \<longleftrightarrow>
     io_inp io' = io_inp io \<and> io_woken io' = io_woken io \<or>
     in_waker (io_inp io') = None \<and>
     io_woken io' = io_woken io @ (case in_waker (io_inp io) of None \<Rightarrow> [] | Some t \<Rightarrow> [t])"

lemma wakes_refl [simp, intro]: "wakes io io"
  by (simp add: wakes_def)

lemma wakes_trans [trans]: "wakes io io' \<Longrightarrow> wakes io' io'' \<Longrightarrow> wakes io io''"
  by (auto simp: wakes_def)

lemma wakes_feed_in: "wakes io (feed_in b io)" and wakes_close: "wakes io (term_close io)"
  by (auto simp: wakes_def feed_in_def term_close_def wake_in_def split: option.split)

lemma wakes_events: "wakes io (reply_events texts io)"
  by (induction texts arbitrary: io) (auto simp: reply_events_def intro: wakes_trans wakes_feed_in)

lemma wakes_feed: "wakes (snd x) (snd (term_feed V b x))"
  by (cases x) (auto simp: term_feed_def wakes_events split: prod.split)

lemma set_line_io [simp]: "snd (set_line l x) = snd x" "tl_line (fst (set_line l x)) = l"
  by (cases x; simp add: set_line_def)+

lemma wakes_key: "wakes (snd x) (snd (key_byte V echo b x))"
proof -
  have "wakes (snd x) (snd (term_feed V d (set_line l x)))" for d l
    using wakes_feed [of "set_line l x" V d] by simp
  moreover have "wakes (snd x) (feed_in l (snd (term_feed V d x)))" for d l
    using wakes_trans [OF wakes_feed wakes_feed_in] .
  ultimately show ?thesis by (simp add: key_byte_def wakes_close Let_def)
qed

lemma wakes_keys: "wakes (snd x) (snd (key_loop V echo bs x))"
  by (induction V echo bs x rule: key_loop.induct) (auto intro: wakes_trans wakes_key)

lemma wakes_plain:
  "wakes io (write_out b io)" "wakes io (set_tty e c io)" "wakes io (set_output_nl nl io)" "wakes io (set_term_size m n io)"
  "wakes io (io\<lparr>io_out := b\<rparr>)"
  by (simp_all add: wakes_def write_out_def set_tty_def set_output_nl_def set_term_size_def Let_def)

lemma term_step_wakes:
  assumes "await_of c = None" "\<not> stdin_ready x"
  shows "wakes (snd x) (snd (term_step V c x))"
proof (cases x)
  case (Pair t io)
  have i: "in_buf (io_inp io) = []" "\<not> in_closed (io_inp io)" using assms(2) Pair by (simp_all add: stdin_ready_def)
  have "wakes io (snd (term_feed V d (t, io\<lparr>io_out := b\<rparr>)))" for b d
    using wakes_trans [OF wakes_plain(5) wakes_feed [of "(t, io\<lparr>io_out := b\<rparr>)" V d, simplified]] .
  moreover have "wakes io (set_term_size a b (reply_events ts io))" for a b ts
    using wakes_trans [OF wakes_events wakes_plain(4)] .
  moreover have "wakes io (reopen io)" "snd (stdin_read n io) = io" for n
    using i by (simp_all add: wakes_def reopen_def stdin_read_def)
  ultimately show ?thesis
    using assms(1) Pair wakes_keys [of "(t, io)" V]
    by (cases c) (simp_all add: wakes_plain wakes_feed_in wakes_close drain_out_def key_input_def term_resize_def Let_def
        split: prod.split)
qed

lemma wakes_slot:
  assumes "wakes io io'"
  shows "io_inp io' = io_inp io \<or> in_waker (io_inp io) = newly_woken io io'"
  using assms by (cases "in_waker (io_inp io)") (auto simp: wakes_def newly_woken_def)

interpretation tside: waker_slot "term_wstep V" stdin_ready stdin_slot await_of for V :: "'v vt"
proof
  show "\<not> stdin_ready (fst (term_wstep V c s)) \<and> stdin_slot (fst (term_wstep V c s)) = Some t"
    if "await_of c = Some t" "\<not> stdin_ready s" for c t and s :: "'v terminal \<times> term_io"
    using that by (cases c; cases s) (auto simp: term_wstep_def Let_def in_ready_def stdin_ready_def stdin_slot_def)
  show "\<not> stdin_ready (fst (term_wstep V c s)) \<and> stdin_slot (fst (term_wstep V c s)) = stdin_slot s \<or>
      stdin_slot s = snd (term_wstep V c s)"
    if "await_of c = None" "\<not> stdin_ready s" for c and s :: "'v terminal \<times> term_io"
    using wakes_slot [OF term_step_wakes [OF that, of V]] that(2)
    by (auto simp: term_wstep_def Let_def stdin_ready_def stdin_slot_def)
qed

record 'v term_run =
  tr_node :: "'v terminal \<times> term_io"
  tr_written :: bytes
  tr_drained :: bytes
  tr_read :: bytes
  tr_asleep :: "nat set"

definition term_start :: "'v vt \<Rightarrow> 'v term_run" where
  "term_start V =
     \<lparr>tr_node = (terminal_new V term_io_new, term_io_new), tr_written = [], tr_drained = [], tr_read = [], tr_asleep = {}\<rparr>"

definition term_exec :: "'v vt \<Rightarrow> term_op \<Rightarrow> 'v term_run \<Rightarrow> 'v term_run" where
  "term_exec V c r =
     (let x = tr_node r; (x', woken) = term_wstep V c x
      in \<lparr>tr_node = x',
          tr_written = tr_written r @ put_out c (snd x),
          tr_drained = tr_drained r @ taken_out c (snd x),
          tr_read = tr_read r @ got_in c (snd x),
          tr_asleep = (tr_asleep r - set_option woken) \<union> (if stdin_ready x then {} else set_option (await_of c))\<rparr>)"

definition term_perform :: "'v vt \<Rightarrow> term_op list \<Rightarrow> 'v term_run" where
  "term_perform V cs = fold (term_exec V) cs (term_start V)"

lemma term_perform_snoc [simp]:
  "term_perform V [] = term_start V" "term_perform V (cs @ [c]) = term_exec V c (term_perform V cs)"
  by (simp_all add: term_perform_def)

text \<open>
  A guest that waits for input is woken. In every run of a node's terminal in which one task at a time
  waits on standard input, whatever the guest, its clients and its user do: the task sleeps only
  while there is nothing to read and the stream is open.
\<close>

theorem waiting_guest_is_woken:
  assumes "list_all (\<lambda>c. await_of c = None \<or> await_of c = Some t) cs"
  shows "tr_asleep (term_perform V cs) = {} \<or>
    in_buf (io_inp (snd (tr_node (term_perform V cs)))) = [] \<and> \<not> in_closed (io_inp (snd (tr_node (term_perform V cs))))"
proof -
  have "tside.attended t (tr_node (term_perform V cs)) (tr_asleep (term_perform V cs))"
    using assms
  proof (induction cs rule: rev_induct)
    case Nil
    then show ?case by (simp add: term_start_def tside.attended_def)
  next
    case (snoc c cs)
    then show ?case
      using tside.attended_step [of t "tr_node (term_perform V cs)" "tr_asleep (term_perform V cs)" c V]
      by (simp add: term_exec_def Let_def case_prod_beta tside.falls_asleep_def)
  qed
  then show ?thesis by (auto simp: tside.attended_def stdin_ready_def)
qed

subsection \<open>Output\<close>

text \<open>What input does leaves the output side alone.\<close>

definition same_output :: "term_io \<Rightarrow> term_io \<Rightarrow> bool" where
  "same_output io io' \<longleftrightarrow> io_out io' = io_out io \<and> io_log io' = io_log io"

lemma same_output_refl [simp, intro]: "same_output io io"
  by (simp add: same_output_def)

lemma same_output_trans [trans]: "same_output io io' \<Longrightarrow> same_output io' io'' \<Longrightarrow> same_output io io''"
  by (simp add: same_output_def)

lemma same_output_feed_in: "same_output io (feed_in b io)" and same_output_close: "same_output io (term_close io)"
  by (auto simp: same_output_def feed_in_def term_close_def wake_in_def split: option.split)

lemma same_output_events: "same_output io (reply_events texts io)"
  by (induction texts arbitrary: io) (auto simp: reply_events_def intro: same_output_trans same_output_feed_in)

lemma same_output_feed: "same_output (snd x) (snd (term_feed V b x))"
  by (cases x) (auto simp: term_feed_def same_output_events split: prod.split)

lemma same_output_key: "same_output (snd x) (snd (key_byte V echo b x))"
proof -
  have "same_output (snd x) (snd (term_feed V d (set_line l x)))" for d l
    using same_output_feed [of "set_line l x" V d] by simp
  moreover have "same_output (snd x) (feed_in l (snd (term_feed V d x)))" for d l
    using same_output_trans [OF same_output_feed same_output_feed_in] .
  ultimately show ?thesis by (simp add: key_byte_def same_output_close Let_def)
qed

lemma same_output_keys: "same_output (snd x) (snd (key_loop V echo bs x))"
  by (induction V echo bs x rule: key_loop.induct) (auto intro: same_output_trans same_output_key)

lemma term_step_output:
  shows "io_log (snd (term_step V c (t, io))) = (case c of GuestWrite b \<Rightarrow> log_push (io_log io) (put_out c io) | _ \<Rightarrow> io_log io) \<and>
    taken_out c io @ io_out (snd (term_step V c (t, io))) = io_out io @ (if length (io_out io) < out_limit then put_out c io else [])"
proof -
  have f: "same_output io1 (snd (term_feed V d (t, io1)))" for io1 d using same_output_feed [of "(t, io1)" V d] by simp
  have k: "same_output io (snd (key_loop V e bs (t, io)))" for e bs using same_output_keys [of "(t, io)" V e bs] by simp
  show ?thesis
    using same_output_feed_in [of io] same_output_close [of io] same_output_events [of io] f k
    by (cases c)
      (simp_all add: same_output_def write_out_def stdin_read_def in_ready_def set_tty_def set_output_nl_def drain_out_def
        term_resize_def set_term_size_def reopen_def key_input_def Let_def split: prod.split)
qed

lemma post_process_length: "length (post_process io b) \<le> 2 * length b"
proof -
  have "length (concat (map (\<lambda>c. if c = 10 then [13, c] else [c]) b)) \<le> 2 * length b" for b :: bytes
    by (induction b) auto
  then show ?thesis by (simp add: post_process_def Let_def)
qed

definition small_write :: "term_op \<Rightarrow> bool" where
  "small_write c = (case c of GuestWrite b \<Rightarrow> length b \<le> out_check_write | _ \<Rightarrow> True)"

definition output_ok :: "'v term_run \<Rightarrow> bool" where
  "output_ok r \<longleftrightarrow>
     (let out = io_out (snd (tr_node r))
      in length out < out_limit + 2 * out_check_write \<and> ring_holds (io_log (snd (tr_node r))) (tr_written r) \<and>
         subseq (tr_drained r @ out) (tr_written r) \<and>
         (length (tr_written r) < out_limit \<longrightarrow> tr_drained r @ out = tr_written r))"

lemma output_ok_step:
  assumes "output_ok r" "small_write c"
  shows "output_ok (term_exec V c r)"
proof -
  obtain t io where x: "tr_node r = (t, io)" by (cases "tr_node r")
  let ?out = "io_out (snd (term_step V c (t, io)))" and ?p = "put_out c io"
  let ?q = "if length (io_out io) < out_limit then ?p else []"
  note step = term_step_output [of V c t io]
  have d: "(tr_drained r @ taken_out c io) @ ?out = (tr_drained r @ io_out io) @ ?q" using step by simp
  have p: "length ?p \<le> 2 * out_check_write"
    using assms(2) by (cases c) (auto simp: small_write_def intro: order_trans [OF post_process_length])
  have "length ?out \<le> length (io_out io) + length ?q" using step by (metis le_add2 length_append)
  then have "length ?out < out_limit + 2 * out_check_write"
    using assms(1) p by (auto simp: output_ok_def x Let_def split: if_splits)
  moreover have "ring_holds (io_log (snd (term_step V c (t, io)))) (tr_written r @ ?p)"
    using assms(1) step ring_push [of "io_log io" "tr_written r" ?p] by (cases c) (simp_all add: output_ok_def x Let_def)
  moreover have "subseq ((tr_drained r @ taken_out c io) @ ?out) (tr_written r @ ?p)"
    unfolding d using assms(1) by (intro list_emb_append_mono) (simp_all add: output_ok_def x Let_def)
  moreover have "(tr_drained r @ taken_out c io) @ ?out = tr_written r @ ?p" if "length (tr_written r @ ?p) < out_limit"
    unfolding d using assms(1) that by (auto simp: output_ok_def x Let_def dest!: arg_cong [of _ _ length])
  ultimately show ?thesis
    by (simp add: output_ok_def term_exec_def term_wstep_def x Let_def)
qed

text \<open>
  Output is bounded, complete in the log's window and in order. In every run whose guest writes no
  more at once than it is told it may: the backlog that waits for a client stays under 4 MiB
  and 128 KiB; the log holds exactly the last 256 KiB of what the guest wrote; and what the
  clients drained, with the backlog, is what was written, in order and with nothing
  repeated, from which only writes onto a full backlog are missing; before 4 MiB are written nothing is missing.
\<close>

theorem output_is_bounded_and_in_order:
  assumes "list_all small_write cs" "r = term_perform V cs"
  shows "length (io_out (snd (tr_node r))) < 4 * 2 ^ 20 + 2 * 2 ^ 16 \<and>
    lr_data (io_log (snd (tr_node r))) = drop (length (tr_written r) - 2 ^ 18) (tr_written r) \<and>
    subseq (tr_drained r @ io_out (snd (tr_node r))) (tr_written r) \<and>
    (length (tr_written r) < 4 * 2 ^ 20 \<longrightarrow> tr_drained r @ io_out (snd (tr_node r)) = tr_written r)"
proof -
  have "output_ok (term_perform V cs)"
    using assms(1)
  proof (induction cs rule: rev_induct)
    case Nil
    then show ?case by (simp add: term_start_def term_io_new_def out_limit_def output_ok_def)
  qed (simp add: output_ok_step)
  then show ?thesis
    by (simp add: assms(2) output_ok_def ring_holds_def out_limit_def out_check_write_def log_cap_def Let_def)
qed

subsection \<open>The line discipline\<close>

text \<open>A screen that writes nothing back: no program asks it for a report.\<close>

definition silent :: "'v vt \<Rightarrow> bool" where
  "silent V \<longleftrightarrow> (\<forall>v b. snd (vt_advance V v b) = []) \<and> (\<forall>v m n. snd (vt_resize V v m n) = [])"

definition stdin_of :: "'v terminal \<times> term_io \<Rightarrow> bytes" where
  "stdin_of x = in_buf (io_inp (snd x))"

lemma stdin_set_line [simp]: "stdin_of (set_line l x) = stdin_of x"
  by (simp add: stdin_of_def)

lemma in_buf_feed [simp]: "in_buf (io_inp (feed_in b io)) = in_buf (io_inp io) @ b" "in_buf (io_inp (term_close io)) = in_buf (io_inp io)"
  by (simp_all add: feed_in_def term_close_def wake_in_def split: option.split)

lemma silent_feed:
  assumes "silent V"
  shows "stdin_of (term_feed V b x) = stdin_of x" "tl_line (fst (term_feed V b x)) = tl_line (fst x)"
proof -
  obtain t io v where "x = (t, io)" "vt_advance V (tl_term t) b = (v, [])"
    using assms by (cases x) (metis prod.collapse silent_def)
  then show "stdin_of (term_feed V b x) = stdin_of x" "tl_line (fst (term_feed V b x)) = tl_line (fst x)"
    by (simp_all add: term_feed_def stdin_of_def reply_events_def)
qed

text \<open>The four things a key does to the line and to standard input.\<close>

lemma key_enter:
  assumes "silent V" "b = 13 \<or> b = 10"
  shows "stdin_of (key_byte V echo b x) = stdin_of x @ tl_line (fst x) @ [10] \<and> tl_line (fst (key_byte V echo b x)) = []"
  using assms silent_feed [OF assms(1), of "[13, 10]" x] by (simp add: key_byte_def stdin_of_def Let_def)

lemma key_char:
  assumes "silent V" "printable b"
  shows "stdin_of (key_byte V echo b x) = stdin_of x \<and> tl_line (fst (key_byte V echo b x)) = tl_line (fst x) @ [b]"
proof -
  have "b \<noteq> 13 \<and> b \<noteq> 10 \<and> b \<noteq> 0x7F \<and> b \<noteq> 8 \<and> b \<noteq> 3 \<and> b \<noteq> 4" using assms(2) by (auto simp: printable_def)
  then show ?thesis using assms by (simp add: key_byte_def silent_feed Let_def)
qed

lemma key_erase:
  assumes "silent V" "tl_line (fst x) \<noteq> []"
  shows "stdin_of (key_byte V echo 0x7F x) = stdin_of x \<and> tl_line (fst (key_byte V echo 0x7F x)) = butlast (tl_line (fst x))"
  using assms by (simp add: key_byte_def silent_feed Let_def)

lemma key_other:
  assumes "silent V" "b \<noteq> 13" "b \<noteq> 10"
  shows "stdin_of (key_byte V echo b x) = stdin_of x \<and>
    set (tl_line (fst (key_byte V echo b x))) \<subseteq> set (tl_line (fst x)) \<union> (if printable b then {b} else {})"
  using assms by (auto simp: key_byte_def silent_feed stdin_of_def [of "(_, term_close _)"] Let_def dest: in_set_butlastD)
    (simp_all add: stdin_of_def)

subsubsection \<open>Typing with corrections\<close>

lemma key_loop_fold: "0x1B \<notin> set bs \<Longrightarrow> key_loop V echo bs x = fold (key_byte V echo) bs x"
  by (induction bs arbitrary: x) auto

lemma keys_chars:
  assumes "silent V" "list_all printable bs"
  shows "stdin_of (fold (key_byte V echo) bs x) = stdin_of x \<and> tl_line (fst (fold (key_byte V echo) bs x)) = tl_line (fst x) @ bs"
  using assms(2)
proof (induction bs arbitrary: x)
  case (Cons b bs)
  then show ?case using key_char [OF assms(1), of b echo x] by simp
qed simp

lemma keys_erased:
  assumes "silent V" "tl_line (fst x) = l @ junk"
  shows "stdin_of (fold (key_byte V echo) (replicate (length junk) 0x7F) x) = stdin_of x \<and>
    tl_line (fst (fold (key_byte V echo) (replicate (length junk) 0x7F) x)) = l"
  using assms(2)
proof (induction junk arbitrary: x rule: rev_induct)
  case (snoc b junk)
  have e: "stdin_of (key_byte V echo 0x7F x) = stdin_of x \<and> tl_line (fst (key_byte V echo 0x7F x)) = l @ junk"
    using key_erase [OF assms(1), of x echo] snoc.prems by (simp add: butlast_append)
  then show ?case using snoc.IH [of "key_byte V echo 0x7F x"] by simp
qed simp

definition strokes :: "(bytes \<times> u8) list \<Rightarrow> bytes" where
  "strokes segs = concat (map (\<lambda>(junk, c). junk @ replicate (length junk) 0x7F @ [c]) segs)"

definition typable :: "(bytes \<times> u8) list \<Rightarrow> bool" where
  "typable segs \<longleftrightarrow> list_all (\<lambda>(junk, c). list_all printable junk \<and> printable c) segs"

lemma keys_strokes:
  assumes "silent V" "typable segs"
  shows "stdin_of (fold (key_byte V echo) (strokes segs) x) = stdin_of x \<and>
    tl_line (fst (fold (key_byte V echo) (strokes segs) x)) = tl_line (fst x) @ map snd segs"
  using assms(2)
proof (induction segs arbitrary: x)
  case (Cons s segs)
  obtain junk c where s: "s = (junk, c)" "list_all printable junk" "printable c" using Cons.prems by (cases s) (simp add: typable_def)
  let ?x1 = "fold (key_byte V echo) junk x"
  let ?x2 = "fold (key_byte V echo) (replicate (length junk) 0x7F) ?x1"
  have "stdin_of ?x2 = stdin_of x \<and> tl_line (fst ?x2) = tl_line (fst x)"
    using keys_chars [OF assms(1) s(2), of echo x] keys_erased [OF assms(1), of ?x1 "tl_line (fst x)" junk echo] by simp
  then have "stdin_of (key_byte V echo c ?x2) = stdin_of x \<and> tl_line (fst (key_byte V echo c ?x2)) = tl_line (fst x) @ [c]"
    using key_char [OF assms(1) s(3), of echo ?x2] by simp
  moreover have "strokes (s # segs) = junk @ replicate (length junk) 0x7F @ [c] @ strokes segs" by (simp add: strokes_def s)
  ultimately show ?case
    using Cons.IH [of "key_byte V echo c ?x2"] Cons.prems s(1) by (simp add: typable_def)
qed (simp add: strokes_def)

lemma strokes_no_escape: "typable segs \<Longrightarrow> 0x1B \<notin> set (strokes segs)"
  by (fastforce simp: typable_def strokes_def list_all_iff printable_def)

lemma keys_lines:
  assumes "silent V" "list_all typable docs" "tl_line (fst x) = []"
    and x': "x' = fold (key_byte V echo) (concat (map (\<lambda>segs. strokes segs @ [13]) docs)) x"
  shows "stdin_of x' = stdin_of x @ concat (map (\<lambda>segs. map snd segs @ [10]) docs) \<and> tl_line (fst x') = []"
  unfolding x' using assms(2,3)
proof (induction docs arbitrary: x)
  case (Cons segs docs)
  let ?x1 = "fold (key_byte V echo) (strokes segs) x"
  have "stdin_of (key_byte V echo 13 ?x1) = stdin_of x @ map snd segs @ [10] \<and> tl_line (fst (key_byte V echo 13 ?x1)) = []"
    using keys_strokes [OF assms(1), of segs echo x] key_enter [OF assms(1), of 13 echo ?x1] Cons.prems by simp
  then show ?case using Cons.IH [of "key_byte V echo 13 ?x1"] Cons.prems by simp
qed simp


definition demo_vt :: "unit vt" where
  "demo_vt = \<lparr>vt_new = (\<lambda>c r. ()), vt_advance = (\<lambda>v b. ((), [])), vt_resize = (\<lambda>v m n. ((), []))\<rparr>"


subsubsection \<open>Whole lines\<close>

definition whole_lines :: "bytes \<Rightarrow> bool" where
  "whole_lines bs \<longleftrightarrow> (\<exists>ls. bs = concat (map (\<lambda>l. l @ [10]) ls) \<and> list_all (list_all printable) ls)"

lemma whole_lines_snoc: "whole_lines bs \<Longrightarrow> list_all printable l \<Longrightarrow> whole_lines (bs @ l @ [10])"
  unfolding whole_lines_def by (elim exE conjE, rule exI [of _ "_ @ [l]"]) simp

definition lines_ok :: "bytes \<Rightarrow> 'v terminal \<times> term_io \<Rightarrow> bool" where
  "lines_ok got x \<longleftrightarrow> whole_lines (got @ stdin_of x) \<and> list_all printable (tl_line (fst x))"

lemma lines_ok_key:
  assumes "silent V" "lines_ok got x"
  shows "lines_ok got (key_byte V echo b x)"
proof (cases "b = 13 \<or> b = 10")
  case True
  with assms show ?thesis
    using key_enter [OF assms(1) True, of echo x] whole_lines_snoc [of "got @ stdin_of x" "tl_line (fst x)"] by (simp add: lines_ok_def)
next
  case False
  with assms show ?thesis
    using key_other [OF assms(1), of b echo x] by (auto simp: lines_ok_def list_all_iff split: if_splits)
qed

lemma lines_ok_keys: "silent V \<Longrightarrow> lines_ok got x \<Longrightarrow> lines_ok got (key_loop V echo bs x)"
  by (induction V echo bs x rule: key_loop.induct) (auto intro: lines_ok_key)

fun feeds_raw :: "term_op \<Rightarrow> bool" where
  "feeds_raw (ClientInput b) = True"
| "feeds_raw _ = False"

lemma lines_ok_step:
  assumes "silent V" "lines_ok got (t, io)" "\<not> feeds_raw c"
  shows "lines_ok (got @ got_in c io) (term_step V c (t, io))"
proof -
  have same: "lines_ok got y" if "stdin_of y = stdin_of (t, io)" "tl_line (fst y) = tl_line t" for y :: "'a terminal \<times> term_io"
    using assms(2) that by (simp add: lines_ok_def)
  show ?thesis
  proof (cases c)
    case (GuestRead n)
    then show ?thesis using assms(2) by (auto simp: lines_ok_def stdin_of_def stdin_read_def Let_def)
  next
    case (ClientKeys b)
    then show ?thesis using assms by (simp add: key_input_def lines_ok_keys)
  next
    case (ClientResize m n)
    have "snd (vt_resize V (tl_term t) a b) = []" for a b using assms(1) by (simp add: silent_def)
    then have "stdin_of (term_resize V m n (t, io)) = stdin_of (t, io) \<and> tl_line (fst (term_resize V m n (t, io))) = tl_line t"
      by (auto simp: term_resize_def stdin_of_def set_term_size_def reply_events_def Let_def split: prod.split)
        (metis fold_simps(1) snd_conv)+
    with ClientResize same show ?thesis by simp
  next
    case ClientRender
    with same silent_feed [OF assms(1)] show ?thesis by (simp add: drain_out_def stdin_of_def)
  qed (use assms(3) same in \<open>simp_all add: stdin_of_def write_out_def in_ready_def set_tty_def set_output_nl_def drain_out_def
      set_term_size_def reopen_def Let_def\<close>)
qed


subsection \<open>A session\<close>

definition demo_session :: "term_op list" where
  "demo_session =
     [GuestAwait 1, ClientKeys [108, 115, 13], GuestRead 2, GuestWrite [97, 10], ClientRender, GuestRead 9, GuestAwait 1,
      ClientKeys [27, 91, 65, 120], NodeClose]"

lemma demo_silent: "silent demo_vt"
  by (simp add: silent_def demo_vt_def)

lemmas term_eval = term_perform_def term_exec_def term_wstep_def term_start_def terminal_new_def term_io_new_def newly_woken_def
  stdin_ready_def in_ready_def stdin_read_def key_input_def key_byte_def printable_def set_line_def term_feed_def demo_vt_def
  reply_events_def feed_in_def term_close_def wake_in_def write_out_def post_process_def is_raw_def drain_out_def out_limit_def
  log_push_def log_new_def stdin_of_def Let_def

lemma demo_session_run:
  "tr_read (term_perform demo_vt demo_session) = [108, 115, 10]" "tr_written (term_perform demo_vt demo_session) = [97, 13, 10]"
  "in_closed (io_inp (snd (tr_node (term_perform demo_vt demo_session))))" "tr_drained (term_perform demo_vt demo_session) = [97, 13, 10]"
  by (simp_all add: demo_session_def term_eval)

theorem waiting_guest_is_woken_witness:
  "list_all (\<lambda>c. await_of c = None \<or> await_of c = Some 1) demo_session \<and> tr_asleep (term_perform demo_vt demo_session) = {}"
proof -
  have "list_all (\<lambda>c. await_of c = None \<or> await_of c = Some 1) demo_session" by (simp add: demo_session_def)
  with waiting_guest_is_woken [OF this, of demo_vt] demo_session_run(3) show ?thesis by simp
qed

theorem output_is_bounded_and_in_order_witness:
  "tr_drained (term_perform demo_vt demo_session) @ io_out (snd (tr_node (term_perform demo_vt demo_session))) = [97, 13, 10]"
proof -
  have "list_all small_write demo_session" by (simp add: demo_session_def small_write_def out_check_write_def)
  from output_is_bounded_and_in_order [OF this refl, of demo_vt] show ?thesis by (simp add: demo_session_run)
qed


subsection \<open>Colours\<close>

definition xterm_base :: "u8 list list" where
  "xterm_base =
     [[0, 0, 0], [205, 0, 0], [0, 205, 0], [205, 205, 0], [0, 0, 238], [205, 0, 205], [0, 205, 205], [229, 229, 229],
      [127, 127, 127], [255, 0, 0], [0, 255, 0], [255, 255, 0], [92, 92, 255], [255, 0, 255], [0, 255, 255], [255, 255, 255]]"

definition cube_level :: "u8 \<Rightarrow> u8" where
  "cube_level v = (if v = 0 then 0 else 55 + v * 40)"

definition xterm256 :: "u8 \<Rightarrow> u8 list" where
  "xterm256 i =
     (if i \<le> 15 then xterm_base ! unat i
      else if i \<le> 231
      then (let i = i - 16 in [cube_level (i div 36), cube_level ((i mod 36) div 6), cube_level (i mod 6)])
      else (let v = 8 + (i - 232) * 10 in [v, v, v]))"

text \<open>The bytes of the palette do not wrap: the six levels and the 24 greys are what they are as numbers.\<close>

lemma palette_does_not_wrap:
  "map (\<lambda>k. unat (cube_level (of_nat k))) [0..<6] = [0, 95, 135, 175, 215, 255]"
  "map (\<lambda>k. map unat (xterm256 (of_nat k))) [232..<256] = map (\<lambda>k. replicate 3 (8 + 10 * k)) [0..<24]"
  by code_simp+

subsection \<open>Where the code departs from its comments\<close>

text \<open>
  The next guest does not start from a clean stream: what the last one left unread is still there
  when standard input is opened again, and so is a line that was being typed.
\<close>

lemma restarted_guest_reads_old_input:
  "in_buf (io_inp (reopen (term_close (feed_in b io)))) = in_buf (io_inp io) @ b"
  by (simp add: reopen_def)

text \<open>A resize records the size and wakes nobody.\<close>

lemma resize_wakes_nobody: "silent V \<Longrightarrow> io_woken (snd (term_resize V m n (t, io))) = io_woken io"
  by (auto simp: term_resize_def set_term_size_def silent_def reply_events_def Let_def split: prod.split)
   (metis fold_simps(1) snd_conv)

end
