(* ===== verification/Arp.thy ===== *)
theory Arp
  imports Transport
begin

unbundle bit_operations_syntax

text \<open>
  The arpeggiator (\<open>plugins/arp/src/lib.rs\<close>): keys held on its input become a pattern of single notes on its
  output, stamped with the instants they fall on. One frame of its main loop takes the waiting
  messages, the turns of the knobs and the clock. The arithmetic of \<open>f64\<close> is an argument, as for the
  transport; so is the value at which a turned knob comes to rest (\<open>f32\<close>, with a logarithm for the rate).
  Drawing, and finding the knob under the pointer, are left out.
\<close>

subsection \<open>Data\<close>

record 'f arp_ops = "'f f64_ops" +
  f_min :: "'f \<Rightarrow> 'f \<Rightarrow> 'f"
  kn_at :: "rat \<Rightarrow> rat \<Rightarrow> bool \<Rightarrow> f32 \<Rightarrow> f32"

record knob =
  kn_value :: f32
  kn_min :: rat
  kn_max :: rat
  kn_log :: bool

record 'f arp =
  ar_held :: "u8 list"
  ar_seq :: "u8 list"
  ar_idx :: nat
  ar_dir :: int
  ar_next_at :: "'f option"
  ar_sounding :: "(u8 \<times> 'f) option"
  ar_vel :: u8
  ar_restart :: bool
  ar_knobs :: "knob list"

definition arp_lookahead_us :: rat where
  "arp_lookahead_us = 20000"

definition max_steps_per_tick :: nat where
  "max_steps_per_tick = 64"

definition knob_rate :: nat where "knob_rate = 0"
definition knob_gate :: nat where "knob_gate = 1"
definition knob_mode :: nat where "knob_mode = 2"
definition knob_oct :: nat where "knob_oct = 3"

text \<open>0.6 and 0.1 are the nearest \<open>f32\<close>.\<close>

definition arp_new :: "'f arp" where
  "arp_new =
     \<lparr>ar_held = [], ar_seq = [], ar_idx = 0, ar_dir = 1, ar_next_at = None, ar_sounding = None, ar_vel = 100, ar_restart = True,
      ar_knobs =
        [\<lparr>kn_value = Finite 8, kn_min = 1, kn_max = 16, kn_log = True\<rparr>,
         \<lparr>kn_value = Finite (10066330 / 16777216), kn_min = 13421773 / 134217728, kn_max = 1, kn_log = False\<rparr>,
         \<lparr>kn_value = Finite 0, kn_min = 0, kn_max = 2, kn_log = False\<rparr>,
         \<lparr>kn_value = Finite 1, kn_min = 1, kn_max = 3, kn_log = False\<rparr>]\<rparr>"

subsection \<open>Operations\<close>

definition set_norm :: "'f arp_ops \<Rightarrow> f32 \<Rightarrow> knob \<Rightarrow> knob" where
  "set_norm F n k = k\<lparr>kn_value := kn_at F (kn_min k) (kn_max k) (kn_log k) (f32_clamp 0 1 n)\<rparr>"

text \<open>The keys are a \<open>BTreeSet\<close>: an ordered list without repetition.\<close>

definition arp_note_on :: "u8 \<Rightarrow> u8 \<Rightarrow> 'f arp \<Rightarrow> 'f arp" where
  "arp_note_on n vel a = a\<lparr>ar_vel := vel, ar_held := insort_insert n (ar_held a)\<rparr>"

definition arp_note_off :: "u8 \<Rightarrow> 'f arp \<Rightarrow> 'f arp" where
  "arp_note_off n a = a\<lparr>ar_held := remove1 n (ar_held a)\<rparr>"

definition arp_apply_options :: "f32 list \<Rightarrow> 'f arp \<Rightarrow> 'f arp" where
  "arp_apply_options vals a =
     (if length vals = 4
      then a\<lparr>ar_knobs := map (\<lambda>(k, v). k\<lparr>kn_value := f32_clamp (kn_min k) (kn_max k) v\<rparr>) (zip (ar_knobs a) vals)\<rparr>
      else a)"

definition arp_options :: "'f arp \<Rightarrow> f32 list" where
  "arp_options a = map kn_value (ar_knobs a)"

text \<open>\<open>f32::round\<close>: to the nearest integer, halves away from zero.\<close>

fun f32_nearest :: "f32 \<Rightarrow> f32" where
  "f32_nearest (Finite q) = Finite (of_int (if 0 \<le> q then \<lfloor>q + 1 / 2\<rfloor> else \<lceil>q - 1 / 2\<rceil>))"
| "f32_nearest x = x"

definition knob_int :: "nat \<Rightarrow> 'f arp \<Rightarrow> int" where
  "knob_int i a = as_i32 (f32_nearest (kn_value (ar_knobs a ! i)))"

definition rebuild_seq :: "'f arp \<Rightarrow> 'f arp" where
  "rebuild_seq a =
     (let oct = max 1 (knob_int knob_oct a);
          sq = concat (map (\<lambda>o1. map of_int (filter (\<lambda>v. v \<le> 127) (map (\<lambda>n. int (unat n) + 12 * int o1) (ar_held a)))) [0..<nat oct])
      in a\<lparr>ar_seq := sq, ar_idx := (if sq \<noteq> [] \<and> length sq \<le> ar_idx a then length sq - 1 else ar_idx a)\<rparr>)"

definition arp_off :: "'f arp_ops \<Rightarrow> u8 \<Rightarrow> 'f \<Rightarrow> emit" where
  "arp_off F n tm = \<lparr>em_data = [0x80, n, 0], em_time = f_as_u64 F (f_max F tm (f_lit F 0))\<rparr>"

definition arp_release :: "'f arp_ops \<Rightarrow> 'f arp \<Rightarrow> 'f arp \<times> emit list" where
  "arp_release F a =
     (case ar_sounding a of
        None \<Rightarrow> (a, [])
      | Some (n, off_at) \<Rightarrow> (a\<lparr>ar_sounding := None\<rparr>, [arp_off F n off_at]))"

definition release_before :: "'f arp_ops \<Rightarrow> 'f \<Rightarrow> 'f arp \<Rightarrow> 'f arp \<times> emit list" where
  "release_before F limit a =
     (case ar_sounding a of
        None \<Rightarrow> (a, [])
      | Some (n, off_at) \<Rightarrow> (a\<lparr>ar_sounding := None\<rparr>, [arp_off F n (f_min F off_at limit)]))"

definition next_place :: "int \<Rightarrow> 'f arp \<Rightarrow> 'f arp" where
  "next_place mode a =
     (let len = length (ar_seq a)
      in if ar_restart a
         then a\<lparr>ar_idx := (if mode = 1 then len - 1 else 0), ar_dir := 1, ar_restart := False\<rparr>
         else if len = 1 then a\<lparr>ar_idx := 0\<rparr>
         else if mode = 0 then a\<lparr>ar_idx := (ar_idx a + 1) mod len\<rparr>
         else if mode = 1 then a\<lparr>ar_idx := (ar_idx a + len - 1) mod len\<rparr>
         else
           (let i = int (ar_idx a) + ar_dir a
            in if int len - 1 \<le> i then a\<lparr>ar_idx := nat (max (int len - 1) 0), ar_dir := - 1\<rparr>
               else if i \<le> 0 then a\<lparr>ar_idx := 0, ar_dir := 1\<rparr>
               else a\<lparr>ar_idx := nat (max i 0)\<rparr>))"

definition fire_step :: "'f arp_ops \<Rightarrow> 'f \<Rightarrow> 'f \<Rightarrow> 'f arp \<Rightarrow> 'f arp \<times> emit list" where
  "fire_step F tm gate_us a =
     (if ar_seq a = [] then (a, [])
      else
        (let a1 = next_place (knob_int knob_mode a) a;
             n = ar_seq a1 ! min (ar_idx a1) (length (ar_seq a1) - 1)
         in (a1\<lparr>ar_sounding := Some (n, f_add F tm gate_us)\<rparr>,
             [\<lparr>em_data = [0x90, n, max (ar_vel a1) 1], em_time = f_as_u64 F (f_max F tm (f_lit F 0))\<rparr>])))"

fun tick_loop :: "'f arp_ops \<Rightarrow> nat \<Rightarrow> 'f \<Rightarrow> 'f \<Rightarrow> 'f \<Rightarrow> 'f \<Rightarrow> 'f arp \<Rightarrow> 'f \<times> 'f arp \<times> emit list" where
  "tick_loop F 0 step_us gate_us horizon tm a = (tm, a, [])"
| "tick_loop F (Suc budget) step_us gate_us horizon tm a =
     (if f_less F tm horizon
      then
        (let (a1, out1) = release_before F tm a;
             (a2, out2) = fire_step F tm gate_us a1;
             (tm', a3, out3) = tick_loop F budget step_us gate_us horizon (f_add F tm step_us) a2
         in (tm', a3, out1 @ out2 @ out3))
      else (tm, a, []))"

definition arp_tick :: "'f arp_ops \<Rightarrow> nat \<Rightarrow> 'f arp \<Rightarrow> 'f arp \<times> emit list" where
  "arp_tick F clock a =
     (if ar_held a = []
      then
        (let (a1, out) = arp_release F a
         in (a1\<lparr>ar_next_at := None, ar_restart := True, ar_dir := 1\<rparr>, out))
      else
        (let step_us = f_div F (f_lit F 1000000) (f_f32 F (kn_value (ar_knobs a ! knob_rate)));
             gate_us = f_mul F step_us (f_f32 F (kn_value (ar_knobs a ! knob_gate)));
             horizon = f_add F (f_int F (int clock)) (f_lit F arp_lookahead_us);
             tm = (case ar_next_at a of Some tm \<Rightarrow> tm | None \<Rightarrow> f_int F (int clock));
             (tm', a1, out) = tick_loop F max_steps_per_tick step_us gate_us horizon tm a
         in (a1\<lparr>ar_next_at := Some tm'\<rparr>, out)))"

text \<open>One message of the input.\<close>

definition arp_receive :: "bytes \<Rightarrow> 'f arp \<Rightarrow> 'f arp" where
  "arp_receive msg a =
     (case msg of
        m0 # n # vel # _ \<Rightarrow>
          (let status = m0 AND 0xF0
           in if status = 0x90 \<and> vel > 0 then arp_note_on n vel a
              else if status = 0x80 \<or> status = 0x90 then arp_note_off n a
              else if status = 0xB0 \<and> (n = 120 \<or> n = 123) then a\<lparr>ar_held := []\<rparr>
              else a)
      | _ \<Rightarrow> a)"

record frame =
  fr_messages :: "bytes list"
  fr_turns :: "(nat \<times> f32) list"
  fr_clock :: nat

definition arp_frame :: "'f arp_ops \<Rightarrow> frame \<Rightarrow> 'f arp \<Rightarrow> 'f arp \<times> emit list" where
  "arp_frame F fr a =
     (let a1 = fold arp_receive (fr_messages fr) a;
          a2 = fold (\<lambda>(i, n) a. a\<lparr>ar_knobs := (ar_knobs a)[i := set_norm F n (ar_knobs a ! i)]\<rparr>) (fr_turns fr) a1
      in arp_tick F (fr_clock fr) (rebuild_seq a2))"

fun arp_frames :: "'f arp_ops \<Rightarrow> frame list \<Rightarrow> 'f arp \<Rightarrow> 'f arp \<times> emit list" where
  "arp_frames F [] a = (a, [])"
| "arp_frames F (fr # frs) a =
     (let (a1, out1) = arp_frame F fr a; (a2, out2) = arp_frames F frs a1 in (a2, out1 @ out2))"

subsection \<open>One note at a time\<close>

text \<open>A listener that accepts only a note-on when nothing sounds, and only the release of what sounds.\<close>

fun voice :: "u8 option \<Rightarrow> emit list \<Rightarrow> u8 option option" where
  "voice cur [] = Some cur"
| "voice cur (e # es) =
     (case (em_data e, cur) of
        ([s, n, v], None) \<Rightarrow> if s = 0x90 \<and> n \<le> 127 \<and> v \<noteq> 0 then voice (Some n) es else None
      | ([s, n, v], Some m) \<Rightarrow> if s = 0x80 \<and> n = m then voice None es else None
      | _ \<Rightarrow> None)"

lemma voice_append [simp]: "voice cur (xs @ ys) = Option.bind (voice cur xs) (\<lambda>c. voice c ys)"
  by (induction cur xs rule: voice.induct) (auto split: list.split option.split)

definition sound :: "'f arp \<Rightarrow> u8 option" where
  "sound a = map_option fst (ar_sounding a)"

definition notes_ok :: "'f arp \<Rightarrow> bool" where
  "notes_ok a \<longleftrightarrow> list_all (\<lambda>n. n \<le> 127) (ar_seq a)"

lemma next_place_keeps [simp]:
  "ar_seq (next_place m a) = ar_seq a" "ar_held (next_place m a) = ar_held a" "ar_sounding (next_place m a) = ar_sounding a"
  "ar_vel (next_place m a) = ar_vel a" "ar_knobs (next_place m a) = ar_knobs a"
  by (simp_all add: next_place_def Let_def)

lemma max_one_word: "max v (1 :: u8) \<noteq> 0"
proof
  assume "max v (1 :: u8) = 0"
  then have "(1 :: u8) \<le> 0" by (metis max.cobounded2)
  then show False by simp
qed

lemma release_voice:
  "voice (sound a) (snd (release_before F tm a)) = Some None" "ar_sounding (fst (release_before F tm a)) = None"
  "voice (sound a) (snd (arp_release F a)) = Some None" "ar_sounding (fst (arp_release F a)) = None"
  by (simp_all add: release_before_def arp_release_def sound_def arp_off_def split: option.split)

lemma release_keeps [simp]:
  "ar_seq (fst (release_before F tm a)) = ar_seq a" "ar_held (fst (release_before F tm a)) = ar_held a"
  "ar_knobs (fst (release_before F tm a)) = ar_knobs a" "ar_vel (fst (release_before F tm a)) = ar_vel a"
  "ar_idx (fst (release_before F tm a)) = ar_idx a" "ar_dir (fst (release_before F tm a)) = ar_dir a"
  "ar_restart (fst (release_before F tm a)) = ar_restart a" "ar_held (fst (arp_release F a)) = ar_held a"
  by (simp_all add: release_before_def arp_release_def split: option.split)

lemma fire_voice:
  assumes "notes_ok a" "ar_sounding a = None"
  shows "voice None (snd (fire_step F tm g a)) = Some (sound (fst (fire_step F tm g a)))"
proof -
  have "ar_seq a ! min i (length (ar_seq a) - 1) \<le> 127" if "ar_seq a \<noteq> []" for i
    using assms(1) that by (simp add: notes_ok_def list_all_iff min_less_iff_disj)
  then show ?thesis using assms(2) max_one_word by (auto simp: fire_step_def sound_def Let_def)
qed

lemma fire_keeps [simp]: "ar_seq (fst (fire_step F tm g a)) = ar_seq a" "ar_held (fst (fire_step F tm g a)) = ar_held a"
  "ar_knobs (fst (fire_step F tm g a)) = ar_knobs a" "ar_vel (fst (fire_step F tm g a)) = ar_vel a"
  by (simp_all add: fire_step_def Let_def)

lemma tick_loop_keeps:
  "ar_seq (fst (snd (tick_loop F b st g h tm a))) = ar_seq a \<and> ar_held (fst (snd (tick_loop F b st g h tm a))) = ar_held a \<and>
   ar_knobs (fst (snd (tick_loop F b st g h tm a))) = ar_knobs a \<and> ar_vel (fst (snd (tick_loop F b st g h tm a))) = ar_vel a"
  by (induction b arbitrary: tm a) (simp_all add: split_beta Let_def)

lemma tick_loop_voice:
  "notes_ok a \<Longrightarrow> voice (sound a) (snd (snd (tick_loop F b st g h tm a))) = Some (sound (fst (snd (tick_loop F b st g h tm a))))"
proof (induction b arbitrary: tm a)
  case (Suc b)
  let ?a1 = "fst (release_before F tm a)"
  let ?a2 = "fst (fire_step F tm g ?a1)"
  have ok: "notes_ok ?a1" "notes_ok ?a2" using Suc.prems by (simp_all add: notes_ok_def)
  have "voice None (snd (fire_step F tm g ?a1)) = Some (sound ?a2)" using fire_voice [OF ok(1) release_voice(2)] .
  then show ?case
    using Suc.IH [OF ok(2), of "f_add F tm st"] release_voice(1) [of a F tm] by (simp add: split_beta Let_def)
qed simp

lemma rebuild_seq_notes_ok: "notes_ok (rebuild_seq a)"
proof -
  have "(of_int v :: u8) \<le> 127" if "0 \<le> v" "v \<le> 127" for v
    using that by (simp add: word_le_def uint_word_of_int_eq take_bit_int_eq_self)
  then show ?thesis by (auto simp: notes_ok_def rebuild_seq_def list_all_iff Let_def simp del: of_int_add of_int_mult)
qed

lemma arp_tick_voice:
  assumes "notes_ok a"
  shows "voice (sound a) (snd (arp_tick F c a)) = Some (sound (fst (arp_tick F c a)))"
    and "ar_held (fst (arp_tick F c a)) = ar_held a" "ar_held a = [] \<Longrightarrow> sound (fst (arp_tick F c a)) = None"
  using release_voice(3) [of a F] release_voice(4) [of F a] tick_loop_voice [OF assms, of F]
  by (simp_all add: arp_tick_def sound_def tick_loop_keeps split_beta Let_def)

lemma input_keeps_sound:
  "sound (fold arp_receive ms a) = sound a"
  "sound (fold (\<lambda>(i, n) a. a\<lparr>ar_knobs := (ar_knobs a)[i := set_norm F n (ar_knobs a ! i)]\<rparr>) ts a) = sound a"
  "sound (rebuild_seq a) = sound a"
proof -
  have "sound (arp_receive m a) = sound a" for m and a :: "'a arp"
    by (simp add: arp_receive_def arp_note_on_def arp_note_off_def sound_def Let_def split: list.split)
  then show "sound (fold arp_receive ms a) = sound a" by (induction ms arbitrary: a) simp_all
  show "sound (fold (\<lambda>(i, n) a. a\<lparr>ar_knobs := (ar_knobs a)[i := set_norm F n (ar_knobs a ! i)]\<rparr>) ts a) = sound a"
    by (induction ts arbitrary: a) (auto simp: sound_def)
  show "sound (rebuild_seq a) = sound a" by (simp add: rebuild_seq_def sound_def Let_def)
qed

lemma arp_frame_voice:
  "voice (sound a) (snd (arp_frame F fr a)) = Some (sound (fst (arp_frame F fr a)))"
  "ar_held (fst (arp_frame F fr a)) = [] \<Longrightarrow> sound (fst (arp_frame F fr a)) = None"
proof -
  have "\<exists>b. arp_frame F fr a = arp_tick F (fr_clock fr) b \<and> notes_ok b \<and> sound b = sound a"
    unfolding arp_frame_def Let_def by (intro exI conjI, rule refl, rule rebuild_seq_notes_ok, simp add: input_keeps_sound)
  then obtain b where "arp_frame F fr a = arp_tick F (fr_clock fr) b" "notes_ok b" "sound b = sound a" by blast
  then show "voice (sound a) (snd (arp_frame F fr a)) = Some (sound (fst (arp_frame F fr a)))"
    "ar_held (fst (arp_frame F fr a)) = [] \<Longrightarrow> sound (fst (arp_frame F fr a)) = None"
    using arp_tick_voice [of b F "fr_clock fr"] by simp_all
qed

lemma arp_frames_voice:
  "voice (sound a) (snd (arp_frames F frs a)) = Some (sound (fst (arp_frames F frs a))) \<and>
   ((ar_held a = [] \<longrightarrow> sound a = None) \<longrightarrow> ar_held (fst (arp_frames F frs a)) = [] \<longrightarrow> sound (fst (arp_frames F frs a)) = None)"
proof (induction frs arbitrary: a)
  case (Cons fr frs)
  show ?case
    using arp_frame_voice [where a = a and F = F and fr = fr] Cons.IH [of "fst (arp_frame F fr a)"] by (simp add: split_beta Let_def)
qed simp


subsection \<open>The pattern\<close>

text \<open>The place of the \<open>k\<close>-th step: up, down, or up and down without repeating the ends.\<close>

definition arp_pattern :: "int \<Rightarrow> nat \<Rightarrow> nat \<Rightarrow> nat" where
  "arp_pattern mode len k =
     (if len = 1 then 0
      else if mode = 0 then k mod len
      else if mode = 1 then len - 1 - k mod len
      else (let m = k mod (2 * (len - 1)) in if m < len then m else 2 * (len - 1) - m))"

abbreviation mode_of :: "'f arp \<Rightarrow> int" where
  "mode_of a \<equiv> knob_int knob_mode a"

definition at_step :: "nat \<Rightarrow> 'f arp \<Rightarrow> bool" where
  "at_step k a \<longleftrightarrow>
     (case k of
        0 \<Rightarrow> ar_restart a
      | Suc j \<Rightarrow>
          \<not> ar_restart a \<and> ar_idx a = arp_pattern (mode_of a) (length (ar_seq a)) j \<and>
          (mode_of a = 0 \<or> mode_of a = 1 \<or> length (ar_seq a) = 1 \<or>
           ar_dir a = (if j mod (2 * (length (ar_seq a) - 1)) < length (ar_seq a) - 1 then 1 else - 1)))"

lemma arp_pattern_less: "0 < len \<Longrightarrow> arp_pattern mode len k < len"
proof (cases "len = 1")
  case False
  assume "0 < len"
  with False have "2 \<le> len" by simp
  then have "k mod (2 * (len - 1)) < 2 * (len - 1)" "k mod len < len" by simp_all
  then show ?thesis by (auto simp: arp_pattern_def Let_def)
qed (simp add: arp_pattern_def)

lemma down_step:
  assumes "2 \<le> len"
  shows "(len - 1 - k mod len + len - 1) mod len = len - 1 - Suc k mod len"
proof -
  obtain m where m: "k mod len = m" "m < len" using assms by auto
  show ?thesis
  proof (cases "Suc m = len")
    case True
    then have "len - 1 - m + len - 1 = m" "Suc k mod len = 0" "m < len" using m by (simp_all add: mod_Suc)
    then show ?thesis using m True by simp
  next
    case False
    then have "len - 1 - m + len - 1 = (len - 1 - Suc m) + len" using m by simp
    moreover have "Suc k mod len = Suc m" using m False by (simp add: mod_Suc)
    moreover have "(len - 1 - Suc m + len) mod len = len - 1 - Suc m" using m(2) by simp
    ultimately show ?thesis unfolding m(1) by simp
  qed
qed

text \<open>One step of the bounce, on the place \<open>m\<close> within a period of twice \<open>q\<close> steps.\<close>

definition bounce :: "nat \<Rightarrow> nat \<Rightarrow> nat" where
  "bounce q m = (if m < Suc q then m else 2 * q - m)"

definition bounce_dir :: "nat \<Rightarrow> nat \<Rightarrow> int" where
  "bounce_dir q m = (if m < q then 1 else - 1)"

lemma bounce_step:
  assumes "1 \<le> q" "m < 2 * q" "m' = (if Suc m = 2 * q then 0 else Suc m)" "i = int (bounce q m) + bounce_dir q m"
  shows "int q \<le> i \<Longrightarrow> bounce q m' = q \<and> bounce_dir q m' = - 1"
    and "\<not> int q \<le> i \<Longrightarrow> i \<le> 0 \<Longrightarrow> bounce q m' = 0 \<and> bounce_dir q m' = 1"
    and "\<not> int q \<le> i \<Longrightarrow> \<not> i \<le> 0 \<Longrightarrow> int (bounce q m') = i \<and> bounce_dir q m' = bounce_dir q m"
proof -
  have i: "i = (if m < q then int m + 1 else int (2 * q) - int m - 1)"
    using assms(2,4) by (auto simp: bounce_def bounce_dir_def)
  consider "m < q" "Suc m = q" "i = int q" | "Suc m < q" "i = int m + 1" | "q \<le> m" "Suc m = 2 * q" "i = 0"
    | "q \<le> m" "Suc m < 2 * q" "i = int (2 * q) - int m - 1"
    using assms(2) i by (cases "m < q"; cases "Suc m = q"; cases "Suc m = 2 * q") force+
  note c = this
  show "int q \<le> i \<Longrightarrow> bounce q m' = q \<and> bounce_dir q m' = - 1"
    using assms(1-3) by (cases rule: c) (auto simp: bounce_def bounce_dir_def)
  show "\<not> int q \<le> i \<Longrightarrow> i \<le> 0 \<Longrightarrow> bounce q m' = 0 \<and> bounce_dir q m' = 1"
    using assms(1-3) by (cases rule: c) (auto simp: bounce_def bounce_dir_def)
  show "\<not> int q \<le> i \<Longrightarrow> \<not> i \<le> 0 \<Longrightarrow> int (bounce q m') = i \<and> bounce_dir q m' = bounce_dir q m"
    using assms(1-3) by (cases rule: c) (auto simp: bounce_def bounce_dir_def)
qed

lemma next_place_step:
  assumes "at_step k a" "ar_seq a \<noteq> []"
  shows "ar_idx (next_place (mode_of a) a) = arp_pattern (mode_of a) (length (ar_seq a)) k \<and> at_step (Suc k) (next_place (mode_of a) a)"
proof -
  let ?len = "length (ar_seq a)"
  have md: "mode_of (next_place c a) = mode_of a" for c by (simp add: knob_int_def)
  have "?len = 1 \<or> 2 \<le> ?len" using assms(2) by (cases "ar_seq a"; cases "tl (ar_seq a)") auto
  then consider (first) "k = 0" | (one) j where "k = Suc j" "?len = 1" | (more) j where "k = Suc j" "2 \<le> ?len"
    by (cases k) auto
  then show ?thesis
  proof cases
    case first
    with assms \<open>?len = 1 \<or> 2 \<le> ?len\<close> show ?thesis
      by (auto simp: at_step_def next_place_def arp_pattern_def Let_def md knob_int_def)
  next
    case one
    with assms show ?thesis by (simp add: at_step_def next_place_def arp_pattern_def Let_def knob_int_def)
  next
    case more
    then have a: "\<not> ar_restart a" "ar_idx a = arp_pattern (mode_of a) ?len j" using assms(1) by (simp_all add: at_step_def)
    consider (up) "mode_of a = 0" | (down) "mode_of a = 1" | (both) "mode_of a \<noteq> 0" "mode_of a \<noteq> 1" by blast
    then show ?thesis
    proof cases
      case up
      with more a show ?thesis by (simp add: at_step_def next_place_def arp_pattern_def Let_def knob_int_def mod_Suc_eq)
    next
      case down
      with more a show ?thesis using down_step [OF more(2), of j]
        by (simp add: at_step_def next_place_def arp_pattern_def Let_def knob_int_def)
    next
      case both
      obtain q where q: "?len = Suc q" "1 \<le> q" using more(2) by (cases ?len) auto
      let ?m = "j mod (2 * q)" and ?m' = "k mod (2 * q)"
      have i: "int (ar_idx a) + ar_dir a = int (bounce q ?m) + bounce_dir q ?m" "ar_dir a = bounce_dir q ?m"
        using a(2) assms(1) both more q by (simp_all add: at_step_def arp_pattern_def bounce_def bounce_dir_def Let_def)
      have m: "?m < 2 * q" "?m' = (if Suc ?m = 2 * q then 0 else Suc ?m)" using q(2) more(1) by (simp_all add: mod_Suc)
      note step = bounce_step [OF q(2) m i(1)]
      have pat: "arp_pattern (mode_of a) ?len k = bounce q ?m'" using both q by (simp add: arp_pattern_def bounce_def Let_def)
      have nx: "ar_idx (next_place (mode_of a) a) = bounce q ?m' \<and> ar_dir (next_place (mode_of a) a) = bounce_dir q ?m' \<and>
          \<not> ar_restart (next_place (mode_of a) a)"
        using a(1) both q step i(2) by (auto simp: next_place_def Let_def)
      then show ?thesis using both q pat by (simp add: at_step_def md bounce_dir_def)
    qed
  qed
qed

definition note_ons :: "emit list \<Rightarrow> bytes list" where
  "note_ons out = filter (\<lambda>d. hd d = 0x90) (map em_data out)"

lemma note_ons_append [simp]: "note_ons (xs @ ys) = note_ons xs @ note_ons ys"
  by (simp add: note_ons_def)

definition step_note :: "'f arp \<Rightarrow> nat \<Rightarrow> bytes" where
  "step_note a k = [0x90, ar_seq a ! arp_pattern (mode_of a) (length (ar_seq a)) k, max (ar_vel a) 1]"

definition same_play :: "'f arp \<Rightarrow> 'f arp \<Rightarrow> bool" where
  "same_play a b \<longleftrightarrow> ar_seq b = ar_seq a \<and> ar_held b = ar_held a \<and> ar_knobs b = ar_knobs a \<and> ar_vel b = ar_vel a"

lemma step_note_same: "same_play a b \<Longrightarrow> step_note b = step_note a"
  by (simp add: same_play_def step_note_def knob_int_def fun_eq_iff)

lemma at_step_release: "at_step k (fst (release_before F tm a)) = at_step k a"
  by (simp add: at_step_def knob_int_def split: nat.split)

lemma note_ons_release: "note_ons (snd (release_before F tm a)) = []"
  by (simp add: note_ons_def release_before_def arp_off_def split: option.split)

lemma fire_plays:
  assumes "at_step k a" "ar_seq a \<noteq> []"
  shows "note_ons (snd (fire_step F tm g a)) = [step_note a k] \<and> at_step (Suc k) (fst (fire_step F tm g a))"
proof -
  have s: "at_step (Suc k) (b\<lparr>ar_sounding := x\<rparr>) = at_step (Suc k) b" for b :: "'a arp" and x
    by (simp add: at_step_def knob_int_def)
  have "arp_pattern (mode_of a) (length (ar_seq a)) k \<le> length (ar_seq a) - 1"
    using assms(2) arp_pattern_less [of "length (ar_seq a)" "mode_of a" k] by (cases "ar_seq a") auto
  then show ?thesis
    using next_place_step [OF assms] assms(2) by (simp add: fire_step_def note_ons_def step_note_def s Let_def min_absorb1)
qed

lemma tick_loop_plays:
  assumes "at_step k a" "ar_seq a \<noteq> []"
  shows "\<exists>m. note_ons (snd (snd (tick_loop F b st g h tm a))) = map (step_note a) [k..<k + m] \<and>
    at_step (k + m) (fst (snd (tick_loop F b st g h tm a))) \<and> (0 < b \<and> f_less F tm h \<longrightarrow> 0 < m)"
  using assms
proof (induction b arbitrary: tm a k)
  case 0
  then show ?case by (intro exI [of _ 0]) (simp add: note_ons_def)
next
  case (Suc b)
  let ?a1 = "fst (release_before F tm a)"
  let ?a2 = "fst (fire_step F tm g ?a1)"
  have f: "note_ons (snd (fire_step F tm g ?a1)) = [step_note a k]" "at_step (Suc k) ?a2"
    using fire_plays [of k ?a1 F tm g] Suc.prems step_note_same [of a ?a1] by (simp_all add: at_step_release same_play_def)
  obtain m where m: "note_ons (snd (snd (tick_loop F b st g h (f_add F tm st) ?a2))) = map (step_note ?a2) [Suc k..<Suc k + m]"
    "at_step (Suc k + m) (fst (snd (tick_loop F b st g h (f_add F tm st) ?a2)))"
    using Suc.IH [OF f(2), of "f_add F tm st"] Suc.prems(2) by auto
  have "step_note ?a2 = step_note a" using step_note_same [of a ?a2] by (simp add: same_play_def)
  then show ?case
  proof (cases "f_less F tm h")
    case True
    have u: "[k..<Suc (k + m)] = k # [Suc k..<Suc (k + m)]" by (simp add: upt_conv_Cons del: upt_Suc)
    show ?thesis
      using True m f \<open>step_note ?a2 = step_note a\<close>
      by (intro exI [of _ "Suc m"]) (simp add: u note_ons_release split_beta Let_def del: upt_Suc)
  qed (use Suc.prems in \<open>auto simp: note_ons_def intro: exI [of _ 0]\<close>)
qed

text \<open>A frame in which nothing is played or turned.\<close>

definition quiet_frame :: "nat \<Rightarrow> frame" where
  "quiet_frame c = \<lparr>fr_messages = [], fr_turns = [], fr_clock = c\<rparr>"

lemma rebuild_seq_again:
  "ar_seq (rebuild_seq (b\<lparr>ar_next_at := x\<rparr>)) = ar_seq (rebuild_seq a)" if "same_play (rebuild_seq a) b"
  using that by (simp add: rebuild_seq_def same_play_def knob_int_def Let_def)

lemma at_step_rebuild:
  assumes "at_step k a" "0 < k \<Longrightarrow> ar_seq (rebuild_seq a) = ar_seq a" "ar_seq (rebuild_seq a) \<noteq> []"
  shows "at_step k (rebuild_seq a)"
proof (cases k)
  case 0
  with assms(1) show ?thesis by (simp add: at_step_def rebuild_seq_def Let_def)
next
  case (Suc j)
  let ?s = "ar_seq (rebuild_seq a)"
  have s: "?s = ar_seq a" using assms(2) Suc by simp
  have "ar_idx a < length ?s"
    using assms(1,3) Suc arp_pattern_less [of "length ?s"] by (simp add: at_step_def s)
  then have "ar_idx (rebuild_seq a) = ar_idx a" by (simp add: rebuild_seq_def Let_def)
  moreover have "ar_knobs (rebuild_seq a) = ar_knobs a" "ar_dir (rebuild_seq a) = ar_dir a" "ar_restart (rebuild_seq a) = ar_restart a"
    by (simp_all add: rebuild_seq_def Let_def)
  ultimately show ?thesis using assms(1) Suc s by (simp add: at_step_def knob_int_def)
qed

definition starts_at_once :: "'f arp_ops \<Rightarrow> nat \<Rightarrow> bool" where
  "starts_at_once F c \<longleftrightarrow> f_less F (f_int F (int c)) (f_add F (f_int F (int c)) (f_lit F arp_lookahead_us))"

lemma quiet_frame_plays:
  assumes "at_step k a" "0 < k \<Longrightarrow> ar_seq (rebuild_seq a) = ar_seq a" "ar_seq (rebuild_seq a) \<noteq> []" "ar_held a \<noteq> []"
  shows "\<exists>m. note_ons (snd (arp_frame F (quiet_frame c) a)) = map (step_note (rebuild_seq a)) [k..<k + m] \<and>
    at_step (k + m) (fst (arp_frame F (quiet_frame c) a)) \<and> same_play (rebuild_seq a) (fst (arp_frame F (quiet_frame c) a)) \<and>
    (ar_next_at a = None \<and> starts_at_once F c \<longrightarrow> 0 < m)"
proof -
  let ?b = "rebuild_seq a"
  have h: "ar_held ?b = ar_held a" "ar_next_at ?b = ar_next_at a" by (simp_all add: rebuild_seq_def Let_def)
  have n: "at_step j (x\<lparr>ar_next_at := y\<rparr>) = at_step j x" for j and x :: "'a arp" and y
    by (simp add: at_step_def knob_int_def split: nat.split)
  obtain st g hz tm where t: "arp_tick F c ?b =
      ((fst (snd (tick_loop F max_steps_per_tick st g hz tm ?b)))\<lparr>ar_next_at := Some (fst (tick_loop F max_steps_per_tick st g hz tm ?b))\<rparr>,
       snd (snd (tick_loop F max_steps_per_tick st g hz tm ?b)))"
    and tm: "ar_next_at a = None \<Longrightarrow> tm = f_int F (int c)" and hz: "hz = f_add F (f_int F (int c)) (f_lit F arp_lookahead_us)"
    using assms(4) h by (simp add: arp_tick_def split_beta Let_def)
  have f: "arp_frame F (quiet_frame c) a = arp_tick F c ?b" by (simp add: arp_frame_def quiet_frame_def)
  obtain m where "note_ons (snd (snd (tick_loop F max_steps_per_tick st g hz tm ?b))) = map (step_note ?b) [k..<k + m]"
    "at_step (k + m) (fst (snd (tick_loop F max_steps_per_tick st g hz tm ?b)))" "f_less F tm hz \<longrightarrow> 0 < m"
    using tick_loop_plays [OF at_step_rebuild [OF assms(1-3)] assms(3), of F max_steps_per_tick st g hz tm]
    by (auto simp: max_steps_per_tick_def)
  then show ?thesis
    using tm hz tick_loop_keeps [of F max_steps_per_tick st g hz tm ?b]
    by (intro exI [of _ m]) (auto simp: f t n same_play_def starts_at_once_def)
qed

lemma quiet_frames_play:
  assumes "at_step k a" "ar_seq (rebuild_seq a) = ar_seq a" "ar_seq a \<noteq> []" "ar_held a \<noteq> []"
  shows "\<exists>m. note_ons (snd (arp_frames F (map quiet_frame cs) a)) = map (step_note a) [k..<k + m]"
  using assms
proof (induction cs arbitrary: k a)
  case Nil
  then show ?case by (intro exI [of _ 0]) (simp add: note_ons_def)
next
  case (Cons c cs)
  let ?a1 = "fst (arp_frame F (quiet_frame c) a)"
  obtain m where m: "note_ons (snd (arp_frame F (quiet_frame c) a)) = map (step_note (rebuild_seq a)) [k..<k + m]" "at_step (k + m) ?a1"
    "same_play (rebuild_seq a) ?a1"
    using quiet_frame_plays [of k a F c] Cons.prems by auto
  have r: "same_play a (rebuild_seq a)" using Cons.prems(2) by (simp add: same_play_def) (simp add: rebuild_seq_def Let_def)
  have s: "same_play a ?a1" using m(3) r by (simp add: same_play_def)
  have again: "ar_seq (rebuild_seq ?a1) = ar_seq ?a1"
    using m(3) Cons.prems(2) by (simp add: rebuild_seq_def same_play_def knob_int_def Let_def)
  obtain m' where "note_ons (snd (arp_frames F (map quiet_frame cs) ?a1)) = map (step_note ?a1) [k + m..<k + m + m']"
    using Cons.IH [OF m(2) again] Cons.prems s by (auto simp: same_play_def)
  then have "note_ons (snd (arp_frames F (map quiet_frame (c # cs)) a)) = map (step_note a) ([k..<k + m] @ [k + m..<k + m + m'])"
    using m(1) step_note_same [OF r] step_note_same [OF s] by (simp add: split_beta Let_def)
  also have "[k..<k + m] @ [k + m..<k + m + m'] = [k..<k + (m + m')]" using upt_add_eq_append [of k "k + m" m'] by (simp add: add.assoc)
  finally show ?case by blast
qed

text \<open>
  C36: The arpeggiator plays its pattern, whatever the frame rate. From the moment keys are held, and
  while they are held and the knobs rest, the notes it starts are the sequence of held keys and
  their octaves taken in the order of its mode (up, down, or up and down without repeating
  the ends), from the beginning and without a gap, over any frames at any clock readings;
  and it starts with the very first frame.
\<close>

theorem arp_plays_its_pattern:
  assumes "ar_restart a" "ar_next_at a = None" "ar_held a \<noteq> []" "ar_seq (rebuild_seq a) = s" "s \<noteq> []"
  shows "\<exists>m. note_ons (snd (arp_frames F (map quiet_frame (c # cs)) a)) =
      map (\<lambda>k. [0x90, s ! arp_pattern (knob_int knob_mode a) (length s) k, max (ar_vel a) 1]) [0..<m] \<and>
    (starts_at_once F c \<longrightarrow> 0 < m)"
proof -
  let ?a1 = "fst (arp_frame F (quiet_frame c) a)" and ?b = "rebuild_seq a"
  obtain m where m: "note_ons (snd (arp_frame F (quiet_frame c) a)) = map (step_note ?b) [0..<0 + m]" "at_step (0 + m) ?a1"
    "same_play ?b ?a1" "starts_at_once F c \<longrightarrow> 0 < m"
    using quiet_frame_plays [of 0 a F c] assms by (auto simp: at_step_def)
  have again: "ar_seq (rebuild_seq ?a1) = ar_seq ?a1" "ar_held ?a1 \<noteq> []"
    using m(3) assms(3) by (auto simp: rebuild_seq_def same_play_def knob_int_def Let_def)
  obtain m' where "note_ons (snd (arp_frames F (map quiet_frame cs) ?a1)) = map (step_note ?a1) [m..<m + m']"
    using quiet_frames_play [OF m(2) again(1) _ again(2)] m(3) assms(4,5) by (auto simp: same_play_def)
  then have "note_ons (snd (arp_frames F (map quiet_frame (c # cs)) a)) = map (step_note ?b) ([0..<m] @ [m..<m + m'])"
    using m(1) step_note_same [OF m(3)] by (simp add: split_beta Let_def)
  moreover have "[0..<m] @ [m..<m + m'] = [0..<m + m']" using upt_add_eq_append [of 0 m m'] by simp
  moreover have "step_note ?b = (\<lambda>k. [0x90, s ! arp_pattern (knob_int knob_mode a) (length s) k, max (ar_vel a) 1])"
    using assms(4) by (auto simp: step_note_def knob_int_def fun_eq_iff) (simp_all add: rebuild_seq_def Let_def)
  ultimately show ?thesis using m(4) by (intro exI [of _ "m + m'"]) simp
qed

subsection \<open>Examples\<close>

definition arp_int_ops :: "int arp_ops" where
  "arp_int_ops = f64_ops.extend int_ops \<lparr>f_min = min, kn_at = (\<lambda>lo hi lg n. Finite lo)\<rparr>"

definition tapped_key :: "frame list" where
  "tapped_key =
     [\<lparr>fr_messages = [[0x90, 60, 100]], fr_turns = [], fr_clock = 0\<rparr>, \<lparr>fr_messages = [[0x80, 60, 0]], fr_turns = [(0, Finite 1)], fr_clock = 50\<rparr>]"


definition held_chord :: "int arp" where
  "held_chord = arp_note_on 64 90 (arp_note_on 60 80 arp_new)"

theorem arp_plays_its_pattern_witness:
  "\<exists>m > 0. note_ons (snd (arp_frames arp_int_ops (map quiet_frame [0, 200000]) held_chord)) =
     map (\<lambda>k. [0x90, [60, 64] ! arp_pattern 0 2 k, 90]) [0..<m]"
proof -
  have h: "ar_restart held_chord" "ar_next_at held_chord = None" "ar_held held_chord \<noteq> []" "ar_seq (rebuild_seq held_chord) = [60, 64]"
    "[60, 64] \<noteq> ([] :: u8 list)" "knob_int knob_mode held_chord = 0" "ar_vel held_chord = 90" "starts_at_once arp_int_ops 0" "max 90 (1 :: u8) = 90"
    by code_simp+
  show ?thesis using arp_plays_its_pattern [OF h(1-5), of arp_int_ops 0 "[200000]"] h(6-9) by (auto simp: numeral_2_eq_2)
qed

end
