(* ===== verification/Dockerfile.thy ===== *)
theory Dockerfile
  imports Srv_Graph
begin

text \<open>
  The Dockerfile parser (\<open>crates/wk-dockerfile/src/lib.rs\<close>): logical lines, one instruction per logical line,
  and the stages of the result. The grammars of the arguments are built with the crate \<open>chumsky\<close>
  and are an argument here (\<open>grammar\<close>); what the code relies on is that \<open>copy_args\<close> gives at least two
  words. White space is that of ASCII. The text of an error is a constructor with the values it shows,
  without the detail that \<open>chumsky\<close> renders.
\<close>

subsection \<open>Data\<close>

datatype instr =
    IFrom string "string option"
  | ICopy "string list" string "string option"
  | IAdd "string list" string
  | IEntrypoint "string list"
  | ICmd "string list"
  | IEnv "(string \<times> string) list"
  | IRun "string list"
  | IWorkdir string
  | ILabel "(string \<times> string) list"
  | IIgnored string

record stage =
  st_image :: string
  st_alias :: "string option"
  st_instructions :: "instr list"

record grammar =
  gr_copy_args :: "string \<Rightarrow> ((string \<times> string option) list \<times> string list) option"
  gr_exec_array :: "string \<Rightarrow> string list option"
  gr_words :: "string \<Rightarrow> string list option"
  gr_kv_pairs :: "string \<Rightarrow> (string \<times> string) list option"

datatype df_error =
    FromNeedsImage nat
  | FromTakesAlias nat
  | BadArguments nat string
  | FromFlagNeedsStage nat string
  | FlagUnsupported nat string string
  | AddFromUnsupported nat
  | EnvNeedsValue nat
  | UnknownInstruction nat string
  | BeforeFirstFrom nat string
  | NoDestination nat

fun is_from :: "instr \<Rightarrow> bool" where
  "is_from (IFrom i a) = True"
| "is_from _ = False"

fun from_image :: "instr list \<Rightarrow> string option" where
  "from_image [] = None"
| "from_image (IFrom i a # is) = Some i"
| "from_image (_ # is) = from_image is"

text \<open>\<open>Dockerfile::stages\<close>, with the indices of the code. What is not at a \<open>FROM\<close> is unreachable.\<close>

definition stage_starts :: "instr list \<Rightarrow> nat list" where
  "stage_starts is = map fst (filter (\<lambda>(n, i). is_from i) (enumerate 0 is))"

definition stage_of :: "instr list \<Rightarrow> nat \<Rightarrow> nat \<Rightarrow> stage list" where
  "stage_of is start end' =
     (case is ! start of
        IFrom img al \<Rightarrow> [\<lparr>st_image = img, st_alias = al, st_instructions = drop (start + 1) (take end' is)\<rparr>]
      | _ \<Rightarrow> [])"

definition stages :: "instr list \<Rightarrow> stage list" where
  "stages is =
     (let starts = stage_starts is
      in concat (map (\<lambda>k. stage_of is (starts ! k) (if k + 1 < length starts then starts ! (k + 1) else length is)) [0..<length starts]))"

subsection \<open>Logical lines\<close>

definition trim_start :: "string \<Rightarrow> string" where
  "trim_start t = dropWhile is_space t"

definition trim_end :: "string \<Rightarrow> string" where
  "trim_end t = rev (dropWhile is_space (rev t))"

text \<open>\<open>str::lines\<close>: a line ends with a line feed, before which one carriage return is dropped.\<close>

definition drop_cr :: "string \<Rightarrow> string" where
  "drop_cr l = (if l \<noteq> [] \<and> last l = CHR 0x0D then butlast l else l)"

definition str_lines :: "string \<Rightarrow> string list" where
  "str_lines src =
     (let ps = split_on (CHR 0x0A) src
      in map drop_cr (butlast ps) @ (if last ps = [] then [] else [last ps]))"

definition is_comment :: "string \<Rightarrow> bool" where
  "is_comment raw = starts_with_char (CHR ''#'') (trim_start (trim_end raw))"

definition strip_backslash :: "string \<Rightarrow> string \<times> bool" where
  "strip_backslash line = (if line \<noteq> [] \<and> last line = CHR 0x5C then (butlast line, True) else (line, False))"

definition flush :: "(nat \<times> string) option \<Rightarrow> (nat \<times> string) list" where
  "flush pending = (case pending of Some (n, acc) \<Rightarrow> if trim_spaces acc \<noteq> [] then [(n, acc)] else [] | None \<Rightarrow> [])"

fun logical_loop :: "nat \<Rightarrow> string list \<Rightarrow> (nat \<times> string) option \<Rightarrow> (nat \<times> string) list" where
  "logical_loop i [] pending = flush pending"
| "logical_loop i (raw # rest) pending =
     (let line = trim_end raw
      in if pending = None \<and> (trim_spaces line = [] \<or> is_comment raw) then logical_loop (i + 1) rest None
         else if is_comment raw then logical_loop (i + 1) rest pending
         else
           (let (t, continues) = strip_backslash line;
                pending' = (case pending of Some (n, acc) \<Rightarrow> (n, acc @ '' '' @ trim_spaces t) | None \<Rightarrow> (i + 1, trim_spaces t))
            in if continues then logical_loop (i + 1) rest (Some pending')
               else flush (Some pending') @ logical_loop (i + 1) rest None))"

definition logical_lines :: "string list \<Rightarrow> (nat \<times> string) list" where
  "logical_lines ls = logical_loop 0 ls None"

subsection \<open>Instructions\<close>

definition ascii_upper :: "char \<Rightarrow> char" where
  "ascii_upper c = (let n = (of_char c :: nat) in if 97 \<le> n \<and> n \<le> 122 then char_of (n - 32) else c)"

fun split_once :: "string \<Rightarrow> (string \<times> string) option" where
  "split_once [] = None"
| "split_once (c # cs) = (if is_space c then Some ([], cs) else map_option (\<lambda>(a, b). (c # a, b)) (split_once cs))"

definition parse_from :: "nat \<Rightarrow> string \<Rightarrow> df_error + instr" where
  "parse_from n rest =
     (case split_whitespace rest of
        [] \<Rightarrow> Inl (FromNeedsImage n)
      | [img] \<Rightarrow> Inr (IFrom img None)
      | [img, kw, name] \<Rightarrow> if map ascii_upper kw = ''AS'' then Inr (IFrom img (Some name)) else Inl (FromTakesAlias n)
      | _ \<Rightarrow> Inl (FromTakesAlias n))"

fun copy_flags :: "nat \<Rightarrow> string \<Rightarrow> (string \<times> string option) list \<Rightarrow> string option \<Rightarrow> df_error + string option" where
  "copy_flags n kw [] from = Inr from"
| "copy_flags n kw ((name, value) # flags) from =
     (if name = ''chown'' \<or> name = ''chmod'' \<or> name = ''link'' then copy_flags n kw flags from
      else if name = ''from''
      then (case value of
              Some (c # cs) \<Rightarrow> copy_flags n kw flags (Some (c # cs))
            | _ \<Rightarrow> Inl (FromFlagNeedsStage n kw))
      else Inl (FlagUnsupported n kw name))"

definition parse_copy :: "grammar \<Rightarrow> nat \<Rightarrow> string \<Rightarrow> string \<Rightarrow> df_error + instr" where
  "parse_copy G n kw rest =
     (case gr_copy_args G rest of
        None \<Rightarrow> Inl (BadArguments n kw)
      | Some (flags, w) \<Rightarrow>
          (case copy_flags n kw flags None of
             Inl er \<Rightarrow> Inl er
           | Inr from \<Rightarrow>
               (case split_last w of
                  None \<Rightarrow> Inl (NoDestination n)
                | Some (dest, srcs) \<Rightarrow>
                    if kw = ''ADD'' then (if from \<noteq> None then Inl (AddFromUnsupported n) else Inr (IAdd srcs dest))
                    else Inr (ICopy srcs dest from))))"

definition parse_argv :: "grammar \<Rightarrow> nat \<Rightarrow> string \<Rightarrow> (string list \<Rightarrow> instr) \<Rightarrow> string \<Rightarrow> df_error + instr" where
  "parse_argv G n kw mk rest =
     (case gr_exec_array G rest of
        Some argv \<Rightarrow> Inr (mk argv)
      | None \<Rightarrow> (case gr_words G rest of Some argv \<Rightarrow> Inr (mk argv) | None \<Rightarrow> Inl (BadArguments n kw)))"

definition parse_env :: "grammar \<Rightarrow> nat \<Rightarrow> string \<Rightarrow> df_error + instr" where
  "parse_env G n rest =
     (case gr_kv_pairs G rest of
        Some pairs \<Rightarrow> Inr (IEnv pairs)
      | None \<Rightarrow>
          (case split_once rest of
             Some (k, v) \<Rightarrow> Inr (IEnv [(k, trim_spaces v)])
           | None \<Rightarrow> Inl (EnvNeedsValue n)))"

definition ignored_keywords :: "string list" where
  "ignored_keywords =
     [''EXPOSE'', ''USER'', ''VOLUME'', ''STOPSIGNAL'', ''HEALTHCHECK'', ''SHELL'', ''MAINTAINER'', ''ONBUILD'', ''ARG'']"

definition split_keyword :: "string \<Rightarrow> string \<times> string" where
  "split_keyword line = (case split_once line of Some (k, r) \<Rightarrow> (k, trim_spaces r) | None \<Rightarrow> (line, []))"

definition parse_instr :: "grammar \<Rightarrow> nat \<Rightarrow> string \<Rightarrow> df_error + instr" where
  "parse_instr G n line =
     (let (kw_raw, rest) = split_keyword line; kw = map ascii_upper kw_raw
      in if kw = ''FROM'' then parse_from n rest
         else if kw = ''COPY'' \<or> kw = ''ADD'' then parse_copy G n kw rest
         else if kw = ''ENTRYPOINT'' then parse_argv G n kw IEntrypoint rest
         else if kw = ''CMD'' then parse_argv G n kw ICmd rest
         else if kw = ''ENV'' then parse_env G n rest
         else if kw = ''WORKDIR'' then Inr (IWorkdir rest)
         else if kw = ''LABEL'' then (case gr_kv_pairs G rest of Some ps \<Rightarrow> Inr (ILabel ps) | None \<Rightarrow> Inl (BadArguments n kw))
         else if kw = ''RUN'' then parse_argv G n kw IRun rest
         else if kw \<in> set ignored_keywords then Inr (IIgnored kw)
         else Inl (UnknownInstruction n kw))"

fun parse_loop :: "grammar \<Rightarrow> bool \<Rightarrow> (nat \<times> string) list \<Rightarrow> df_error + instr list" where
  "parse_loop G seen_from [] = Inr []"
| "parse_loop G seen_from ((n, line) # rest) =
     (case parse_instr G n line of
        Inl er \<Rightarrow> Inl er
      | Inr i \<Rightarrow>
          (let seen = seen_from \<or> map ascii_upper (fst (split_keyword line)) = ''FROM''
           in if \<not> seen \<and> \<not> is_from i then Inl (BeforeFirstFrom n (fst (split_keyword line)))
              else case parse_loop G seen rest of Inl er \<Rightarrow> Inl er | Inr is \<Rightarrow> Inr (i # is)))"

definition df_parse :: "grammar \<Rightarrow> string \<Rightarrow> df_error + instr list" where
  "df_parse G src = parse_loop G False (logical_lines (str_lines src))"

subsection \<open>Comments\<close>

lemma flush_text: "map_option snd p = map_option snd q \<Longrightarrow> map snd (flush p) = map snd (flush q)"
  by (cases p; cases q) (auto simp: flush_def)

lemma logical_loop_comments:
  "map_option snd p = map_option snd q \<Longrightarrow>
   map snd (logical_loop i ls p) = map snd (logical_loop k (filter (\<lambda>l. \<not> is_comment l) ls) q)"
proof (induction ls arbitrary: i k p q)
  case Nil
  then show ?case using flush_text [OF Nil] by simp
next
  case (Cons raw ls)
  show ?case
  proof (cases "is_comment raw")
    case True
    with Cons.IH [OF Cons.prems, of "i + 1" k] show ?thesis by (cases p; cases q) (auto simp: Let_def)
  next
    case False
    obtain t c where s: "strip_backslash (trim_end raw) = (t, c)" by fastforce
    show ?thesis
      using False Cons.prems s Cons.IH [of None None] Cons.IH [of "Some _" "Some _"]
      by (cases p; cases q) (auto simp: Let_def flush_def)
  qed
qed

text \<open>What an instruction is does not depend on the number of its line.\<close>

lemma copy_flags_number: "copy_flags n kw fl x = Inr y \<Longrightarrow> copy_flags m kw fl x = Inr y"
  by (induction n kw fl x rule: copy_flags.induct) (auto split: if_splits option.splits list.splits)

lemma parse_parts_number:
  "parse_from n r = Inr i \<Longrightarrow> parse_from m r = Inr i" "parse_copy G n kw r = Inr i \<Longrightarrow> parse_copy G m kw r = Inr i"
  "parse_argv G n kw f r = Inr i \<Longrightarrow> parse_argv G m kw f r = Inr i" "parse_env G n r = Inr i \<Longrightarrow> parse_env G m r = Inr i"
proof -
  show "parse_from n r = Inr i \<Longrightarrow> parse_from m r = Inr i"
    by (auto simp: parse_from_def split: list.splits if_splits)
  show "parse_argv G n kw f r = Inr i \<Longrightarrow> parse_argv G m kw f r = Inr i" by (simp add: parse_argv_def split: option.splits)
  show "parse_env G n r = Inr i \<Longrightarrow> parse_env G m r = Inr i" by (simp add: parse_env_def split: option.splits prod.splits)
  show "parse_copy G m kw r = Inr i" if p: "parse_copy G n kw r = Inr i"
  proof -
    obtain fl w y where a: "gr_copy_args G r = Some (fl, w)" "copy_flags n kw fl None = Inr y"
      using p by (auto simp: parse_copy_def split: option.splits sum.splits)
    then show ?thesis
      using p copy_flags_number [OF a(2), of m] by (auto simp: parse_copy_def split: option.splits prod.splits if_splits)
  qed
qed

lemma parse_instr_number:
  assumes "parse_instr G n l = Inr i"
  shows "parse_instr G m l = Inr i"
proof -
  obtain kw r where k: "split_keyword l = (kw, r)" by fastforce
  show ?thesis
    using assms k
    by (auto simp: parse_instr_def Let_def intro: parse_parts_number [where n = n] split: if_splits option.splits)
qed

lemma parse_loop_numbers:
  "map snd ls = map snd ls' \<Longrightarrow> parse_loop G s ls = Inr is \<Longrightarrow> parse_loop G s ls' = Inr is"
proof (induction ls arbitrary: ls' s "is")
  case (Cons l ls)
  obtain n line where l: "l = (n, line)" by (cases l)
  obtain m rest' where r: "ls' = (m, line) # rest'" "map snd ls = map snd rest'" using Cons.prems(1) l by (cases ls') auto
  obtain i where i: "parse_instr G n line = Inr i" using Cons.prems(2) l by (auto split: sum.splits)
  let ?seen = "s \<or> map ascii_upper (fst (split_keyword line)) = ''FROM''"
  obtain js where j: "parse_loop G ?seen ls = Inr js" "is = i # js" "?seen \<or> is_from i"
    using Cons.prems(2) i l by (auto simp: Let_def split: sum.splits if_splits)
  show ?case using Cons.IH [OF r(2) j(1)] j(2,3) parse_instr_number [OF i, of m] r(1) by (simp add: Let_def)
qed simp

text \<open>
  Comments never matter. Whether or not lines that start with \<open>#\<close> are taken out of a Dockerfile, also from
  the middle of an instruction that is continued over several lines, it parses to the same
  instructions, or in both cases not at all.
\<close>

theorem comments_do_not_matter:
  "parse_loop G False (logical_lines ls) = Inr is \<longleftrightarrow> parse_loop G False (logical_lines (filter (\<lambda>l. \<not> is_comment l) ls)) = Inr is"
  using logical_loop_comments [of None None 0 ls 0] parse_loop_numbers unfolding logical_lines_def by metis

subsection \<open>Stages\<close>

definition stage_text :: "stage \<Rightarrow> instr list" where
  "stage_text st = IFrom (st_image st) (st_alias st) # st_instructions st"

text \<open>The stages by recursion: each \<open>FROM\<close> with what follows up to the next.\<close>

fun cut_stages :: "instr list \<Rightarrow> stage list" where
  "cut_stages [] = []"
| "cut_stages (IFrom img al # is) =
     \<lparr>st_image = img, st_alias = al, st_instructions = takeWhile (\<lambda>i. \<not> is_from i) is\<rparr> # cut_stages is"
| "cut_stages (i # is) = cut_stages is"

lemma cut_stages_whole: "concat (map stage_text (cut_stages is)) = dropWhile (\<lambda>i. \<not> is_from i) is"
  by (induction "is" rule: cut_stages.induct) (simp_all add: stage_text_def)

definition slice_stages :: "instr list \<Rightarrow> nat list \<Rightarrow> stage list" where
  "slice_stages is starts =
     concat (map (\<lambda>k. stage_of is (starts ! k) (if k + 1 < length starts then starts ! (k + 1) else length is)) [0..<length starts])"

lemma stage_starts_Cons:
  "stage_starts (i # is) = (if is_from i then [0] else []) @ map Suc (stage_starts is)"
proof -
  have e: "filter (\<lambda>(n, i). P i) (enumerate (Suc k) xs) = map (\<lambda>(n, i). (Suc n, i)) (filter (\<lambda>(n, i). P i) (enumerate k xs))"
    for P k and xs :: "instr list" by (induction xs arbitrary: k) auto
  show ?thesis by (simp add: stage_starts_def e comp_def case_prod_beta)
qed

lemma stage_of_Suc: "stage_of (i # is) (Suc a) (Suc b) = stage_of is a b"
  by (simp add: stage_of_def split: instr.split)

lemma slice_stages_Suc: "slice_stages (i # is) (map Suc starts) = slice_stages is starts"
proof -
  have "stage_of (i # is) (map Suc starts ! k) (if k + 1 < length (map Suc starts) then map Suc starts ! (k + 1) else length (i # is)) =
      stage_of is (starts ! k) (if k + 1 < length starts then starts ! (k + 1) else length is)" if "k < length starts" for k
    using that by (simp add: stage_of_Suc)
  then show ?thesis unfolding slice_stages_def by (intro arg_cong [of _ _ concat] map_cong) auto
qed

lemma slice_stages_from:
  "slice_stages (IFrom img al # is) (0 # map Suc starts) =
     \<lparr>st_image = img, st_alias = al, st_instructions = take (if starts = [] then length is else hd starts) is\<rparr> # slice_stages is starts"
proof -
  let ?f = "\<lambda>ss k. stage_of (IFrom img al # is) (ss ! k) (if k + 1 < length ss then ss ! (k + 1) else length (IFrom img al # is))"
  have u: "[0..<length (0 # map Suc starts)] = 0 # map Suc [0..<length starts]" by (simp add: upt_conv_Cons map_Suc_upt del: upt_Suc)
  have "map (?f (0 # map Suc starts)) (map Suc [0..<length starts]) = map (?f (map Suc starts)) [0..<length starts]"
    by (simp add: comp_def)
  then have "slice_stages (IFrom img al # is) (0 # map Suc starts) = ?f (0 # map Suc starts) 0 @ slice_stages (IFrom img al # is) (map Suc starts)"
    by (simp only: slice_stages_def u list.map concat.simps length_map)
  moreover have "?f (0 # map Suc starts) 0 = [\<lparr>st_image = img, st_alias = al, st_instructions = take (if starts = [] then length is else hd starts) is\<rparr>]"
    by (cases starts) (simp_all add: stage_of_def)
  ultimately show ?thesis by (simp add: slice_stages_Suc)
qed

lemma take_to_next_from:
  "take (if stage_starts is = [] then length is else hd (stage_starts is)) is = takeWhile (\<lambda>i. \<not> is_from i) is"
proof (induction "is")
  case (Cons i "is")
  then show ?case by (cases "stage_starts is") (auto simp: stage_starts_Cons)
qed simp

lemma stages_cut: "stages is = cut_stages is"
proof -
  have "slice_stages is (stage_starts is) = cut_stages is"
  proof (induction "is")
    case (Cons i "is")
    then show ?case
      by (cases i) (simp_all add: stage_starts_Cons slice_stages_Suc slice_stages_from take_to_next_from)
  qed (simp add: slice_stages_def stage_starts_def)
  then show ?thesis by (simp add: stages_def slice_stages_def Let_def)
qed

lemma parse_starts_with_from:
  assumes "parse_loop G False ls = Inr is"
  shows "is = [] \<or> is_from (hd is)"
proof (cases ls)
  case (Cons l ls')
  obtain n line where l: "l = (n, line)" by (cases l)
  have "is_from i" if "parse_instr G n line = Inr i" "map ascii_upper (fst (split_keyword line)) = ''FROM''" for i
    using that by (auto simp: parse_instr_def parse_from_def split: prod.splits list.splits if_splits)
  then show ?thesis using assms Cons l by (auto simp: Let_def split: sum.splits if_splits)
qed (use assms in simp)

text \<open>
  C37: The stages of a Dockerfile are all of it. When a source parses, its stages, each written as its
  \<open>FROM\<close> and its instructions, are together the list of instructions: none is lost, none belongs to two
  stages, and no stage contains a \<open>FROM\<close> of another.
\<close>

theorem stages_are_all_of_it:
  assumes "df_parse G src = Inr is"
  shows "concat (map stage_text (stages is)) = is \<and> list_all (\<lambda>st. list_all (\<lambda>i. \<not> is_from i) (st_instructions st)) (stages is)"
proof -
  have "dropWhile (\<lambda>i. \<not> is_from i) is = is"
    using parse_starts_with_from [of G _ "is"] assms by (cases "is") (auto simp: df_parse_def)
  moreover have "list_all (\<lambda>st. list_all (\<lambda>i. \<not> is_from i) (st_instructions st)) (cut_stages is)"
    by (induction "is" rule: cut_stages.induct) (auto simp: list_all_iff dest: set_takeWhileD)
  ultimately show ?thesis by (simp add: stages_cut cut_stages_whole)
qed

subsection \<open>Errors\<close>

fun error_line :: "df_error \<Rightarrow> nat" where
  "error_line (FromNeedsImage n) = n"
| "error_line (FromTakesAlias n) = n"
| "error_line (BadArguments n kw) = n"
| "error_line (FromFlagNeedsStage n kw) = n"
| "error_line (FlagUnsupported n kw name) = n"
| "error_line (AddFromUnsupported n) = n"
| "error_line (EnvNeedsValue n) = n"
| "error_line (UnknownInstruction n kw) = n"
| "error_line (BeforeFirstFrom n kw) = n"
| "error_line (NoDestination n) = n"

definition no_panic :: "grammar \<Rightarrow> df_error \<Rightarrow> bool" where
  "no_panic G er \<longleftrightarrow> (\<forall>r fl w. gr_copy_args G r = Some (fl, w) \<longrightarrow> w \<noteq> []) \<longrightarrow> er \<noteq> NoDestination (error_line er)"

lemma copy_flags_line: "copy_flags n kw fl x = Inl er \<Longrightarrow> error_line er = n \<and> er \<noteq> NoDestination n"
  by (induction n kw fl x rule: copy_flags.induct) (auto split: if_splits option.splits list.splits)

lemma parse_parts_line:
  "parse_from n r = Inl er \<Longrightarrow> error_line er = n \<and> no_panic G er"
  "parse_copy G n kw r = Inl er \<Longrightarrow> error_line er = n \<and> no_panic G er"
  "parse_argv G n kw f r = Inl er \<Longrightarrow> error_line er = n \<and> no_panic G er"
  "parse_env G n r = Inl er \<Longrightarrow> error_line er = n \<and> no_panic G er"
proof -
  show "parse_from n r = Inl er \<Longrightarrow> error_line er = n \<and> no_panic G er"
    by (auto simp: parse_from_def no_panic_def split: list.splits if_splits)
  show "parse_argv G n kw f r = Inl er \<Longrightarrow> error_line er = n \<and> no_panic G er"
    by (auto simp: parse_argv_def no_panic_def split: option.splits)
  show "parse_env G n r = Inl er \<Longrightarrow> error_line er = n \<and> no_panic G er"
    by (auto simp: parse_env_def no_panic_def split: option.splits)
  show "error_line er = n \<and> no_panic G er" if p: "parse_copy G n kw r = Inl er"
  proof (cases "gr_copy_args G r")
    case (Some a)
    then show ?thesis
      using p copy_flags_line [of n kw "fst a" None er]
      by (cases a) (auto simp: parse_copy_def no_panic_def split: sum.splits option.splits if_splits)
  qed (use p in \<open>auto simp: parse_copy_def no_panic_def\<close>)
qed

lemma parse_instr_line: "parse_instr G n l = Inl er \<Longrightarrow> error_line er = n \<and> no_panic G er"
proof -
  obtain kw r where k: "split_keyword l = (kw, r)" by fastforce
  assume "parse_instr G n l = Inl er"
  then show ?thesis
    using k by (auto simp: parse_instr_def Let_def no_panic_def [of _ "BadArguments _ _"] no_panic_def [of _ "UnknownInstruction _ _"]
        dest: parse_parts_line split: if_splits option.splits)
qed

lemma parse_loop_line:
  "parse_loop G s ls = Inl er \<Longrightarrow>
   \<exists>pre n line post is. ls = pre @ (n, line) # post \<and> error_line er = n \<and> no_panic G er \<and> parse_loop G s pre = Inr is"
proof (induction ls arbitrary: s)
  case (Cons l ls)
  obtain n line where l: "l = (n, line)" by (cases l)
  let ?seen = "s \<or> map ascii_upper (fst (split_keyword line)) = ''FROM''"
  consider (here) "error_line er = n \<and> no_panic G er"
    | (later) i where "parse_instr G n line = Inr i" "?seen \<or> is_from i" "parse_loop G ?seen ls = Inl er"
    using Cons.prems l parse_instr_line [of G n line] by (auto simp: Let_def no_panic_def [of _ "BeforeFirstFrom _ _"] split: sum.splits if_splits)
  then show ?case
  proof cases
    case here
    then show ?thesis using l by (intro exI [of _ "[]"]) auto
  next
    case later
    obtain pre m li post "is" where "ls = pre @ (m, li) # post" "error_line er = m" "no_panic G er" "parse_loop G ?seen pre = Inr is"
      using Cons.IH [OF later(3)] by blast
    then have "l # ls = (l # pre) @ (m, li) # post \<and> error_line er = m \<and> no_panic G er \<and> parse_loop G s (l # pre) = Inr (i # is)"
      using later(1,2) l by (simp add: Let_def)
    then show ?thesis by blast
  qed
qed simp

lemma logical_loop_numbers:
  "(n, l) \<in> set (logical_loop i ls p) \<Longrightarrow> (\<exists>a. p = Some (n, a)) \<or> i < n \<and> n \<le> i + length ls"
proof (induction ls arbitrary: i p)
  case Nil
  then show ?case by (auto simp: flush_def split: option.splits if_splits)
next
  case (Cons raw ls)
  obtain t c where s: "strip_backslash (trim_end raw) = (t, c)" by fastforce
  show ?case
    using Cons.prems s Cons.IH [of "Suc i" None] Cons.IH [of "Suc i" p] Cons.IH [of "Suc i" "Some _"]
    by (cases p) (fastforce simp: Let_def flush_def split: if_splits)+
qed


subsection \<open>Examples\<close>

definition demo_grammar :: grammar where
  "demo_grammar = \<lparr>gr_copy_args = (\<lambda>r. None), gr_exec_array = (\<lambda>r. None), gr_words = (\<lambda>r. Some [r]), gr_kv_pairs = (\<lambda>r. None)\<rparr>"

definition two_stages :: string where
  "two_stages = ''FROM a AS b'' @ [CHR 0x0A] @ ''RUN x'' @ [CHR 0x0A] @ ''from c''"

theorem stages_are_all_of_it_witness:
  "length (stages [IFrom ''a'' (Some ''b''), IRun [''x''], IFrom ''c'' None]) = 2 \<and>
   concat (map stage_text (stages [IFrom ''a'' (Some ''b''), IRun [''x''], IFrom ''c'' None])) = [IFrom ''a'' (Some ''b''), IRun [''x''], IFrom ''c'' None]"
proof -
  have "df_parse demo_grammar two_stages = Inr [IFrom ''a'' (Some ''b''), IRun [''x''], IFrom ''c'' None]" by code_simp
  from stages_are_all_of_it [OF this] show ?thesis by (simp add: stages_cut)
qed


text \<open>
  A blank line is dropped between instructions, but inside a continued one it is its end, and
  what follows is read as a new instruction.
\<close>

lemma blank_line_ends_a_continuation:
  "logical_lines [''COPY a '' @ [CHR 0x5C], [], ''b /d''] = [(1, ''COPY a ''), (3, ''b /d'')]"
  by code_simp

end
