(* ===== verification/Spec2Isabelle.thy ===== *)
theory Spec2Isabelle
  imports Protocol Wiring Node_Id Provider Vfs_Limits Layers Smf Instancing Exec_Pipe Midi_Sync Srv_Limits Terminal Arp
    Dockerfile
begin

text \<open>
  A verification library for wk, a canvas on which WebAssembly programs are wired together.

  \<^bold>\<open>The program.\<close> A server (\<open>crates/wk-server\<close>) keeps a document of nodes and wires. A node
  runs a guest program with a virtual filesystem of its own (\<open>crates/wk-vfs\<close>), into which the
  host mounts files, image layers, volumes that are shared with other nodes, and subtrees that
  another node serves (a provider). Wires carry MIDI, mounts, servers and networks; a document
  may define groups that are instantiated in its tabs. Clients speak a protocol of commands
  (\<open>crates/wk-protocol\<close>) with capability tokens. A sequencer (\<open>crates/wk-sequence\<close>,
  \<open>plugins/sequencer\<close>) plays songs over the MIDI wires and exports them as Standard MIDI
  Files (\<open>crates/wk-midifile\<close>).

  \<^bold>\<open>The theories\<close>, each beside the code it models:

  \<^item> \<open>Prelude\<close>: machine types, strings, \<open>BTreeMap\<close> as a sorted list behind the locale
    \<open>ordered_map\<close>, the halves of a byte.
  \<^item> \<open>Protocol\<close>, \<open>Node_Id\<close> (\<open>wk-protocol\<close>): the vocabulary, \<open>Command::required\<close>, the text of a
    node id. Shown: which commands need which right, ids read back as themselves.
  \<^item> \<open>Wiring\<close> (\<open>wk-server/wiring.rs\<close>): what a drawn line means, toggling, the plans that bring
    running servers and MIDI links in line with the canvas. Shown: symmetry of the
    classification, convergence of the plans.
  \<^item> \<open>Provider\<close> (\<open>wk-vfs/provider.rs\<close>): the conduit to a provider as a state machine; a blocking
    call is an issue step and a return or timeout step. Shown: no caller is forgotten, no reply
    goes astray, a dead serve loop fails its calls.
  \<^item> \<open>Vfs_Core\<close>, \<open>Vfs_Path\<close>, \<open>Vfs_Ops\<close>, \<open>Vfs_Dirs\<close> (\<open>wk-vfs/lib.rs\<close>): the node table, the two
    path resolvers, the host operations and every method of the descriptor interface.
    \<open>Vfs_Inv\<close>, \<open>Vfs_Table\<close>, \<open>Vfs_Refine\<close>: the invariant and what each operation keeps of the
    table. \<open>Vfs_Session\<close>: runs of a guest and its host, with the handle table. \<open>Vfs_Safety\<close>,
    \<open>Vfs_Remote\<close>: read-only mounts, open files, reference counts, provider handles.
    \<open>Vfs_Data\<close>: reading, writing and resizing against the plain list of bytes.
    \<open>Vfs_Limits\<close>: what does not hold.
  \<^item> \<open>Layers\<close> (\<open>wk-vfs/layers.rs\<close>): image layers, lazily or eagerly read, and their application.
  \<^item> \<open>Midifile\<close> (\<open>wk-midifile\<close>): parser and writer of Standard MIDI Files, and their round trips.
  \<^item> \<open>Song\<close>, \<open>Transport\<close>, \<open>Smf\<close> (\<open>wk-sequence\<close>): the piece, its saved form, the scheduler with
    the transport buttons, export and import.
  \<^item> \<open>Instancing\<close> (\<open>wk-server/instancing.rs\<close>, \<open>nodename.rs\<close>): the expansion of groups into
    instances.
  \<^item> \<open>Exec_Pipe\<close> (\<open>wk-server/execpipe.rs\<close>): the pipe between two programs, with its sleeping
    tasks; the locale \<open>waker_slot\<close> is the contract of one side.
  \<^item> \<open>Midi_Stream\<close> (\<open>wk-server/midi/stream.rs\<close>): the decoder of a hardware port.
  \<^item> \<open>Midi_Router\<close> (\<open>wk-server/midi.rs\<close>): inboxes, wires and routes. \<open>Midi_Sync\<close> (\<open>midihw.rs\<close>,
    \<open>Server::sync_midi\<close>): from a hardware port over the wires, and the routes against the canvas.
  \<^item> \<open>Text_Codec\<close> (\<open>wk-server/workspace.rs\<close>): tokens and secrets in hexadecimal.
  \<^item> \<open>Srv_Graph\<close>, \<open>Srv_State\<close>, \<open>Srv_Doc\<close>, \<open>Srv_Inst\<close>, \<open>Srv_Apply\<close>, \<open>Srv_Command\<close>
    (\<open>wk-server/server.rs\<close>): the graph and the operations on it, the server's state, a node's
    saved form, the instances of groups, loading, saving and the tick, the commands with their
    undo history. \<open>Srv_Moves\<close>, \<open>Srv_Runs\<close>: every command is a sequence of small moves; a law
    that every move keeps (locale \<open>move_law\<close>) holds in every reachable state. \<open>Srv_Inv\<close>: the
    laws. \<open>Srv_Props\<close>: what they show of the server. \<open>Srv_Undo\<close>: undo against deletion and
    creation. \<open>Srv_Limits\<close>: where the server departs from its comments.
  \<^item> \<open>Terminal\<close> (\<open>wk-server/terminal.rs\<close>, the log follower of \<open>wk-api\<close>): the standard streams of a guest, the
    log ring, the cooked line discipline. Shown: typed lines arrive whole, a waiting guest is
    woken, output is bounded and in order, followers of the log miss nothing.
  \<^item> \<open>Arp\<close> (\<open>plugins/arp\<close>): the arpeggiator, frame by frame. Shown: one note at a time and none left
    behind, the pattern is played without a gap whatever the frames.
  \<^item> \<open>Dockerfile\<close> (\<open>wk-dockerfile\<close>): logical lines, instructions, stages. Shown: comments do not
    matter, the stages are all of the file, an error names its line.

  \<^bold>\<open>State and effects.\<close> A struct is a record, an enum a datatype, a method a function from the
  state to the result and the new state; an \<open>Err\<close> is \<open>Inl\<close>. What several nodes share (volumes,
  the host's disk, a layer's lazily filled cell, a provider's conduit, an inbox) lives in an
  explicit store. Code that runs concurrently takes a lock per method, so one method is one
  step and the interleavings are the sequences of steps. Machine integers keep their width
  where the code can reach its limits; identifiers that a process cannot exhaust are naturals.

  \<^bold>\<open>Bounds\<close> are those of the code: 32 symbolic links followed in a walk (which is why the walk
  terminates), 100000 nodes, 256 MiB in a file, 32 KiB in a read, 1024 requests or MIDI events
  waiting, 28 bits in a variable-length quantity, nesting of 16 and 4096 instances (which is
  why the expansion terminates), 256 steps in a pump of the scheduler, 64 KiB in a pipe,
  65536 bytes in a dump. The one loop without a bound is the search for a free generated name;
  it is an \<open>option\<close>, and that it need not end is shown. The removal of a group is a stack of
  removals that a partial function works off. The undo history holds 200 entries.

  \<^bold>\<open>Parameters.\<close> Code of other packages is an argument: what a provider answers, the tar and
  gzip readers, SHA-256, the arithmetic of \<open>f64\<close>, the clock, the iteration order of a hash set.
  What the server asks of its runtime (fresh ids, devices and uplinks that open or do not, what a
  compiled program turns out to be, whether a token verifies) is the record \<open>runtime\<close>, one for
  each command, so that it may change from one to the next.

  \<^bold>\<open>Not modelled.\<close> The engine that runs the guests and its generated bindings (\<open>plugin.rs\<close>,
  \<open>runtime.rs\<close>, the \<open>wasi\<close> 0.3 variants), the passes of the server that drive them (mounting,
  serving, joining networks, checking tokens), the network stack and its sockets (smoltcp, veilid),
  the registry client and image store, audio, the screen of a terminal, tokens and signatures, the KDL text of
  a document, the user interface, and the other plugins: they are I/O, drawing or third-party
  state machines.
\<close>

end
